(* ===== verification/Prelude.thy ===== *)
theory Prelude
  imports Main "HOL-Library.Word"
begin

text \<open>
  Shared vocabulary of the DBSQL development: the C types the sources use,
  C strings as lists of bytes, the table-independent character tests of
  \<^verbatim>\<open>ctype.h\<close>, and the list lemmas several components need.

  A C \<^verbatim>\<open>int\<close> is a 32 bit word read with \<^const>\<open>sint\<close>; addition, subtraction and
  multiplication wrap.  A C string is the list of its bytes without the terminating NUL;
  a byte buffer (a record, a key, the bytes of a \<^verbatim>\<open>mem_t\<close>) is the list of all its bytes,
  NULs included.
\<close>

unbundle bit_operations_syntax

type_synonym i32 = "32 word"
type_synonym cstring = string

text \<open>The codes of the tokens are numbers the parser generator chooses, different for different tokens; here a
  token is its name.\<close>

type_synonym tk = string

named_theorems cstr_simps \<open>unfolding rules for the C string primitives\<close>
named_theorems vm_simps \<open>unfolding rules for the opcodes of the virtual machine\<close>

abbreviation NUL :: char where
  "NUL \<equiv> CHR 0x00"

subsection \<open>C characters and strings\<close>

definition char_code :: "char \<Rightarrow> nat" where
  "char_code c = of_char c"

definition is_digit :: "char \<Rightarrow> bool" where
  "is_digit c \<longleftrightarrow> 48 \<le> char_code c \<and> char_code c \<le> 57"

definition is_space :: "char \<Rightarrow> bool" where
  "is_space c \<longleftrightarrow> char_code c = 32 \<or> (9 \<le> char_code c \<and> char_code c \<le> 13)"

definition digit_val :: "char \<Rightarrow> nat" where
  "digit_val c = char_code c - 48"

text \<open>Reading \<^verbatim>\<open>z[i]\<close>: the byte at the end of the string is the terminator.\<close>

definition c_at :: "cstring \<Rightarrow> nat \<Rightarrow> char" where
  "c_at z i = (if i < length z then z ! i else NUL)"

text \<open>The C string a buffer holds: its bytes up to the first NUL.\<close>

definition cstr :: "string \<Rightarrow> cstring" where
  "cstr z = takeWhile (\<lambda>c. c \<noteq> NUL) z"

text \<open>Strings that C code can represent hold no NUL.\<close>

definition nul_free :: "string \<Rightarrow> bool" where
  "nul_free z \<longleftrightarrow> NUL \<notin> set z"

lemma char_code_inj [simp]: "char_code a = char_code b \<longleftrightarrow> a = b"
  by (simp add: char_code_def)

lemma char_code_NUL [simp]: "char_code NUL = 0"
  by (simp add: char_code_def)

lemma char_code_0 [simp]: "char_code c = 0 \<longleftrightarrow> c = NUL"
  by (metis char_code_NUL char_code_inj)

lemma char_code_less [simp]: "char_code c < 256"
  by (simp add: char_code_def of_char_of)

lemma cstr_nul_free [simp]: "nul_free (cstr z)"
  by (auto simp: nul_free_def cstr_def dest: set_takeWhileD)

lemma cstr_append_NUL [simp]: "nul_free z \<Longrightarrow> cstr (z @ NUL # r) = z"
  by (induction z) (auto simp: nul_free_def cstr_def)

lemma cstr_id [simp]: "nul_free z \<Longrightarrow> cstr z = z"
  by (induction z) (auto simp: nul_free_def cstr_def)

lemma nul_free_Cons [simp]: "nul_free (c # z) \<longleftrightarrow> c \<noteq> NUL \<and> nul_free z"
  by (auto simp: nul_free_def)

lemma nul_free_Nil [simp]: "nul_free []"
  by (simp add: nul_free_def)

lemma nul_free_append [simp]: "nul_free (a @ b) \<longleftrightarrow> nul_free a \<and> nul_free b"
  by (auto simp: nul_free_def)

lemma c_at_0 [cstr_simps]: "c_at z 0 = (case z of [] \<Rightarrow> NUL | c # _ \<Rightarrow> c)"
  by (cases z) (auto simp: c_at_def)

lemma case_option_False_iff: "(case x of None \<Rightarrow> False | Some y \<Rightarrow> P y) \<longleftrightarrow> (\<exists>y. x = Some y \<and> P y)"
  by (simp split: option.split)

subsection \<open>32 bit integers\<close>

lemma sint_of_int_i32: "- (2 ^ 31) \<le> i \<Longrightarrow> i < 2 ^ 31 \<Longrightarrow> sint (word_of_int i :: i32) = i"
  by (simp add: signed_of_int signed_take_bit_int_eq_self)

lemma sint_of_nat_i32: "n < 2 ^ 31 \<Longrightarrow> sint (of_nat n :: i32) = int n"
  using sint_of_int_i32 [of "int n"] by simp

lemma sint_uminus_of_nat_i32: "n \<le> 2 ^ 31 \<Longrightarrow> sint (- of_nat n :: i32) = - int n"
  using sint_of_int_i32 [of "- int n"] by simp

subsection \<open>Byte order comparison\<close>

text \<open>
  \<^verbatim>\<open>strcmp\<close> and \<^verbatim>\<open>memcmp\<close> compare unsigned bytes and return the sign of the first
  difference; the end of a string compares below every byte.
\<close>

fun strcmp :: "cstring \<Rightarrow> cstring \<Rightarrow> int" where
  "strcmp [] [] = 0"
| "strcmp [] (b # bs) = -1"
| "strcmp (a # as) [] = 1"
| "strcmp (a # as) (b # bs) =
     (if char_code a < char_code b then -1
      else if char_code b < char_code a then 1
      else strcmp as bs)"

definition memcmp :: "string \<Rightarrow> string \<Rightarrow> nat \<Rightarrow> int" where
  "memcmp a b n = strcmp (take n a) (take n b)"

lemma strcmp_refl [simp]: "strcmp a a = 0"
  by (induction a) auto

lemma strcmp_eq_0 [simp]: "strcmp a b = 0 \<longleftrightarrow> a = b"
proof (induction a b rule: strcmp.induct)
  case (4 a as b bs)
  then show ?case
    by (auto simp: not_less_iff_gr_or_eq simp flip: char_code_inj)
qed auto

lemma strcmp_swap: "strcmp b a = - strcmp a b"
  by (induction a b rule: strcmp.induct) auto

lemma strcmp_le_trans: "strcmp a b \<le> 0 \<Longrightarrow> strcmp b c \<le> 0 \<Longrightarrow> strcmp a c \<le> 0"
proof (induction a c arbitrary: b rule: strcmp.induct)
  case (3 a as)
  then show ?case by (cases b) auto
next
  case (4 a as c cs)
  then show ?case by (cases b) (auto split: if_splits)
qed auto

end
