(* ===== verification/Fpu.thy ===== *)
theory Fpu
  imports Prelude Complex_Main
begin

text \<open>
  Floating point arithmetic as the engine uses it.  The sources compute with C
  \<^verbatim>\<open>double\<close> (the \<^verbatim>\<open>r\<close> field of a \<^verbatim>\<open>mem_t\<close>) and, while reading a number, with
  \<^verbatim>\<open>long double\<close>.  Both formats belong to the platform: every definition that computes
  with them takes the operations as a record, and a theorem that depends on a law of the
  arithmetic assumes the locale \<open>ieee\<close>, which states what IEEE 754 guarantees for
  comparisons of values that are not NaN.
\<close>

record ('r, 'l) fpu =
  fadd :: "'r \<Rightarrow> 'r \<Rightarrow> 'r"
  fsub :: "'r \<Rightarrow> 'r \<Rightarrow> 'r"
  fmul :: "'r \<Rightarrow> 'r \<Rightarrow> 'r"
  fdiv :: "'r \<Rightarrow> 'r \<Rightarrow> 'r"
  fneg :: "'r \<Rightarrow> 'r"
  flt :: "'r \<Rightarrow> 'r \<Rightarrow> bool"
  feq :: "'r \<Rightarrow> 'r \<Rightarrow> bool"
  f_of_int :: "i32 \<Rightarrow> 'r"
  f_to_int :: "'r \<Rightarrow> i32"
  fmt15g :: "'r \<Rightarrow> cstring"
  l_of_int :: "int \<Rightarrow> 'l"
  l_add :: "'l \<Rightarrow> 'l \<Rightarrow> 'l"
  l_mul :: "'l \<Rightarrow> 'l \<Rightarrow> 'l"
  l_div :: "'l \<Rightarrow> 'l \<Rightarrow> 'l"
  l_neg :: "'l \<Rightarrow> 'l"
  l_to_double :: "'l \<Rightarrow> 'r"

text \<open>A value that equals itself is ordered; only NaN is not.\<close>

definition f_ordered :: "('r, 'l) fpu \<Rightarrow> 'r \<Rightarrow> bool" where
  "f_ordered F x \<longleftrightarrow> feq F x x"

definition fzero :: "('r, 'l) fpu \<Rightarrow> 'r" where
  "fzero F = f_of_int F 0"

text \<open>The comparison laws of IEEE 754 on values other than NaN.\<close>

locale ieee =
  fixes F :: "('r, 'l) fpu"
  assumes flt_irrefl: "f_ordered F x \<Longrightarrow> \<not> flt F x x"
    and flt_trans: "f_ordered F x \<Longrightarrow> f_ordered F y \<Longrightarrow> f_ordered F z \<Longrightarrow>
          flt F x y \<Longrightarrow> flt F y z \<Longrightarrow> flt F x z"
    and flt_weak: "f_ordered F x \<Longrightarrow> f_ordered F y \<Longrightarrow> f_ordered F z \<Longrightarrow>
          \<not> flt F x y \<Longrightarrow> \<not> flt F y z \<Longrightarrow> \<not> flt F x z"
begin

lemma flt_asym: "f_ordered F x \<Longrightarrow> f_ordered F y \<Longrightarrow> flt F x y \<Longrightarrow> \<not> flt F y x"
  using flt_irrefl flt_trans by blast

end

text \<open>
  Exact rational arithmetic is one implementation of the interface; it rounds towards zero
  on conversion to an integer and prints the integral part of a value.
\<close>

fun show_nat :: "nat \<Rightarrow> cstring" where
  "show_nat n = (if n < 10 then [char_of (48 + n)]
     else show_nat (n div 10) @ [char_of (48 + n mod 10)])"

declare show_nat.simps [simp del]

definition show_int :: "int \<Rightarrow> cstring" where
  "show_int i = (if i < 0 then CHR ''-'' # show_nat (nat (- i)) else show_nat (nat i))"

definition rat_trunc :: "rat \<Rightarrow> int" where
  "rat_trunc x = (if x < 0 then - \<lfloor>- x\<rfloor> else \<lfloor>x\<rfloor>)"

definition rat_fpu :: "(rat, rat) fpu" where
  "rat_fpu = \<lparr> fadd = (+), fsub = (-), fmul = (*), fdiv = (/), fneg = uminus,
     flt = (<), feq = (=),
     f_of_int = (\<lambda>i. of_int (sint i)), f_to_int = (\<lambda>x. word_of_int (rat_trunc x)),
     fmt15g = (\<lambda>x. show_int (rat_trunc x)),
     l_of_int = of_int, l_add = (+), l_mul = (*), l_div = (/), l_neg = uminus,
     l_to_double = id \<rparr>"

interpretation rat_ieee: ieee rat_fpu
  by unfold_locales (auto simp: rat_fpu_def f_ordered_def)

lemma rat_fpu_ordered [simp]: "f_ordered rat_fpu x"
  by (simp add: f_ordered_def rat_fpu_def)

lemma show_nat_code: "show_nat n = (if n < 10 then [char_of (48 + n)]
     else show_nat (n div 10) @ [char_of (48 + n mod 10)])"
  by (rule show_nat.simps)

lemma show_nat_digits: "list_all is_digit (show_nat n)"
proof (induction n rule: show_nat.induct)
  case (1 n)
  have dig: "is_digit (char_of (48 + m))" if "m < 10" for m :: nat
    using that by (simp add: is_digit_def char_code_def of_char_of)
  show ?case
    by (subst show_nat.simps) (auto simp: 1 dig)
qed

lemma show_nat_not_Nil [simp]: "show_nat n \<noteq> []"
  by (subst show_nat.simps) simp

lemma is_digit_not_NUL: "is_digit c \<Longrightarrow> c \<noteq> NUL"
  by (auto simp: is_digit_def char_code_def)

lemma show_nat_nul_free [simp]: "nul_free (show_nat n)"
  using show_nat_digits [of n] by (auto simp: nul_free_def list_all_iff dest: is_digit_not_NUL)

lemma show_int_nul_free [simp]: "nul_free (show_int i)"
  by (simp add: show_int_def)

end
