(* ===== verification/CStr.thy ===== *)
theory CStr
  imports Fpu
begin

text \<open>
  The string library: \<^verbatim>\<open>src/common/str.c\<close>, \<^verbatim>\<open>src/common/dbsql_atoi.c\<close>,
  \<^verbatim>\<open>src/common/dbsql_atof.c\<close> and \<^verbatim>\<open>src/clib/strcasecmp.c\<close>.  Case folding, string
  assembly, SQL quoting, number recognition and conversion, the LIKE and GLOB matchers, and
  the two comparisons that order values in expressions and on the sorter.
\<close>

section \<open>Case folding\<close>

definition str_upper_to_lower :: "nat list" where
  "str_upper_to_lower = [
     0, 1, 2, 3, 4, 5, 6, 7, 8, 9, 10, 11, 12, 13, 14, 15,
     16, 17, 18, 19, 20, 21, 22, 23, 24, 25, 26, 27, 28, 29, 30, 31,
     32, 33, 34, 35, 36, 37, 38, 39, 40, 41, 42, 43, 44, 45, 46, 47,
     48, 49, 50, 51, 52, 53, 54, 55, 56, 57, 58, 59, 60, 61, 62, 63,
     64, 97, 98, 99, 100, 101, 102, 103, 104, 105, 106, 107, 108, 109, 110, 111,
     112, 113, 114, 115, 116, 117, 118, 119, 120, 121, 122, 91, 92, 93, 94, 95,
     96, 97, 98, 99, 100, 101, 102, 103, 104, 105, 106, 107, 108, 109, 110, 111,
     112, 113, 114, 115, 116, 117, 118, 119, 120, 121, 122, 123, 124, 125, 126, 127,
     128, 129, 130, 131, 132, 133, 134, 135, 136, 137, 138, 139, 140, 141, 142, 143,
     144, 145, 146, 147, 148, 149, 150, 151, 152, 153, 154, 155, 156, 157, 158, 159,
     160, 161, 162, 163, 164, 165, 166, 167, 168, 169, 170, 171, 172, 173, 174, 175,
     176, 177, 178, 179, 180, 181, 182, 183, 184, 185, 186, 187, 188, 189, 190, 191,
     192, 193, 194, 195, 196, 197, 198, 199, 200, 201, 202, 203, 204, 205, 206, 207,
     208, 209, 210, 211, 212, 213, 214, 215, 216, 217, 218, 219, 220, 221, 222, 223,
     224, 225, 226, 227, 228, 229, 230, 231, 232, 233, 234, 235, 236, 237, 238, 239,
     240, 241, 242, 243, 244, 245, 246, 247, 248, 249, 250, 251, 252, 253, 254, 255]"

definition lower :: "char \<Rightarrow> nat" where
  "lower c = str_upper_to_lower ! char_code c"

lemma length_upper_to_lower: "length str_upper_to_lower = 256"
  by (simp add: str_upper_to_lower_def)

lemma upper_to_lower_table:
  "str_upper_to_lower = map (\<lambda>n. if 65 \<le> n \<and> n \<le> 90 then n + 32 else n) [0..<256]"
  by (simp add: str_upper_to_lower_def upt_rec)

text \<open>The table folds the 26 ASCII capitals and leaves every other byte alone.\<close>

lemma lower_eq: "lower c = (if 65 \<le> char_code c \<and> char_code c \<le> 90 then char_code c + 32 else char_code c)"
  by (simp add: lower_def upper_to_lower_table)

lemma lower_NUL [simp]: "lower c = 0 \<longleftrightarrow> c = NUL"
  by (auto simp: lower_eq)

text \<open>\<^verbatim>\<open>strcasecmp\<close> and \<^verbatim>\<open>strncasecmp\<close> of \<^verbatim>\<open>clib\<close>: the difference of the folded bytes
  at the first place where they differ; equal strings give 0.\<close>

fun strcasecmp :: "cstring \<Rightarrow> cstring \<Rightarrow> int" where
  "strcasecmp [] [] = 0"
| "strcasecmp [] (b # bs) = - int (lower b)"
| "strcasecmp (a # as) [] = int (lower a)"
| "strcasecmp (a # as) (b # bs) =
     (if lower a \<noteq> lower b then int (lower a) - int (lower b) else strcasecmp as bs)"

definition strncasecmp :: "cstring \<Rightarrow> cstring \<Rightarrow> nat \<Rightarrow> int" where
  "strncasecmp a b n = strcasecmp (take n a) (take n b)"

section \<open>Assembling strings\<close>

definition str_append :: "cstring \<Rightarrow> cstring list \<Rightarrow> cstring" where
  "str_append fmt args = fmt @ concat args"

text \<open>Each piece comes with a length; a length that is not positive means the whole piece.
  \<^verbatim>\<open>strncpy\<close> pads a piece that is too short with NULs.\<close>

definition nappend_piece :: "cstring \<times> int \<Rightarrow> string" where
  "nappend_piece p = (case p of (tmp, n) \<Rightarrow>
     if n \<le> 0 then tmp else take (nat n) tmp @ replicate (nat n - length tmp) NUL)"

definition str_nappend :: "(cstring \<times> int) list \<Rightarrow> string" where
  "str_nappend ps = concat (map nappend_piece ps)"

section \<open>Removing SQL quotes\<close>

text \<open>
  The loop of \<^verbatim>\<open>__str_unquote\<close> over the bytes after the opening quote; \<open>z\<close> is the whole
  buffer and \<open>out\<close> the bytes written at its front.  Only a closing quote writes a terminator,
  so a string that ends without one keeps the rest of the buffer.
\<close>

fun unquote_loop :: "char \<Rightarrow> cstring \<Rightarrow> cstring \<Rightarrow> cstring \<Rightarrow> cstring" where
  "unquote_loop q z [] out = out @ drop (length out) z"
| "unquote_loop q z [c] out =
     (if c = q then out else unquote_loop q z [] (out @ [c]))"
| "unquote_loop q z (c # d # r) out =
     (if c = q then (if d = q then unquote_loop q z r (out @ [q]) else out)
      else unquote_loop q z (d # r) (out @ [c]))"

definition str_unquote :: "cstring \<Rightarrow> cstring" where
  "str_unquote z = (case z of [] \<Rightarrow> z
     | c # r \<Rightarrow>
        (if c = CHR 0x27 \<or> c = CHR 0x22 then unquote_loop c z r []
         else if c = CHR ''['' then unquote_loop (CHR '']'') z r []
         else z))"

section \<open>Numbers\<close>

definition skip_sign :: "cstring \<Rightarrow> cstring" where
  "skip_sign z = (case z of [] \<Rightarrow> [] | c # r \<Rightarrow> if c = CHR ''-'' \<or> c = CHR ''+'' then r else z)"

definition digits1 :: "cstring \<Rightarrow> cstring option" where
  "digits1 z = (case z of [] \<Rightarrow> None
     | c # r \<Rightarrow> if is_digit c then Some (dropWhile is_digit r) else None)"

definition str_is_numeric :: "cstring \<Rightarrow> bool" where
  "str_is_numeric z =
     (case digits1 (skip_sign z) of None \<Rightarrow> False
      | Some z1 \<Rightarrow>
         (case (if c_at z1 0 = CHR ''.'' then digits1 (tl z1) else Some z1) of
            None \<Rightarrow> False
          | Some z2 \<Rightarrow>
             (case (if c_at z2 0 = CHR ''e'' \<or> c_at z2 0 = CHR ''E''
                    then digits1 (skip_sign (tl z2)) else Some z2) of
                None \<Rightarrow> False
              | Some z3 \<Rightarrow> z3 = [])))"

definition int32_max_text :: cstring where
  "int32_max_text = ''2147483647''"

definition str_int_in32b :: "cstring \<Rightarrow> bool" where
  "str_int_in32b num =
     (let z = skip_sign num; i = length (takeWhile is_digit z)
      in i < 10 \<or> (i = 10 \<and> memcmp z int32_max_text 10 \<le> 0))"

text \<open>The accumulator of \<^verbatim>\<open>__dbsql_atoi\<close> is a C \<^verbatim>\<open>int\<close> and wraps.\<close>

definition atoi_step :: "i32 \<Rightarrow> char \<Rightarrow> i32" where
  "atoi_step v c = v * 10 + of_nat (digit_val c)"

definition dbsql_atoi :: "cstring \<Rightarrow> bool \<times> i32" where
  "dbsql_atoi str =
     (let neg = (c_at str 0 = CHR ''-'');
          z = skip_sign str;
          ds = takeWhile is_digit z;
          i = length ds;
          v = foldl atoi_step 0 ds
      in (drop i z = [] \<and> i > 0 \<and>
            (i < 10 \<or> (i = 10 \<and> memcmp z int32_max_text 10 \<le> 0)),
          if neg then - v else v))"

text \<open>\<^verbatim>\<open>__dbsql_atof\<close>: digits, fraction and scaled exponent, computed in \<^verbatim>\<open>long double\<close>.\<close>

definition atof_digit :: "('r, 'l) fpu \<Rightarrow> 'l \<Rightarrow> char \<Rightarrow> 'l" where
  "atof_digit F v c = l_add F (l_mul F v (l_of_int F 10)) (l_of_int F (int (digit_val c)))"

fun atof_scale :: "('r, 'l) fpu \<Rightarrow> 'l \<Rightarrow> nat \<Rightarrow> 'l" where
  "atof_scale F s e =
     (if e \<ge> 64 then atof_scale F (l_mul F s (l_of_int F (10 ^ 64))) (e - 64)
      else if e \<ge> 16 then atof_scale F (l_mul F s (l_of_int F (10 ^ 16))) (e - 16)
      else if e \<ge> 4 then atof_scale F (l_mul F s (l_of_int F (10 ^ 4))) (e - 4)
      else if e \<ge> 1 then atof_scale F (l_mul F s (l_of_int F 10)) (e - 1)
      else s)"

declare atof_scale.simps [simp del]

text \<open>The exponent is a C \<^verbatim>\<open>int\<close>: it wraps, and a negative one runs no scaling loop.\<close>

definition atof_exponent :: "cstring \<Rightarrow> nat" where
  "atof_exponent ds = nat (sint (foldl atoi_step 0 ds))"

definition dbsql_atof :: "('r, 'l) fpu \<Rightarrow> cstring \<Rightarrow> 'r" where
  "dbsql_atof F str =
     (let neg = (c_at str 0 = CHR ''-'');
          z = skip_sign str;
          v1 = foldl (atof_digit F) (l_of_int F 0) (takeWhile is_digit z);
          z1 = dropWhile is_digit z;
          (v2, z2) =
            (if c_at z1 0 = CHR ''.'' then
               (let fs = takeWhile is_digit (tl z1)
                in (l_div F (foldl (atof_digit F) v1 fs)
                      (foldl (\<lambda>d _. l_mul F d (l_of_int F 10)) (l_of_int F 1) fs),
                    dropWhile is_digit (tl z1)))
             else (v1, z1));
          v3 =
            (if c_at z2 0 = CHR ''e'' \<or> c_at z2 0 = CHR ''E'' then
               (let es = takeWhile is_digit (skip_sign (tl z2));
                    scale = atof_scale F (l_of_int F 1) (atof_exponent es)
                in if c_at (tl z2) 0 = CHR ''-'' then l_div F v2 scale else l_mul F v2 scale)
             else v2)
      in l_to_double F (if neg then l_neg F v3 else v3))"

section \<open>What the string routines compute\<close>

subsection \<open>Quoting\<close>

text \<open>Doubling every quote character and adding the outer quotes, the inverse of unquoting.\<close>

definition double_quotes :: "char \<Rightarrow> cstring \<Rightarrow> cstring" where
  "double_quotes q s = concat (map (\<lambda>c. if c = q then [q, q] else [c]) s)"

definition sql_quote :: "char \<Rightarrow> cstring \<Rightarrow> cstring" where
  "sql_quote q s = q # double_quotes q s @ [q]"

lemma unquote_loop_doubled:
  "unquote_loop q z (double_quotes q s @ [q]) out = out @ s"
proof (induction s arbitrary: out)
  case Nil
  then show ?case by (simp add: double_quotes_def)
next
  case (Cons c s)
  have "double_quotes q s @ [q] \<noteq> []" by simp
  then obtain d r where dr: "double_quotes q s @ [q] = d # r"
    by (cases "double_quotes q s @ [q]") auto
  show ?case
  proof (cases "c = q")
    case True
    then show ?thesis
      using Cons.IH [of "out @ [q]"] by (simp add: double_quotes_def)
  next
    case False
    then have "double_quotes q (c # s) @ [q] = c # d # r"
      using dr by (simp add: double_quotes_def)
    then show ?thesis
      using False Cons.IH [of "out @ [c]"] dr by simp
  qed
qed

lemma unquote_loop_open:
  "q \<notin> set r \<Longrightarrow> unquote_loop q z r out = out @ r @ drop (length out + length r) z"
  by (induction q z r out rule: unquote_loop.induct) (auto simp: Suc_le_eq)

subsection \<open>Recognising numbers\<close>

text \<open>The grammar of a number: sign, digits, optional fraction, optional exponent.\<close>

definition digit_run :: "cstring \<Rightarrow> bool" where
  "digit_run ds \<longleftrightarrow> ds \<noteq> [] \<and> list_all is_digit ds"

definition sign_text :: "cstring \<Rightarrow> bool" where
  "sign_text s \<longleftrightarrow> s = [] \<or> s = ''-'' \<or> s = ''+''"

definition fraction_text :: "cstring \<Rightarrow> bool" where
  "fraction_text f \<longleftrightarrow> f = [] \<or> (\<exists>ds. digit_run ds \<and> f = CHR ''.'' # ds)"

definition exponent_text :: "cstring \<Rightarrow> bool" where
  "exponent_text e \<longleftrightarrow> e = [] \<or>
     (\<exists>c s ds. (c = CHR ''e'' \<or> c = CHR ''E'') \<and> sign_text s \<and> digit_run ds \<and> e = c # s @ ds)"

definition number_text :: "cstring \<Rightarrow> bool" where
  "number_text z \<longleftrightarrow> (\<exists>s ds f e. sign_text s \<and> digit_run ds \<and> fraction_text f \<and>
     exponent_text e \<and> z = s @ ds @ f @ e)"

lemma not_digit_chars [simp]:
  "\<not> is_digit (CHR ''-'')" "\<not> is_digit (CHR ''+'')" "\<not> is_digit (CHR ''.'')"
  "\<not> is_digit (CHR ''e'')" "\<not> is_digit (CHR ''E'')" "\<not> is_digit NUL"
  by (simp_all add: is_digit_def char_code_def)

lemma digit_sign_cases: "is_digit c \<Longrightarrow> c \<noteq> CHR ''-'' \<and> c \<noteq> CHR ''+''"
  by auto

lemma digits1_Some: "digits1 z = Some r \<longleftrightarrow>
    (\<exists>ds. digit_run ds \<and> z = ds @ r \<and> (r = [] \<or> \<not> is_digit (hd r)))"
proof
  assume "digits1 z = Some r"
  then obtain c z' where z: "z = c # z'" "is_digit c" "r = dropWhile is_digit z'"
    by (auto simp: digits1_def split: list.splits if_splits)
  then have "digit_run (c # takeWhile is_digit z')"
    by (auto simp: digit_run_def list_all_iff dest: set_takeWhileD)
  moreover have "r = [] \<or> \<not> is_digit (hd r)"
    using z by (metis hd_dropWhile)
  moreover have "z = (c # takeWhile is_digit z') @ r"
    using z by simp
  ultimately show "\<exists>ds. digit_run ds \<and> z = ds @ r \<and> (r = [] \<or> \<not> is_digit (hd r))"
    by blast
next
  assume "\<exists>ds. digit_run ds \<and> z = ds @ r \<and> (r = [] \<or> \<not> is_digit (hd r))"
  then obtain d ds where ds: "list_all is_digit (d # ds)" "z = d # ds @ r"
      "r = [] \<or> \<not> is_digit (hd r)"
    unfolding digit_run_def by (metis append_Cons list.exhaust)
  have "dropWhile is_digit (ds @ r) = dropWhile is_digit r"
    using ds(1) by (simp add: list_all_iff dropWhile_append2)
  also have "\<dots> = r"
    using ds(3) by (cases r) auto
  finally show "digits1 z = Some r"
    using ds by (simp add: digits1_def)
qed

lemma skip_sign_run: "digit_run ds \<Longrightarrow> skip_sign (ds @ r) = ds @ r"
  by (cases ds) (auto simp: digit_run_def skip_sign_def)

lemma skip_sign_text: "sign_text s \<Longrightarrow> digit_run ds \<Longrightarrow> skip_sign (s @ ds @ r) = ds @ r"
  by (auto simp: sign_text_def skip_sign_run) (auto simp: skip_sign_def)

lemma skip_sign_split: "\<exists>s. sign_text s \<and> z = s @ skip_sign z"
  by (cases z) (auto simp: skip_sign_def sign_text_def)

lemma tail_ok:
  "fraction_text f \<Longrightarrow> exponent_text e \<Longrightarrow> f @ e = [] \<or> \<not> is_digit (hd (f @ e))"
  "exponent_text e \<Longrightarrow> e = [] \<or> \<not> is_digit (hd e)"
  by (auto simp: fraction_text_def exponent_text_def)

lemma digits1_run: "digit_run ds \<Longrightarrow> r = [] \<or> \<not> is_digit (hd r) \<Longrightarrow> digits1 (ds @ r) = Some r"
  by (auto simp: digits1_Some)

lemma exponent_step:
  "(case (if c_at z 0 = CHR ''e'' \<or> c_at z 0 = CHR ''E'' then digits1 (skip_sign (tl z)) else Some z)
    of None \<Rightarrow> False | Some z3 \<Rightarrow> z3 = []) \<longleftrightarrow> exponent_text z"
proof (cases z)
  case Nil
  then show ?thesis by (simp add: c_at_def exponent_text_def)
next
  case (Cons c r)
  have one: "digits1 (skip_sign r) = Some [] \<longleftrightarrow> (\<exists>s ds. sign_text s \<and> digit_run ds \<and> r = s @ ds)"
  proof
    assume "digits1 (skip_sign r) = Some []"
    then show "\<exists>s ds. sign_text s \<and> digit_run ds \<and> r = s @ ds"
      using skip_sign_split [of r] by (auto simp: digits1_Some)
  next
    assume "\<exists>s ds. sign_text s \<and> digit_run ds \<and> r = s @ ds"
    then obtain s ds where sd: "sign_text s" "digit_run ds" "r = s @ ds" by blast
    then show "digits1 (skip_sign r) = Some []"
      using skip_sign_text [of s ds "[]"] digits1_run [of ds "[]"] by simp
  qed
  have two: "(case digits1 (skip_sign r) of None \<Rightarrow> False | Some z3 \<Rightarrow> z3 = []) \<longleftrightarrow>
      digits1 (skip_sign r) = Some []"
    by (simp split: option.split)
  show ?thesis
  proof (cases "c = CHR ''e'' \<or> c = CHR ''E''")
    case True
    have "exponent_text z \<longleftrightarrow> (\<exists>s ds. sign_text s \<and> digit_run ds \<and> r = s @ ds)"
      unfolding exponent_text_def Cons using True by blast
    then show ?thesis
      using True Cons one two by (simp add: c_at_def)
  next
    case False
    then show ?thesis
      using Cons by (simp add: c_at_def exponent_text_def)
  qed
qed

lemma fraction_step:
  "(\<exists>z2. (if c_at z 0 = CHR ''.'' then digits1 (tl z) else Some z) = Some z2 \<and> exponent_text z2)
   \<longleftrightarrow> (\<exists>f e. fraction_text f \<and> exponent_text e \<and> z = f @ e)" (is "?L \<longleftrightarrow> ?R")
proof
  assume ?L
  then obtain z2 where z2: "(if c_at z 0 = CHR ''.'' then digits1 (tl z) else Some z) = Some z2"
      "exponent_text z2" by blast
  show ?R
  proof (cases "c_at z 0 = CHR ''.''")
    case True
    then obtain ds where "digit_run ds" "tl z = ds @ z2" and "z = CHR ''.'' # tl z"
      using z2 by (cases z) (auto simp: digits1_Some c_at_def)
    then show ?thesis
      using z2(2) by (metis append_Cons fraction_text_def)
  next
    case False
    with z2 show ?thesis by (auto simp: fraction_text_def)
  qed
next
  assume ?R
  then obtain f e where fe: "fraction_text f" "exponent_text e" "z = f @ e" by blast
  show ?L
  proof (cases f)
    case Nil
    then show ?thesis
      using fe by (auto simp: c_at_def exponent_text_def)
  next
    case (Cons c ds)
    then have "c = CHR ''.''" "digit_run ds"
      using fe(1) by (auto simp: fraction_text_def)
    then show ?thesis
      using Cons fe digits1_run [of ds e] tail_ok(2) by (auto simp: c_at_def)
  qed
qed

text \<open>C34: the scanner of number strings accepts exactly the grammar of numbers: a sign, at
  least one digit, an optional fraction with at least one digit and an optional exponent with
  at least one digit.\<close>

theorem str_is_numeric_grammar: "str_is_numeric z \<longleftrightarrow> number_text z"
proof -
  have "str_is_numeric z \<longleftrightarrow>
      (\<exists>z1. digits1 (skip_sign z) = Some z1 \<and>
        (\<exists>f e. fraction_text f \<and> exponent_text e \<and> z1 = f @ e))"
    unfolding str_is_numeric_def case_option_False_iff
      exponent_step [unfolded case_option_False_iff] fraction_step [symmetric]
    by (rule refl)
  also have "\<dots> \<longleftrightarrow> number_text z"
  proof
    assume "\<exists>z1. digits1 (skip_sign z) = Some z1 \<and>
        (\<exists>f e. fraction_text f \<and> exponent_text e \<and> z1 = f @ e)"
    then obtain ds f e where p: "digit_run ds" "fraction_text f" "exponent_text e"
        "skip_sign z = ds @ f @ e" by (auto simp: digits1_Some)
    moreover obtain s where "sign_text s" "z = s @ skip_sign z"
      using skip_sign_split by blast
    ultimately show "number_text z" unfolding number_text_def by metis
  next
    assume "number_text z"
    then obtain s ds f e where p: "sign_text s" "digit_run ds" "fraction_text f"
        "exponent_text e" "z = s @ ds @ f @ e" by (auto simp: number_text_def)
    then have "digits1 (skip_sign z) = Some (f @ e)"
      using digits1_run [OF p(2) tail_ok(1) [OF p(3,4)]] skip_sign_text [OF p(1,2)] by simp
    with p show "\<exists>z1. digits1 (skip_sign z) = Some z1 \<and>
        (\<exists>f e. fraction_text f \<and> exponent_text e \<and> z1 = f @ e)" by blast
  qed
  finally show ?thesis .
qed

subsection \<open>Decimal conversion\<close>

text \<open>The number a run of digits denotes.\<close>

fun digits_val :: "cstring \<Rightarrow> nat" where
  "digits_val [] = 0"
| "digits_val (c # cs) = digit_val c * 10 ^ length cs + digits_val cs"

lemma digit_val_less: "is_digit c \<Longrightarrow> digit_val c < 10"
  by (auto simp: is_digit_def digit_val_def)

lemma digits_val_less: "list_all is_digit ds \<Longrightarrow> digits_val ds < 10 ^ length ds"
proof (induction ds)
  case (Cons c cs)
  then have "digit_val c + 1 \<le> 10" and IH: "digits_val cs < 10 ^ length cs"
    using digit_val_less [of c] by auto
  then have "(digit_val c + 1) * 10 ^ length cs \<le> 10 * 10 ^ length cs"
    by (intro mult_le_mono1)
  then have "digit_val c * 10 ^ length cs + 10 ^ length cs \<le> 10 * 10 ^ length cs"
    by (simp only: add_mult_distrib mult_1)
  with IH show ?case
    unfolding digits_val.simps list.size(4) power_Suc add_Suc_right add_0_right by linarith
qed simp

lemma digits_val_snoc: "digits_val (ds @ [c]) = digits_val ds * 10 + digit_val c"
  by (induction ds) (auto simp: algebra_simps)

lemma foldl_atoi: "foldl atoi_step 0 ds = of_nat (digits_val ds)"
proof (induction ds rule: rev_induct)
  case (snoc c ds)
  then show ?case by (simp add: digits_val_snoc atoi_step_def)
qed simp

lemma strcmp_digits:
  "length a = length b \<Longrightarrow> list_all is_digit a \<Longrightarrow> list_all is_digit b \<Longrightarrow>
    strcmp a b \<le> 0 \<longleftrightarrow> digits_val a \<le> digits_val b"
proof (induction a b rule: list_induct2)
  case (Cons x xs y ys)
  have bx: "digits_val xs < 10 ^ length xs" and byy: "digits_val ys < 10 ^ length xs"
    using Cons.prems Cons.hyps digits_val_less [of xs] digits_val_less [of ys] by auto
  have dv: "digit_val x = char_code x - 48" "digit_val y = char_code y - 48"
      "48 \<le> char_code x" "48 \<le> char_code y"
    using Cons.prems by (auto simp: digit_val_def is_digit_def)
  consider "char_code x < char_code y" | "char_code y < char_code x" | "x = y"
    using char_code_inj linorder_cases by blast
  then show ?case
  proof cases
    case 1
    then have "Suc (digit_val x) * 10 ^ length xs \<le> digit_val y * 10 ^ length xs"
      using dv by (intro mult_le_mono1) simp
    then show ?thesis using 1 bx Cons.hyps by simp
  next
    case 2
    then have "Suc (digit_val y) * 10 ^ length xs \<le> digit_val x * 10 ^ length xs"
      using dv by (intro mult_le_mono1) simp
    then show ?thesis using 2 byy Cons.hyps by simp
  next
    case 3
    then show ?thesis using Cons by simp
  qed
qed simp

lemma takeWhile_digits: "list_all is_digit ds \<Longrightarrow> takeWhile is_digit ds = ds"
  by (simp add: list_all_iff takeWhile_eq_all_conv)

lemma list_all_takeWhile: "list_all is_digit (takeWhile is_digit z)"
  by (auto simp: list_all_iff dest: set_takeWhileD)

lemma int32_max_text: "list_all is_digit int32_max_text" "length int32_max_text = 10"
    "digits_val int32_max_text = 2147483647"
  by (simp_all add: int32_max_text_def is_digit_def digit_val_def char_code_def)

text \<open>Ten digits compare like numbers, so the text test bounds the value.\<close>

lemma in32b_digits:
  assumes "list_all is_digit ds"
  shows "length ds < 10 \<or> (length ds = 10 \<and> memcmp (ds @ r) int32_max_text 10 \<le> 0) \<longleftrightarrow>
     length ds \<le> 10 \<and> digits_val ds \<le> 2147483647"
proof (cases "length ds < 10")
  case True
  have "digits_val ds < 10 ^ length ds"
    using assms by (rule digits_val_less)
  also have "\<dots> \<le> 10 ^ 9"
    using True by (intro power_increasing) auto
  finally show ?thesis using True by simp
next
  case False
  have "memcmp (ds @ r) int32_max_text 10 \<le> 0 \<longleftrightarrow> digits_val ds \<le> 2147483647"
      if "length ds = 10"
    using that assms int32_max_text strcmp_digits [of ds int32_max_text]
    by (simp add: memcmp_def)
  with False show ?thesis by auto
qed

lemma in32b_takeWhile:
  "length (takeWhile is_digit z) < 10 \<or>
     (length (takeWhile is_digit z) = 10 \<and> memcmp z int32_max_text 10 \<le> 0) \<longleftrightarrow>
   length (takeWhile is_digit z) \<le> 10 \<and> digits_val (takeWhile is_digit z) \<le> 2147483647"
  using in32b_digits [OF list_all_takeWhile, of z "dropWhile is_digit z"] by simp

lemma atoi_accepts:
  "fst (dbsql_atoi z) \<longleftrightarrow>
     digit_run (skip_sign z) \<and> length (skip_sign z) \<le> 10 \<and> digits_val (skip_sign z) \<le> 2147483647"
    (is "_ \<longleftrightarrow> ?R")
proof -
  define y where "y = skip_sign z"
  have "drop (length (takeWhile is_digit y)) y = dropWhile is_digit y"
    by (simp add: dropWhile_eq_drop)
  then have "fst (dbsql_atoi z) \<longleftrightarrow> dropWhile is_digit y = [] \<and> takeWhile is_digit y \<noteq> [] \<and>
      length (takeWhile is_digit y) \<le> 10 \<and> digits_val (takeWhile is_digit y) \<le> 2147483647"
    unfolding dbsql_atoi_def Let_def fst_conv y_def [symmetric] in32b_takeWhile by simp
  also have "\<dots> \<longleftrightarrow> ?R"
  proof (cases "list_all is_digit y")
    case True
    then show ?thesis
      unfolding y_def [symmetric] digit_run_def
      by (auto simp: takeWhile_digits list_all_iff)
  next
    case False
    then show ?thesis
      unfolding y_def [symmetric] digit_run_def by (auto simp: list_all_iff)
  qed
  finally show ?thesis .
qed

text \<open>C33: \<^verbatim>\<open>__dbsql_atoi\<close> accepts exactly an optional sign followed by one to ten digits whose
  value is at most 2147483647, and then stores the signed value the text denotes; no accepted
  text overflows the 32 bit accumulator.\<close>

theorem dbsql_atoi_correct:
  "(fst (dbsql_atoi z) \<longleftrightarrow>
      digit_run (skip_sign z) \<and> length (skip_sign z) \<le> 10 \<and> digits_val (skip_sign z) \<le> 2147483647)
   \<and> (fst (dbsql_atoi z) \<longrightarrow>
      sint (snd (dbsql_atoi z)) =
        (if c_at z 0 = CHR ''-'' then - int (digits_val (skip_sign z))
         else int (digits_val (skip_sign z))))"
proof (intro conjI impI)
  assume ok: "fst (dbsql_atoi z)"
  define n where "n = digits_val (skip_sign z)"
  have run: "digit_run (skip_sign z)" and n: "n \<le> 2147483647"
    using ok by (auto simp: atoi_accepts n_def)
  have all: "takeWhile is_digit (skip_sign z) = skip_sign z"
    using run by (simp add: digit_run_def takeWhile_digits)
  have w: "sint (of_nat n :: i32) = int n" and m: "sint (- of_nat n :: i32) = - int n"
    using n by (auto intro: sint_of_nat_i32 sint_uminus_of_nat_i32)
  show "sint (snd (dbsql_atoi z)) = (if c_at z 0 = CHR ''-'' then - int (digits_val (skip_sign z))
         else int (digits_val (skip_sign z)))"
    using w m unfolding dbsql_atoi_def Let_def all foldl_atoi n_def by simp
qed (rule atoi_accepts)

text \<open>Applied to a concrete number.\<close>

theorem dbsql_atoi_correct_witness:
  "fst (dbsql_atoi ''-2147483647'') \<and> sint (snd (dbsql_atoi ''-2147483647'')) = - 2147483647"
proof -
  have ok: "fst (dbsql_atoi ''-2147483647'')"
    using dbsql_atoi_correct [of "''-2147483647''"]
    by (simp add: skip_sign_def digit_run_def is_digit_def digit_val_def char_code_def)
  with dbsql_atoi_correct [of "''-2147483647''"] show ?thesis
    by (simp add: skip_sign_def digit_val_def char_code_def c_at_def)
qed

lemma digits_val_show_nat: "digits_val (show_nat n) = n"
proof (induction n rule: show_nat.induct)
  case (1 n)
  have dig: "digit_val (char_of (48 + m)) = m" if "m < 10" for m :: nat
    using that by (simp add: digit_val_def char_code_def of_char_of)
  show ?case
    by (subst show_nat.simps) (auto simp: dig digits_val_snoc 1)
qed

lemma length_show_nat: "n < 10 ^ Suc k \<Longrightarrow> length (show_nat n) \<le> Suc k"
proof (induction n arbitrary: k rule: show_nat.induct)
  case (1 n)
  show ?case
  proof (cases "n < 10")
    case True
    then show ?thesis by (subst show_nat.simps) simp
  next
    case False
    then obtain j where k: "k = Suc j"
      using "1.prems" by (cases k) auto
    then have "n div 10 < 10 ^ Suc j"
      using "1.prems" by (simp add: div_less_iff_less_mult)
    then have "length (show_nat (n div 10)) \<le> Suc j"
      using "1.IH" False by blast
    then show ?thesis
      using False k by (subst show_nat.simps) simp
  qed
qed

lemma skip_sign_show_int: "skip_sign (show_int i) = show_nat (nat \<bar>i\<bar>)"
proof (cases "i < 0")
  case True
  then show ?thesis by (simp add: show_int_def skip_sign_def)
next
  case False
  then show ?thesis
    using skip_sign_run [of "show_nat (nat i)" "[]"] show_nat_digits [of "nat i"]
    by (simp add: show_int_def digit_run_def)
qed

lemma show_int_sign: "c_at (show_int i) 0 = CHR ''-'' \<longleftrightarrow> i < 0"
proof (cases "i < 0")
  case False
  obtain d r where "show_nat (nat i) = d # r" by (cases "show_nat (nat i)") auto
  moreover from this have "is_digit d" using show_nat_digits [of "nat i"] by simp
  ultimately show ?thesis using False by (auto simp: show_int_def c_at_def)
qed (simp add: show_int_def c_at_def)

text \<open>C35: printing a 32 bit integer with \<^verbatim>\<open>%d\<close> and reading it back with
  \<^verbatim>\<open>__dbsql_atoi\<close> gives the same integer, for every integer but the most negative one,
  which the reader refuses.\<close>

theorem atoi_show_int:
  "dbsql_atoi (show_int (sint (i :: i32))) = (sint i \<noteq> - (2 ^ 31), i)"
proof -
  define z where "z = show_int (sint i)"
  have range: "- (2 ^ 31) \<le> sint i" "sint i < 2 ^ 31"
    using sint_greater_eq [of i] sint_less [of i] by simp_all
  have sk: "skip_sign z = show_nat (nat \<bar>sint i\<bar>)" and dv: "digits_val (skip_sign z) = nat \<bar>sint i\<bar>"
    by (simp_all add: z_def skip_sign_show_int digits_val_show_nat)
  have run: "digit_run (skip_sign z)"
    by (simp add: sk digit_run_def show_nat_digits)
  have "nat \<bar>sint i\<bar> < 10 ^ Suc 9"
    using range by simp
  then have len: "length (skip_sign z) \<le> 10"
    unfolding sk using length_show_nat [of _ 9] by simp
  have ok: "fst (dbsql_atoi z) \<longleftrightarrow> sint i \<noteq> - (2 ^ 31)"
    unfolding atoi_accepts dv using run len range by auto
  have tw: "takeWhile is_digit (skip_sign z) = skip_sign z"
    using run by (simp add: digit_run_def takeWhile_digits)
  have "(if sint i < 0 then - (of_nat (nat \<bar>sint i\<bar>)) else of_nat (nat \<bar>sint i\<bar>)) = i"
    by (auto simp: of_nat_nat abs_if simp flip: of_int_minus)
  then have "snd (dbsql_atoi z) = i"
    unfolding dbsql_atoi_def Let_def foldl_atoi tw dv snd_conv
    by (simp add: z_def show_int_sign)
  with ok show ?thesis
    unfolding z_def [symmetric] by (simp add: prod_eq_iff)
qed

text \<open>removing the quotes of a quoted SQL string gives back the string that was quoted,
  whatever quote characters it contains, for both the single and the double quote.\<close>

theorem str_unquote_sql_quote:
  "str_unquote (sql_quote (CHR 0x27) s) = s \<and> str_unquote (sql_quote (CHR 0x22) s) = s"
  by (simp add: str_unquote_def sql_quote_def unquote_loop_doubled)

text \<open>a string that opens with a quote and never closes it is not restored: the routine
  moves the bytes one place down without writing a terminator, so the last byte is doubled.\<close>

theorem str_unquote_unterminated:
  assumes "CHR 0x27 \<notin> set r" and "r \<noteq> []"
  shows "str_unquote (CHR 0x27 # r) = r @ [last r]"
proof -
  have "str_unquote (CHR 0x27 # r) = r @ drop (length r) (CHR 0x27 # r)"
    using assms(1) by (simp add: str_unquote_def unquote_loop_open)
  also have "drop (length r) (CHR 0x27 # r) = [last r]"
    using assms(2) by (cases r rule: rev_cases) auto
  finally show ?thesis .
qed

theorem str_unquote_unterminated_witness: "str_unquote (CHR 0x27 # ''abc'') = ''abcc''"
  using str_unquote_unterminated [of "''abc''"] by simp

end
