(* ===== verification/Program.thy ===== *)
theory Program
  imports CStr
begin

text \<open>
  The program of a virtual machine and the routines of \<^verbatim>\<open>src/vdbe_method.c\<close> that build it:
  instructions, symbolic labels and their resolution, instruction lists with relative
  addresses, and the changes to operands the code generators make afterwards.

  \<^verbatim>\<open>aOp\<close> is the allocated array, so its length is \<^verbatim>\<open>nOpAlloc\<close>; \<^verbatim>\<open>aOp == 0\<close> is the empty array.
  A routine that allocates takes the allocator's answer as an argument.  A result \<open>None\<close> is a
  failed assertion, an access outside an array or a use of freed memory.
\<close>

section \<open>Opcodes\<close>

text \<open>
  The header \<^verbatim>\<open>opcodes.h\<close> is generated from \<^verbatim>\<open>src/vdbe.c\<close> by numbering the lines that start with
  \<^verbatim>\<open>case OP_\<close> in their order, from 1.
\<close>

abbreviation (input) OP_Goto :: int where "OP_Goto \<equiv> 1"
abbreviation (input) OP_Gosub :: int where "OP_Gosub \<equiv> 2"
abbreviation (input) OP_Return :: int where "OP_Return \<equiv> 3"
abbreviation (input) OP_Halt :: int where "OP_Halt \<equiv> 4"
abbreviation (input) OP_Integer :: int where "OP_Integer \<equiv> 5"
abbreviation (input) OP_String :: int where "OP_String \<equiv> 6"
abbreviation (input) OP_Variable :: int where "OP_Variable \<equiv> 7"
abbreviation (input) OP_Pop :: int where "OP_Pop \<equiv> 8"
abbreviation (input) OP_Dup :: int where "OP_Dup \<equiv> 9"
abbreviation (input) OP_Pull :: int where "OP_Pull \<equiv> 10"
abbreviation (input) OP_Push :: int where "OP_Push \<equiv> 11"
abbreviation (input) OP_ColumnName :: int where "OP_ColumnName \<equiv> 12"
abbreviation (input) OP_Callback :: int where "OP_Callback \<equiv> 13"
abbreviation (input) OP_NullCallback :: int where "OP_NullCallback \<equiv> 14"
abbreviation (input) OP_Concat :: int where "OP_Concat \<equiv> 15"
abbreviation (input) OP_Add :: int where "OP_Add \<equiv> 16"
abbreviation (input) OP_Subtract :: int where "OP_Subtract \<equiv> 17"
abbreviation (input) OP_Multiply :: int where "OP_Multiply \<equiv> 18"
abbreviation (input) OP_Divide :: int where "OP_Divide \<equiv> 19"
abbreviation (input) OP_Remainder :: int where "OP_Remainder \<equiv> 20"
abbreviation (input) OP_Function :: int where "OP_Function \<equiv> 21"
abbreviation (input) OP_BitAnd :: int where "OP_BitAnd \<equiv> 22"
abbreviation (input) OP_BitOr :: int where "OP_BitOr \<equiv> 23"
abbreviation (input) OP_ShiftLeft :: int where "OP_ShiftLeft \<equiv> 24"
abbreviation (input) OP_ShiftRight :: int where "OP_ShiftRight \<equiv> 25"
abbreviation (input) OP_AddImm :: int where "OP_AddImm \<equiv> 26"
abbreviation (input) OP_ForceInt :: int where "OP_ForceInt \<equiv> 27"
abbreviation (input) OP_MustBeInt :: int where "OP_MustBeInt \<equiv> 28"
abbreviation (input) OP_Eq :: int where "OP_Eq \<equiv> 29"
abbreviation (input) OP_Ne :: int where "OP_Ne \<equiv> 30"
abbreviation (input) OP_Lt :: int where "OP_Lt \<equiv> 31"
abbreviation (input) OP_Le :: int where "OP_Le \<equiv> 32"
abbreviation (input) OP_Gt :: int where "OP_Gt \<equiv> 33"
abbreviation (input) OP_Ge :: int where "OP_Ge \<equiv> 34"
abbreviation (input) OP_StrEq :: int where "OP_StrEq \<equiv> 35"
abbreviation (input) OP_StrNe :: int where "OP_StrNe \<equiv> 36"
abbreviation (input) OP_StrLt :: int where "OP_StrLt \<equiv> 37"
abbreviation (input) OP_StrLe :: int where "OP_StrLe \<equiv> 38"
abbreviation (input) OP_StrGt :: int where "OP_StrGt \<equiv> 39"
abbreviation (input) OP_StrGe :: int where "OP_StrGe \<equiv> 40"
abbreviation (input) OP_And :: int where "OP_And \<equiv> 41"
abbreviation (input) OP_Or :: int where "OP_Or \<equiv> 42"
abbreviation (input) OP_Negative :: int where "OP_Negative \<equiv> 43"
abbreviation (input) OP_AbsValue :: int where "OP_AbsValue \<equiv> 44"
abbreviation (input) OP_Not :: int where "OP_Not \<equiv> 45"
abbreviation (input) OP_BitNot :: int where "OP_BitNot \<equiv> 46"
abbreviation (input) OP_Noop :: int where "OP_Noop \<equiv> 47"
abbreviation (input) OP_If :: int where "OP_If \<equiv> 48"
abbreviation (input) OP_IfNot :: int where "OP_IfNot \<equiv> 49"
abbreviation (input) OP_IsNull :: int where "OP_IsNull \<equiv> 50"
abbreviation (input) OP_NotNull :: int where "OP_NotNull \<equiv> 51"
abbreviation (input) OP_MakeRecord :: int where "OP_MakeRecord \<equiv> 52"
abbreviation (input) OP_MakeIdxKey :: int where "OP_MakeIdxKey \<equiv> 53"
abbreviation (input) OP_MakeKey :: int where "OP_MakeKey \<equiv> 54"
abbreviation (input) OP_IncrKey :: int where "OP_IncrKey \<equiv> 55"
abbreviation (input) OP_Checkpoint :: int where "OP_Checkpoint \<equiv> 56"
abbreviation (input) OP_Transaction :: int where "OP_Transaction \<equiv> 57"
abbreviation (input) OP_Commit :: int where "OP_Commit \<equiv> 58"
abbreviation (input) OP_Rollback :: int where "OP_Rollback \<equiv> 59"
abbreviation (input) OP_SetFormatVersion :: int where "OP_SetFormatVersion \<equiv> 60"
abbreviation (input) OP_SetSchemaSignature :: int where "OP_SetSchemaSignature \<equiv> 61"
abbreviation (input) OP_VerifySchemaSignature :: int where "OP_VerifySchemaSignature \<equiv> 62"
abbreviation (input) OP_OpenRead :: int where "OP_OpenRead \<equiv> 63"
abbreviation (input) OP_OpenWrite :: int where "OP_OpenWrite \<equiv> 64"
abbreviation (input) OP_OpenTemp :: int where "OP_OpenTemp \<equiv> 65"
abbreviation (input) OP_OpenPseudo :: int where "OP_OpenPseudo \<equiv> 66"
abbreviation (input) OP_Close :: int where "OP_Close \<equiv> 67"
abbreviation (input) OP_MoveLt :: int where "OP_MoveLt \<equiv> 68"
abbreviation (input) OP_MoveTo :: int where "OP_MoveTo \<equiv> 69"
abbreviation (input) OP_Distinct :: int where "OP_Distinct \<equiv> 70"
abbreviation (input) OP_NotFound :: int where "OP_NotFound \<equiv> 71"
abbreviation (input) OP_Found :: int where "OP_Found \<equiv> 72"
abbreviation (input) OP_IsUnique :: int where "OP_IsUnique \<equiv> 73"
abbreviation (input) OP_NotExists :: int where "OP_NotExists \<equiv> 74"
abbreviation (input) OP_NewRecno :: int where "OP_NewRecno \<equiv> 75"
abbreviation (input) OP_PutIntKey :: int where "OP_PutIntKey \<equiv> 76"
abbreviation (input) OP_PutStrKey :: int where "OP_PutStrKey \<equiv> 77"
abbreviation (input) OP_Delete :: int where "OP_Delete \<equiv> 78"
abbreviation (input) OP_KeyAsData :: int where "OP_KeyAsData \<equiv> 79"
abbreviation (input) OP_RowKey :: int where "OP_RowKey \<equiv> 80"
abbreviation (input) OP_RowData :: int where "OP_RowData \<equiv> 81"
abbreviation (input) OP_Column :: int where "OP_Column \<equiv> 82"
abbreviation (input) OP_Recno :: int where "OP_Recno \<equiv> 83"
abbreviation (input) OP_FullKey :: int where "OP_FullKey \<equiv> 84"
abbreviation (input) OP_NullRow :: int where "OP_NullRow \<equiv> 85"
abbreviation (input) OP_Last :: int where "OP_Last \<equiv> 86"
abbreviation (input) OP_Rewind :: int where "OP_Rewind \<equiv> 87"
abbreviation (input) OP_Prev :: int where "OP_Prev \<equiv> 88"
abbreviation (input) OP_Next :: int where "OP_Next \<equiv> 89"
abbreviation (input) OP_IdxPut :: int where "OP_IdxPut \<equiv> 90"
abbreviation (input) OP_IdxDelete :: int where "OP_IdxDelete \<equiv> 91"
abbreviation (input) OP_IdxRecno :: int where "OP_IdxRecno \<equiv> 92"
abbreviation (input) OP_IdxLT :: int where "OP_IdxLT \<equiv> 93"
abbreviation (input) OP_IdxGT :: int where "OP_IdxGT \<equiv> 94"
abbreviation (input) OP_IdxGE :: int where "OP_IdxGE \<equiv> 95"
abbreviation (input) OP_IdxIsNull :: int where "OP_IdxIsNull \<equiv> 96"
abbreviation (input) OP_Destroy :: int where "OP_Destroy \<equiv> 97"
abbreviation (input) OP_Clear :: int where "OP_Clear \<equiv> 98"
abbreviation (input) OP_CreateIndex :: int where "OP_CreateIndex \<equiv> 99"
abbreviation (input) OP_CreateTable :: int where "OP_CreateTable \<equiv> 100"
abbreviation (input) OP_ListWrite :: int where "OP_ListWrite \<equiv> 101"
abbreviation (input) OP_ListRewind :: int where "OP_ListRewind \<equiv> 102"
abbreviation (input) OP_ListRead :: int where "OP_ListRead \<equiv> 103"
abbreviation (input) OP_ListReset :: int where "OP_ListReset \<equiv> 104"
abbreviation (input) OP_ListPush :: int where "OP_ListPush \<equiv> 105"
abbreviation (input) OP_ListPop :: int where "OP_ListPop \<equiv> 106"
abbreviation (input) OP_SortPut :: int where "OP_SortPut \<equiv> 107"
abbreviation (input) OP_SortMakeRec :: int where "OP_SortMakeRec \<equiv> 108"
abbreviation (input) OP_SortMakeKey :: int where "OP_SortMakeKey \<equiv> 109"
abbreviation (input) OP_Sort :: int where "OP_Sort \<equiv> 110"
abbreviation (input) OP_SortNext :: int where "OP_SortNext \<equiv> 111"
abbreviation (input) OP_SortCallback :: int where "OP_SortCallback \<equiv> 112"
abbreviation (input) OP_SortReset :: int where "OP_SortReset \<equiv> 113"
abbreviation (input) OP_FileOpen :: int where "OP_FileOpen \<equiv> 114"
abbreviation (input) OP_FileRead :: int where "OP_FileRead \<equiv> 115"
abbreviation (input) OP_FileColumn :: int where "OP_FileColumn \<equiv> 116"
abbreviation (input) OP_MemStore :: int where "OP_MemStore \<equiv> 117"
abbreviation (input) OP_MemLoad :: int where "OP_MemLoad \<equiv> 118"
abbreviation (input) OP_MemIncr :: int where "OP_MemIncr \<equiv> 119"
abbreviation (input) OP_AggReset :: int where "OP_AggReset \<equiv> 120"
abbreviation (input) OP_AggInit :: int where "OP_AggInit \<equiv> 121"
abbreviation (input) OP_AggFunc :: int where "OP_AggFunc \<equiv> 122"
abbreviation (input) OP_AggFocus :: int where "OP_AggFocus \<equiv> 123"
abbreviation (input) OP_AggSet :: int where "OP_AggSet \<equiv> 124"
abbreviation (input) OP_AggGet :: int where "OP_AggGet \<equiv> 125"
abbreviation (input) OP_AggNext :: int where "OP_AggNext \<equiv> 126"
abbreviation (input) OP_SetInsert :: int where "OP_SetInsert \<equiv> 127"
abbreviation (input) OP_SetFound :: int where "OP_SetFound \<equiv> 128"
abbreviation (input) OP_SetNotFound :: int where "OP_SetNotFound \<equiv> 129"
abbreviation (input) OP_SetFirst :: int where "OP_SetFirst \<equiv> 130"
abbreviation (input) OP_SetNext :: int where "OP_SetNext \<equiv> 131"
abbreviation (input) OP_Vacuum :: int where "OP_Vacuum \<equiv> 132"

section \<open>Instructions\<close>

text \<open>The third operand is a string or a pointer to some other object.\<close>

datatype 'f p3val = P3_text cstring | P3_object 'f

definition P3_NOTUSED :: int where "P3_NOTUSED = 0"
definition P3_DYNAMIC :: int where "P3_DYNAMIC = -1"
definition P3_STATIC :: int where "P3_STATIC = -2"
definition P3_POINTER :: int where "P3_POINTER = -3"

lemmas p3_defs = P3_NOTUSED_def P3_DYNAMIC_def P3_STATIC_def P3_POINTER_def

record 'f vdbe_op =
  opcode :: int
  p1 :: int
  p2 :: int
  p3 :: "'f p3val option"
  p3type :: int

definition zero_op :: "'f vdbe_op" where
  "zero_op = \<lparr>opcode = 0, p1 = 0, p2 = 0, p3 = None, p3type = 0\<rparr>"

definition ADDR :: "int \<Rightarrow> int" where
  "ADDR x = -1 - x"

datatype vdbe_magic = MAGIC_INIT | MAGIC_RUN | MAGIC_HALT | MAGIC_DEAD

record 'f vdbe_prog =
  nOp :: nat
  aOp :: "'f vdbe_op list"
  nLabel :: nat
  nLabelAlloc :: nat
  aLabel :: "int list"
  magic :: vdbe_magic

text \<open>What to do on a conflict, an operand of Halt.\<close>

definition OE_Rollback :: int where "OE_Rollback = 1"
definition OE_Abort :: int where "OE_Abort = 2"
definition OE_Fail :: int where "OE_Fail = 3"
definition OE_Ignore :: int where "OE_Ignore = 4"
definition OE_Default :: int where "OE_Default = 99"

section \<open>Building\<close>

definition vdbe_create :: "'f vdbe_prog" where
  "vdbe_create = \<lparr>nOp = 0, aOp = [], nLabel = 0, nLabelAlloc = 0, aLabel = [], magic = MAGIC_INIT\<rparr>"

text \<open>A jump to a label that is already resolved gets its address at once.\<close>

definition label_target :: "('f, 'a) vdbe_prog_scheme \<Rightarrow> int \<Rightarrow> int" where
  "label_target vm x =
     (if x < 0 \<and> -1 - x < int (nLabel vm) \<and> aLabel vm ! nat (-1 - x) \<ge> 0
      then aLabel vm ! nat (-1 - x) else x)"

definition vdbe_add_op ::
  "bool \<Rightarrow> ('f, 'a) vdbe_prog_scheme \<Rightarrow> int \<Rightarrow> int \<Rightarrow> int \<Rightarrow> (int \<times> ('f, 'a) vdbe_prog_scheme) option" where
  "vdbe_add_op ok vm op x1 x2 =
     (let i = nOp vm; vm = vm\<lparr>nOp := i + 1\<rparr>
      in if magic vm \<noteq> MAGIC_INIT then None
         else
           (let old = length (aOp vm);
                grown = (if i \<ge> old then (if ok then Some (aOp vm @ replicate (old + 100) zero_op) else None)
                         else Some (aOp vm))
            in case grown of
                 None \<Rightarrow> Some (0, vm)
               | Some ops \<Rightarrow>
                   (if i \<ge> length ops then None
                    else Some (int i, vm\<lparr>aOp := ops[i := \<lparr>opcode = op, p1 = x1, p2 = label_target vm x2,
                                                          p3 = None, p3type = P3_NOTUSED\<rparr>]\<rparr>))))"

definition vdbe_make_label ::
  "bool \<Rightarrow> ('f, 'a) vdbe_prog_scheme \<Rightarrow> (int \<times> ('f, 'a) vdbe_prog_scheme) option" where
  "vdbe_make_label ok vm =
     (let i = nLabel vm
      in if magic vm \<noteq> MAGIC_INIT then None
         else if i \<ge> nLabelAlloc vm then
           (if ok then Some (-1 - int i, vm\<lparr>nLabel := i + 1, nLabelAlloc := nLabelAlloc vm * 2 + 10,
                                           aLabel := aLabel vm @ [-1]\<rparr>)
            else if nLabelAlloc vm = 0 then Some (0, vm\<lparr>nLabel := 0, nLabelAlloc := 0\<rparr>)
            else None)
         else Some (-1 - int i, vm\<lparr>nLabel := i + 1, aLabel := aLabel vm @ [-1]\<rparr>))"

definition vdbe_resolve_label ::
  "('f, 'a) vdbe_prog_scheme \<Rightarrow> int \<Rightarrow> ('f, 'a) vdbe_prog_scheme option" where
  "vdbe_resolve_label vm x =
     (if magic vm \<noteq> MAGIC_INIT then None
      else if x < 0 \<and> - x \<le> int (nLabel vm) \<and> aOp vm \<noteq> [] then
        (if aLabel vm ! nat (-1 - x) = int (nOp vm) then Some vm
         else if \<not> aLabel vm ! nat (-1 - x) < 0 then None
         else if nOp vm > length (aOp vm) then None
         else Some (vm\<lparr>aLabel := (aLabel vm)[nat (-1 - x) := int (nOp vm)],
                       aOp := map (\<lambda>j. if j < nOp vm \<and> p2 (aOp vm ! j) = x
                                        then (aOp vm ! j)\<lparr>p2 := int (nOp vm)\<rparr> else aOp vm ! j)
                                 [0..<length (aOp vm)]\<rparr>))
      else Some vm)"

definition vdbe_current_addr :: "('f, 'a) vdbe_prog_scheme \<Rightarrow> int option" where
  "vdbe_current_addr vm = (if magic vm \<noteq> MAGIC_INIT then None else Some (int (nOp vm)))"

text \<open>An instruction of a list, placed at \<open>addr\<close>: a negative second operand is relative.\<close>

definition relocate :: "nat \<Rightarrow> 'f vdbe_op \<Rightarrow> 'f vdbe_op" where
  "relocate addr op =
     op\<lparr>p2 := (if p2 op < 0 then int addr + ADDR (p2 op) else p2 op),
        p3type := (if p3 op \<noteq> None then P3_STATIC else P3_NOTUSED)\<rparr>"

definition vdbe_add_op_list ::
  "bool \<Rightarrow> ('f, 'a) vdbe_prog_scheme \<Rightarrow> 'f vdbe_op list \<Rightarrow> (int \<times> ('f, 'a) vdbe_prog_scheme) option" where
  "vdbe_add_op_list ok vm op =
     (if magic vm \<noteq> MAGIC_INIT then None
      else
        (let num_op = length op; old = length (aOp vm);
             grown = (if nOp vm + num_op \<ge> old
                      then (if ok then Some (aOp vm @ replicate (old + num_op + 10) zero_op) else None)
                      else Some (aOp vm))
         in case grown of
              None \<Rightarrow> Some (0, vm)
            | Some ops \<Rightarrow>
                (let addr = nOp vm
                 in if num_op > 0 then
                      (if addr + num_op > length ops then None
                       else Some (int addr,
                              vm\<lparr>aOp := take addr ops @ map (relocate addr) op @ drop (addr + num_op) ops,
                                 nOp := addr + num_op\<rparr>))
                    else Some (int addr, vm\<lparr>aOp := ops\<rparr>))))"

section \<open>Changing operands\<close>

definition vdbe_change_p1 ::
  "('f, 'a) vdbe_prog_scheme \<Rightarrow> int \<Rightarrow> int \<Rightarrow> ('f, 'a) vdbe_prog_scheme option" where
  "vdbe_change_p1 vm addr val =
     (if magic vm \<noteq> MAGIC_INIT then None
      else if addr \<ge> 0 \<and> int (nOp vm) > addr \<and> aOp vm \<noteq> [] then
        (if nat addr \<ge> length (aOp vm) then None
         else Some (vm\<lparr>aOp := (aOp vm)[nat addr := (aOp vm ! nat addr)\<lparr>p1 := val\<rparr>]\<rparr>))
      else Some vm)"

definition vdbe_change_p2 ::
  "('f, 'a) vdbe_prog_scheme \<Rightarrow> int \<Rightarrow> int \<Rightarrow> ('f, 'a) vdbe_prog_scheme option" where
  "vdbe_change_p2 vm addr val =
     (if \<not> val \<ge> 0 then None
      else if magic vm \<noteq> MAGIC_INIT then None
      else if addr \<ge> 0 \<and> int (nOp vm) > addr \<and> aOp vm \<noteq> [] then
        (if nat addr \<ge> length (aOp vm) then None
         else Some (vm\<lparr>aOp := (aOp vm)[nat addr := (aOp vm ! nat addr)\<lparr>p2 := val\<rparr>]\<rparr>))
      else Some vm)"

text \<open>The instruction the operand routines act on: the last one when the address is out of range.\<close>

definition op_index :: "('f, 'a) vdbe_prog_scheme \<Rightarrow> int \<Rightarrow> nat option" where
  "op_index vm addr =
     (if addr < 0 \<or> addr \<ge> int (nOp vm) then (if nOp vm = 0 then None else Some (nOp vm - 1))
      else Some (nat addr))"

text \<open>A copied string replaces the operand through \<^verbatim>\<open>__str_nappend\<close>, which frees what the operand
  points to: only a dynamic operand may be freed.\<close>

definition vdbe_change_p3 ::
  "('f, 'a) vdbe_prog_scheme \<Rightarrow> int \<Rightarrow> 'f p3val option \<Rightarrow> int \<Rightarrow> ('f, 'a) vdbe_prog_scheme option" where
  "vdbe_change_p3 vm addr x3 n =
     (if magic vm \<noteq> MAGIC_INIT then None
      else if aOp vm = [] then Some vm
      else case op_index vm addr of
             None \<Rightarrow> Some vm
           | Some i \<Rightarrow>
               (if i \<ge> length (aOp vm) then None
                else
                  let set_op = (\<lambda>v t. Some (vm\<lparr>aOp := (aOp vm)[i := (aOp vm ! i)\<lparr>p3 := v, p3type := t\<rparr>]\<rparr>))
                  in case x3 of
                       None \<Rightarrow> set_op None P3_NOTUSED
                     | Some v \<Rightarrow>
                         (if n < 0 then set_op (Some v) n
                          else if p3 (aOp vm ! i) \<noteq> None \<and> p3type (aOp vm ! i) \<noteq> P3_DYNAMIC then None
                          else (case v of P3_text s \<Rightarrow> set_op (Some (P3_text (cstr (str_nappend [(s, n)])))) P3_DYNAMIC
                                | P3_object f \<Rightarrow> None))))"

definition vdbe_dequote_p3 ::
  "('f, 'a) vdbe_prog_scheme \<Rightarrow> int \<Rightarrow> ('f, 'a) vdbe_prog_scheme option" where
  "vdbe_dequote_p3 vm addr =
     (if magic vm \<noteq> MAGIC_INIT then None
      else if aOp vm = [] then Some vm
      else case op_index vm addr of
             None \<Rightarrow> Some vm
           | Some i \<Rightarrow>
               (if i \<ge> length (aOp vm) then None
                else case p3 (aOp vm ! i) of
                       None \<Rightarrow> Some vm
                     | Some (P3_object f) \<Rightarrow> (if p3type (aOp vm ! i) = P3_POINTER then Some vm else None)
                     | Some (P3_text s) \<Rightarrow>
                         (if s = [] \<or> p3type (aOp vm ! i) = P3_POINTER then Some vm
                          else Some (vm\<lparr>aOp := (aOp vm)[i := (aOp vm ! i)\<lparr>p3 := Some (P3_text (str_unquote s)),
                                                                           p3type := P3_DYNAMIC\<rparr>]\<rparr>))))"

text \<open>The middle loop of \<^verbatim>\<open>__vdbe_compress_space\<close>, after the leading white space.\<close>

function squeeze :: "cstring \<Rightarrow> cstring" where
  "squeeze [] = []"
| "squeeze (c # r) = (if is_space c then CHR '' '' # squeeze (dropWhile is_space r) else c # squeeze r)"
  by pat_completeness auto
termination
  by (relation "measure length") (auto simp: le_imp_less_Suc length_dropWhile_le)

definition compress_text :: "cstring \<Rightarrow> cstring" where
  "compress_text z = rev (dropWhile is_space (rev (squeeze (dropWhile is_space z))))"

definition vdbe_compress_space ::
  "('f, 'a) vdbe_prog_scheme \<Rightarrow> int \<Rightarrow> ('f, 'a) vdbe_prog_scheme option" where
  "vdbe_compress_space vm addr =
     (if magic vm \<noteq> MAGIC_INIT then None
      else if aOp vm = [] \<or> addr < 0 \<or> addr \<ge> int (nOp vm) then Some vm
      else if nat addr \<ge> length (aOp vm) then None
      else let op = aOp vm ! nat addr
           in if p3type op = P3_POINTER then Some vm
              else case p3 op of
                     None \<Rightarrow> (if p3type op = P3_DYNAMIC then Some vm else None)
                   | Some (P3_object f) \<Rightarrow> None
                   | Some (P3_text s) \<Rightarrow>
                       Some (vm\<lparr>aOp := (aOp vm)[nat addr := op\<lparr>p3 := Some (P3_text (compress_text s)),
                                                                p3type := P3_DYNAMIC\<rparr>]\<rparr>))"

section \<open>Inspecting a program\<close>

fun find_from :: "'f vdbe_op list \<Rightarrow> nat \<Rightarrow> int \<Rightarrow> int \<Rightarrow> nat" where
  "find_from [] i op x2 = 0"
| "find_from (o1 # ops) i op x2 =
     (if opcode o1 = op \<and> p2 o1 = x2 then i + 1 else find_from ops (i + 1) op x2)"

definition vdbe_find_op :: "('f, 'a) vdbe_prog_scheme \<Rightarrow> int \<Rightarrow> int \<Rightarrow> int option" where
  "vdbe_find_op vm op x2 =
     (if magic vm \<noteq> MAGIC_INIT \<or> nOp vm > length (aOp vm) then None
      else Some (int (find_from (take (nOp vm) (aOp vm)) 0 op x2)))"

definition vdbe_get_op :: "('f, 'a) vdbe_prog_scheme \<Rightarrow> int \<Rightarrow> 'f vdbe_op option" where
  "vdbe_get_op vm addr =
     (if magic vm \<noteq> MAGIC_INIT \<or> \<not> (addr \<ge> 0 \<and> addr < int (nOp vm)) \<or> nat addr \<ge> length (aOp vm)
      then None else Some (aOp vm ! nat addr))"

section \<open>The two-pass assembler\<close>

text \<open>
  What the builder promises: the code generator may use a label before and after it is
  resolved, and every jump to it ends up at the address where it was resolved.  The abstract
  builder keeps the operands symbolic and a table of label addresses, and substitutes at the
  end; the code patches addresses as it goes.
\<close>

record 'f asm =
  sym :: "'f vdbe_op list"
  env :: "int list"
  alloc :: bool

definition lookup_label :: "int list \<Rightarrow> int \<Rightarrow> int" where
  "lookup_label e x =
     (if x < 0 \<and> -1 - x < int (length e) \<and> e ! nat (-1 - x) \<ge> 0 then e ! nat (-1 - x) else x)"

definition subst_op :: "int list \<Rightarrow> 'f vdbe_op \<Rightarrow> 'f vdbe_op" where
  "subst_op e op = op\<lparr>p2 := lookup_label e (p2 op)\<rparr>"

definition assemble :: "'f asm \<Rightarrow> 'f vdbe_op list" where
  "assemble a = map (subst_op (env a)) (sym a)"

datatype 'f build_cmd =
    Add_op int int int
  | Make_label
  | Resolve_label int
  | Add_op_list "'f vdbe_op list"
  | Change_p1 int int
  | Change_p2 int int

fun asm_step :: "'f build_cmd \<Rightarrow> 'f asm \<Rightarrow> (int \<times> 'f asm) option" where
  "asm_step (Add_op op x1 x2) a =
     Some (int (length (sym a)),
           a\<lparr>sym := sym a @ [\<lparr>opcode = op, p1 = x1, p2 = x2, p3 = None, p3type = P3_NOTUSED\<rparr>],
             alloc := True\<rparr>)"
| "asm_step Make_label a = Some (-1 - int (length (env a)), a\<lparr>env := env a @ [-1]\<rparr>)"
| "asm_step (Resolve_label x) a =
     (if x < 0 \<and> - x \<le> int (length (env a)) \<and> alloc a then
        (if env a ! nat (-1 - x) = int (length (sym a)) then Some (0, a)
         else if env a ! nat (-1 - x) < 0
         then Some (0, a\<lparr>env := (env a)[nat (-1 - x) := int (length (sym a))]\<rparr>)
         else None)
      else Some (0, a))"
| "asm_step (Add_op_list ops) a =
     Some (int (length (sym a)), a\<lparr>sym := sym a @ map (relocate (length (sym a))) ops, alloc := True\<rparr>)"
| "asm_step (Change_p1 addr v) a =
     (if 0 \<le> addr \<and> addr < int (length (sym a))
      then Some (0, a\<lparr>sym := (sym a)[nat addr := (sym a ! nat addr)\<lparr>p1 := v\<rparr>]\<rparr>) else Some (0, a))"
| "asm_step (Change_p2 addr v) a =
     (if v < 0 then None
      else if 0 \<le> addr \<and> addr < int (length (sym a))
      then Some (0, a\<lparr>sym := (sym a)[nat addr := (sym a ! nat addr)\<lparr>p2 := v\<rparr>]\<rparr>) else Some (0, a))"

definition ret0 :: "'v option \<Rightarrow> (int \<times> 'v) option" where
  "ret0 r = (case r of None \<Rightarrow> None | Some vm \<Rightarrow> Some (0, vm))"

text \<open>The routines of the code, with every allocation answered.\<close>

fun build_step :: "'f build_cmd \<Rightarrow> 'f vdbe_prog \<Rightarrow> (int \<times> 'f vdbe_prog) option" where
  "build_step (Add_op op x1 x2) vm = vdbe_add_op True vm op x1 x2"
| "build_step Make_label vm = vdbe_make_label True vm"
| "build_step (Resolve_label x) vm = ret0 (vdbe_resolve_label vm x)"
| "build_step (Add_op_list ops) vm = vdbe_add_op_list True vm ops"
| "build_step (Change_p1 addr v) vm = ret0 (vdbe_change_p1 vm addr v)"
| "build_step (Change_p2 addr v) vm = ret0 (vdbe_change_p2 vm addr v)"

fun run_cmds :: "('c \<Rightarrow> 's \<Rightarrow> (int \<times> 's) option) \<Rightarrow> 'c list \<Rightarrow> 's \<Rightarrow> (int list \<times> 's) option" where
  "run_cmds f [] s = Some ([], s)"
| "run_cmds f (c # cs) s =
     (case f c s of None \<Rightarrow> None
      | Some (r, s') \<Rightarrow> (case run_cmds f cs s' of None \<Rightarrow> None | Some (rs, s'') \<Rightarrow> Some (r # rs, s'')))"

definition asm_init :: "'f asm" where
  "asm_init = \<lparr>sym = [], env = [], alloc = False\<rparr>"

section \<open>Refinement of the assembler\<close>

text \<open>The program of a state, and the relation between the two builders.\<close>

definition program :: "('f, 'a) vdbe_prog_scheme \<Rightarrow> 'f vdbe_op list" where
  "program vm = take (nOp vm) (aOp vm)"

definition prog_wf :: "('f, 'a) vdbe_prog_scheme \<Rightarrow> bool" where
  "prog_wf vm \<longleftrightarrow> nOp vm \<le> length (aOp vm) \<and> nLabel vm = length (aLabel vm)
     \<and> nLabel vm \<le> nLabelAlloc vm \<and> magic vm = MAGIC_INIT"

definition asm_wf :: "'f asm \<Rightarrow> bool" where
  "asm_wf a \<longleftrightarrow> (\<forall>x \<in> set (env a). x = -1 \<or> 0 \<le> x \<and> x \<le> int (length (sym a)))"

definition asm_rel :: "'f asm \<Rightarrow> 'f vdbe_prog \<Rightarrow> bool" where
  "asm_rel a vm \<longleftrightarrow> prog_wf vm \<and> asm_wf a \<and> program vm = assemble a \<and> aLabel vm = env a
     \<and> alloc a = (aOp vm \<noteq> [])"

lemma lookup_nonneg [simp]: "0 \<le> x \<Longrightarrow> lookup_label e x = x"
  by (simp add: lookup_label_def)

lemma lookup_new_label [simp]: "lookup_label (e @ [-1]) x = lookup_label e x"
  by (auto simp: lookup_label_def nth_append)

lemma lookup_resolve:
  assumes "x < 0" "- x \<le> int (length e)" "e ! nat (-1 - x) < 0" "0 \<le> v"
  shows "lookup_label (e[nat (-1 - x) := v]) y = (if lookup_label e y = x then v else lookup_label e y)"
proof (cases "y = x")
  case True
  then show ?thesis using assms by (auto simp: lookup_label_def)
next
  case False
  have "nat (-1 - y) \<noteq> nat (-1 - x)" if "y < 0"
    using that False assms(1) by auto
  then show ?thesis using False assms by (auto simp: lookup_label_def)
qed

lemma assemble_length [simp]: "length (assemble a) = length (sym a)"
  by (simp add: assemble_def)

lemma asm_rel_nOp: "asm_rel a vm \<Longrightarrow> nOp vm = length (sym a)"
  by (auto simp: asm_rel_def program_def prog_wf_def dest!: arg_cong [of _ _ length])

lemma program_take: "length (program vm) = min (length (aOp vm)) (nOp vm)"
  by (simp add: program_def)

lemma relocate_nonneg: "0 \<le> p2 (relocate addr op)"
  by (simp add: relocate_def ADDR_def)

lemma subst_relocate [simp]: "subst_op e (relocate addr op) = relocate addr op"
  using relocate_nonneg [of addr op] by (simp add: subst_op_def)

text \<open>Each routine refines its abstract step.\<close>

lemma refine_add_op:
  assumes R: "asm_rel a vm" and A: "asm_step (Add_op op x1 x2) a = Some (r, a')"
  shows "\<exists>vm'. vdbe_add_op True vm op x1 x2 = Some (r, vm') \<and> asm_rel a' vm'"
proof -
  let ?new = "\<lparr>opcode = op, p1 = x1, p2 = x2, p3 = None, p3type = P3_NOTUSED\<rparr>"
  define ops where
    "ops = (if nOp vm \<ge> length (aOp vm) then aOp vm @ replicate (length (aOp vm) + 100) zero_op else aOp vm)"
  have n: "nOp vm < length ops" and t: "take (nOp vm) ops = assemble a"
    using R by (auto simp: ops_def asm_rel_def prog_wf_def program_def)
  have l: "label_target (vm\<lparr>nOp := nOp vm + 1\<rparr>) x2 = lookup_label (env a) x2"
    using R by (auto simp: asm_rel_def prog_wf_def label_target_def lookup_label_def)
  have m: "magic vm = MAGIC_INIT" using R by (simp add: asm_rel_def prog_wf_def)
  have step: "vdbe_add_op True vm op x1 x2 =
      Some (int (nOp vm), vm\<lparr>nOp := nOp vm + 1, aOp := ops[nOp vm := subst_op (env a) ?new]\<rparr>)"
    using n m l by (auto simp: vdbe_add_op_def Let_def ops_def subst_op_def)
  have "asm_rel a' (vm\<lparr>nOp := nOp vm + 1, aOp := ops[nOp vm := subst_op (env a) ?new]\<rparr>)"
    using R A n t
    by (auto simp: asm_rel_def prog_wf_def asm_wf_def program_def assemble_def take_Suc_conv_app_nth
        dest: asm_rel_nOp)
  with step show ?thesis using A asm_rel_nOp [OF R] by simp
qed

lemma refine_make_label:
  assumes "asm_rel a vm" and "asm_step Make_label a = Some (r, a')"
  shows "\<exists>vm'. vdbe_make_label True vm = Some (r, vm') \<and> asm_rel a' vm'"
  using assms
  by (auto simp: vdbe_make_label_def asm_rel_def prog_wf_def asm_wf_def program_def assemble_def
      subst_op_def Let_def)

lemma take_map_patch:
  "n \<le> length xs \<Longrightarrow>
    take n (map (\<lambda>j. if j < n \<and> P (xs ! j) then f (xs ! j) else xs ! j) [0..<length xs]) =
    map (\<lambda>y. if P y then f y else y) (take n xs)"
  by (rule nth_equalityI) auto

lemma refine_resolve_label:
  assumes R: "asm_rel a vm" and A: "asm_step (Resolve_label x) a = Some (r, a')"
  shows "\<exists>vm'. vdbe_resolve_label vm x = Some vm' \<and> r = 0 \<and> asm_rel a' vm'"
proof (cases "x < 0 \<and> - x \<le> int (length (env a)) \<and> alloc a \<and> env a ! nat (-1 - x) \<noteq> int (length (sym a))")
  case False
  then show ?thesis
    using R A asm_rel_nOp [OF R]
    by (auto simp: vdbe_resolve_label_def asm_rel_def prog_wf_def split: if_splits)
next
  case True
  then have neg: "env a ! nat (-1 - x) < 0" using A by (auto split: if_splits)
  let ?v = "int (length (sym a))"
  have a': "a' = a\<lparr>env := (env a)[nat (-1 - x) := ?v]\<rparr>" "r = 0"
    using A True neg by (auto split: if_splits)
  let ?ops = "map (\<lambda>j. if j < nOp vm \<and> p2 (aOp vm ! j) = x
                       then (aOp vm ! j)\<lparr>p2 := int (nOp vm)\<rparr> else aOp vm ! j) [0..<length (aOp vm)]"
  have p: "nOp vm = length (sym a)" "nOp vm \<le> length (aOp vm)" "take (nOp vm) (aOp vm) = assemble a"
    "aLabel vm = env a" "nLabel vm = length (env a)" "magic vm = MAGIC_INIT" "aOp vm \<noteq> []"
    using R True asm_rel_nOp [OF R] by (auto simp: asm_rel_def prog_wf_def program_def)
  have step: "vdbe_resolve_label vm x =
      Some (vm\<lparr>aLabel := (env a)[nat (-1 - x) := ?v], aOp := ?ops\<rparr>)"
    using True neg p by (auto simp: vdbe_resolve_label_def)
  have patch: "(if p2 (subst_op (env a) y) = x then (subst_op (env a) y)\<lparr>p2 := ?v\<rparr> else subst_op (env a) y)
      = subst_op ((env a)[nat (-1 - x) := ?v]) y" for y
    using lookup_resolve [of x "env a" ?v "p2 y"] True neg by (simp add: subst_op_def)
  have "take (nOp vm) ?ops =
      map (\<lambda>y. if p2 y = x then y\<lparr>p2 := int (nOp vm)\<rparr> else y) (take (nOp vm) (aOp vm))"
    by (rule take_map_patch [OF p(2)])
  also have "\<dots> = assemble a'"
    unfolding p(3) using p(1) a' by (simp add: assemble_def patch [symmetric])
  finally have "take (nOp vm) ?ops = assemble a'" .
  moreover have "asm_wf a'"
    using R a' set_update_subset_insert [of "env a" "nat (-1 - x)" ?v]
    by (auto simp: asm_rel_def asm_wf_def)
  moreover have "prog_wf (vm\<lparr>aLabel := (env a)[nat (-1 - x) := ?v], aOp := ?ops\<rparr>)"
    using R by (auto simp: asm_rel_def prog_wf_def)
  ultimately show ?thesis
    using step a' R p(7) by (simp add: asm_rel_def program_def)
qed

lemma refine_add_op_list:
  assumes R: "asm_rel a vm" and A: "asm_step (Add_op_list ops) a = Some (r, a')"
  shows "\<exists>vm'. vdbe_add_op_list True vm ops = Some (r, vm') \<and> asm_rel a' vm'"
proof -
  define new where
    "new = (if nOp vm + length ops \<ge> length (aOp vm)
            then aOp vm @ replicate (length (aOp vm) + length ops + 10) zero_op else aOp vm)"
  let ?vm = "vm\<lparr>aOp := take (nOp vm) new @ map (relocate (nOp vm)) ops @ drop (nOp vm + length ops) new,
                nOp := nOp vm + length ops\<rparr>"
  have p: "nOp vm = length (sym a)" "nOp vm \<le> length (aOp vm)" "take (nOp vm) (aOp vm) = assemble a"
    "magic vm = MAGIC_INIT"
    using R asm_rel_nOp [OF R] by (auto simp: asm_rel_def prog_wf_def program_def)
  have n: "nOp vm + length ops < length new" and t: "take (nOp vm) new = assemble a"
    using p by (auto simp: new_def)
  have step: "vdbe_add_op_list True vm ops = Some (int (nOp vm), ?vm)"
    using p n by (cases "ops = []") (simp_all add: vdbe_add_op_list_def Let_def new_def)
  have "program ?vm = assemble a'"
    using A p n t by (auto simp: program_def assemble_def)
  moreover have "prog_wf ?vm" using R n by (auto simp: asm_rel_def prog_wf_def)
  moreover have "asm_wf a'" using R A by (auto simp: asm_rel_def asm_wf_def)
  ultimately show ?thesis
    using step R A p(1) n by (auto simp: asm_rel_def)
qed

lemma update_program:
  assumes R: "asm_rel a vm" and i: "i < length (sym a)"
    and f: "\<And>y. subst_op (env a) (f y) = g (subst_op (env a) y)"
  shows "asm_rel (a\<lparr>sym := (sym a)[i := f (sym a ! i)]\<rparr>) (vm\<lparr>aOp := (aOp vm)[i := g (aOp vm ! i)]\<rparr>)"
proof -
  have p: "nOp vm = length (sym a)" "nOp vm \<le> length (aOp vm)" "take (nOp vm) (aOp vm) = assemble a"
    using R asm_rel_nOp [OF R] by (auto simp: asm_rel_def prog_wf_def program_def)
  have "aOp vm ! i = assemble a ! i" using p i by (metis nth_take)
  then have "take (nOp vm) ((aOp vm)[i := g (aOp vm ! i)]) =
      map (subst_op (env a)) ((sym a)[i := f (sym a ! i)])"
    using p i f by (simp add: take_update_swap assemble_def map_update)
  then show ?thesis
    using R by (auto simp: asm_rel_def prog_wf_def asm_wf_def program_def assemble_def)
qed

lemma refine_change:
  assumes R: "asm_rel a vm"
  shows "asm_step (Change_p1 addr v) a = Some (r, a') \<Longrightarrow>
           \<exists>vm'. vdbe_change_p1 vm addr v = Some vm' \<and> r = 0 \<and> asm_rel a' vm'"
    and "asm_step (Change_p2 addr v) a = Some (r, a') \<Longrightarrow>
           \<exists>vm'. vdbe_change_p2 vm addr v = Some vm' \<and> r = 0 \<and> asm_rel a' vm'"
proof -
  have p: "nOp vm = length (sym a)" "nOp vm \<le> length (aOp vm)" "magic vm = MAGIC_INIT"
    using R asm_rel_nOp [OF R] by (auto simp: asm_rel_def prog_wf_def)
  have ne: "aOp vm \<noteq> []" if "addr < int (length (sym a))" "0 \<le> addr" using p that by auto
  show "\<exists>vm'. vdbe_change_p1 vm addr v = Some vm' \<and> r = 0 \<and> asm_rel a' vm'"
    if "asm_step (Change_p1 addr v) a = Some (r, a')"
    using that p R ne update_program [OF R, of "nat addr" "\<lambda>y. y\<lparr>p1 := v\<rparr>" "\<lambda>y. y\<lparr>p1 := v\<rparr>"]
    by (auto simp: vdbe_change_p1_def subst_op_def split: if_splits)
  show "\<exists>vm'. vdbe_change_p2 vm addr v = Some vm' \<and> r = 0 \<and> asm_rel a' vm'"
    if "asm_step (Change_p2 addr v) a = Some (r, a')"
    using that p R ne update_program [OF R, of "nat addr" "\<lambda>y. y\<lparr>p2 := v\<rparr>" "\<lambda>y. y\<lparr>p2 := v\<rparr>"]
    by (auto simp: vdbe_change_p2_def subst_op_def split: if_splits)
qed

lemma refine_step:
  assumes "asm_rel a vm" and "asm_step c a = Some (r, a')"
  shows "\<exists>vm'. build_step c vm = Some (r, vm') \<and> asm_rel a' vm'"
  using assms refine_add_op refine_make_label refine_resolve_label refine_add_op_list refine_change
  by (cases c) (fastforce simp: ret0_def)+

lemma refine_run:
  "asm_rel a vm \<Longrightarrow> run_cmds asm_step cs a = Some (rs, a') \<Longrightarrow>
    \<exists>vm'. run_cmds build_step cs vm = Some (rs, vm') \<and> asm_rel a' vm'"
proof (induction cs arbitrary: a vm rs)
  case (Cons c cs)
  from Cons.prems(2) obtain r a1 rs1
    where s: "asm_step c a = Some (r, a1)" "run_cmds asm_step cs a1 = Some (rs1, a')" "rs = r # rs1"
    by (auto split: option.splits)
  from refine_step [OF Cons.prems(1) s(1)] obtain vm1
    where "build_step c vm = Some (r, vm1)" "asm_rel a1 vm1" by blast
  with Cons.IH [OF _ s(2)] s(3) show ?case by fastforce
qed simp

lemma asm_rel_init: "asm_rel asm_init vdbe_create"
  by (simp add: asm_rel_def asm_init_def vdbe_create_def prog_wf_def asm_wf_def program_def assemble_def)

lemma asm_wf_step: "asm_wf a \<Longrightarrow> asm_step c a = Some (r, a') \<Longrightarrow> asm_wf a'"
proof (cases c)
  case (Resolve_label x)
  have "v \<in> insert (int (length (sym a))) (set (env a))"
    if "v \<in> set ((env a)[nat (-1 - x) := int (length (sym a))])" for v
    using that set_update_subset_insert by fastforce
  moreover assume "asm_wf a" and "asm_step c a = Some (r, a')"
  ultimately show ?thesis
    using Resolve_label by (fastforce simp: asm_wf_def split: if_splits)
qed (auto simp: asm_wf_def split: if_splits)

lemma asm_wf_run: "asm_wf a \<Longrightarrow> run_cmds asm_step cs a = Some (rs, a') \<Longrightarrow> asm_wf a'"
proof (induction cs arbitrary: a rs)
  case (Cons c cs)
  then show ?case using asm_wf_step [of a c] by (fastforce split: option.splits)
qed simp

text \<open>C1: the one-pass builder with back-patching implements the two-pass assembler: for every
  sequence of calls of the building routines that uses labels the way they are meant to, the
  routines succeed, give the same return values, and leave the program in which every use of
  a label, before or after its resolution, is the address where it was resolved.\<close>

theorem builder_assembles:
  assumes "run_cmds asm_step cs asm_init = Some (rs, a)"
  shows "\<exists>vm. run_cmds build_step cs vdbe_create = Some (rs, vm)
     \<and> program vm = assemble a \<and> nOp vm = length (program vm) \<and> magic vm = MAGIC_INIT"
proof -
  from refine_run [OF asm_rel_init assms] obtain vm
    where "run_cmds build_step cs vdbe_create = Some (rs, vm)" "asm_rel a vm" by blast
  then show ?thesis by (auto simp: asm_rel_def prog_wf_def program_def)
qed

theorem builder_assembles_witness:
  "\<exists>vm. run_cmds build_step
      [Make_label, Add_op OP_Goto 0 (-1), Add_op OP_Noop 0 0, Resolve_label (-1), Add_op OP_If 0 (-1)]
      vdbe_create = Some ([-1, 0, 1, 0, 2], vm)
    \<and> map p2 (program (vm :: unit vdbe_prog)) = [2, 0, 2]"
  using builder_assembles [of
      "[Make_label, Add_op OP_Goto 0 (-1), Add_op OP_Noop 0 0, Resolve_label (-1), Add_op OP_If 0 (-1)]"]
  by (fastforce simp: asm_init_def assemble_def subst_op_def lookup_label_def)

text \<open>When the code generator has resolved every label it made, no instruction is left with a
  label: every jump to a label goes to an address between the start and the end of the
  program.\<close>

theorem resolved_jumps_in_range:
  assumes "run_cmds asm_step cs asm_init = Some (rs, a)"
    and "\<forall>l \<in> set (env a). l \<noteq> -1"
    and "i < length (sym a)" and "p2 (sym a ! i) < 0" and "- p2 (sym a ! i) \<le> int (length (env a))"
  shows "\<exists>vm. run_cmds build_step cs vdbe_create = Some (rs, vm)
     \<and> 0 \<le> p2 (program vm ! i) \<and> p2 (program vm ! i) \<le> int (nOp vm)"
proof -
  from refine_run [OF asm_rel_init assms(1)] obtain vm
    where run: "run_cmds build_step cs vdbe_create = Some (rs, vm)" and R: "asm_rel a vm" by blast
  have "asm_wf asm_init" by (simp add: asm_wf_def asm_init_def)
  from asm_wf_run [OF this assms(1)] assms(2)
  have wf: "\<forall>l \<in> set (env a). 0 \<le> l \<and> l \<le> int (length (sym a))" by (auto simp: asm_wf_def)
  let ?k = "nat (-1 - p2 (sym a ! i))"
  have "env a ! ?k \<in> set (env a)" using assms(4,5) by (intro nth_mem) auto
  with wf assms(4,5) have "lookup_label (env a) (p2 (sym a ! i)) = env a ! ?k"
    "0 \<le> env a ! ?k" "env a ! ?k \<le> int (length (sym a))"
    by (auto simp: lookup_label_def)
  then show ?thesis
    using run R assms(3) asm_rel_nOp [OF R]
    by (auto simp: asm_rel_def assemble_def subst_op_def)
qed

theorem resolved_jumps_in_range_witness:
  "\<exists>vm. run_cmds build_step [Make_label, Add_op OP_Goto 0 (-1), Resolve_label (-1)]
      vdbe_create = Some ([-1, 0, 0], vm)
    \<and> 0 \<le> p2 (program (vm :: unit vdbe_prog) ! 0) \<and> p2 (program vm ! 0) \<le> int (nOp vm)"
  by (rule resolved_jumps_in_range
      [where a = "\<lparr>sym = [\<lparr>opcode = OP_Goto, p1 = 0, p2 = -1, p3 = None, p3type = 0\<rparr>], env = [1], alloc = True\<rparr>"])
    (simp_all add: asm_init_def p3_defs)

section \<open>White space\<close>

fun words_of :: "cstring \<Rightarrow> cstring \<Rightarrow> cstring list" where
  "words_of w [] = (if w = [] then [] else [w])"
| "words_of w (c # r) =
     (if is_space c then (if w = [] then words_of [] r else w # words_of [] r)
      else words_of (w @ [c]) r)"

fun join_words :: "cstring list \<Rightarrow> cstring" where
  "join_words [] = []"
| "join_words [w] = w"
| "join_words (w # v # ws) = w @ CHR '' '' # join_words (v # ws)"

text \<open>The words of a text, separated by white space.\<close>

definition words_text :: "cstring \<Rightarrow> cstring list" where
  "words_text = words_of []"

lemma words_skip: "words_of [] (dropWhile is_space z) = words_of [] z"
  by (induction z) auto

lemma is_space_blank [simp]: "is_space (CHR '' '')"
  by (simp add: is_space_def char_code_def)

lemma words_nonempty: "w \<noteq> [] \<Longrightarrow> words_of w z \<noteq> []"
  by (induction w z rule: words_of.induct) auto

lemma words_prefix:
  "w \<noteq> [] \<Longrightarrow> words_of (u @ w) z = (u @ hd (words_of w z)) # tl (words_of w z)"
proof (induction z arbitrary: w)
  case (Cons c z)
  then show ?case using Cons.IH [of "w @ [c]"] by auto
qed auto

lemma join_prefix: "join_words ((u @ v) # vs) = u @ join_words (v # vs)"
  by (cases vs) auto

text \<open>The trailing blank the loop may leave.\<close>

definition ends_blank :: "cstring \<Rightarrow> cstring" where
  "ends_blank z = (if z \<noteq> [] \<and> is_space (last z) then [CHR '' ''] else [])"

lemma squeeze_words:
  "w \<noteq> [] \<Longrightarrow> w @ squeeze z = join_words (words_of w z) @ ends_blank z"
proof (induction z arbitrary: w rule: squeeze.induct)
  case (2 c r)
  show ?case
  proof (cases "is_space c")
    case sp: True
    show ?thesis
    proof (cases "dropWhile is_space r")
      case Nil
      then have "words_of [] r = []" using words_skip [of r] by (metis words_of.simps(1))
      moreover have "is_space (last (c # r))"
        using Nil sp by (cases r rule: rev_cases) auto
      ultimately show ?thesis using sp Nil "2.prems" by (simp add: ends_blank_def del: dropWhile_eq_Nil_conv)
    next
      case (Cons d r')
      have nd: "\<not> is_space d" using Cons by (metis hd_dropWhile list.sel(1) list.distinct(1))
      have wr: "words_of [] r = words_of [d] r'"
        using words_skip [of r] Cons nd by simp
      have ne: "words_of [d] r' \<noteq> []" by (rule words_nonempty) simp
      have "last (c # r) = last (d # r')"
        using Cons by (metis last_appendR last_ConsR list.distinct(1) takeWhile_dropWhile_id append_is_Nil_conv)
      then have eb: "ends_blank (c # r) = ends_blank (d # r')" by (simp add: ends_blank_def)
      have "w @ squeeze (d # r') = join_words (words_of w (d # r')) @ ends_blank (d # r')"
        using "2.IH"(1) [OF sp "2.prems"] Cons by simp
      also have "words_of w (d # r') = (w @ hd (words_of [d] r')) # tl (words_of [d] r')"
        using nd words_prefix [of "[d]" w r'] by simp
      finally have "squeeze (d # r') = join_words (words_of [d] r') @ ends_blank (d # r')"
        using ne by (simp add: join_prefix)
      then show ?thesis
        using sp Cons wr ne eb "2.prems" by (cases "words_of [d] r'") auto
    qed
  next
    case False
    then show ?thesis
      using "2.IH"(2) [OF False, of "w @ [c]"] by (auto simp: ends_blank_def)
  qed
qed (simp add: ends_blank_def)

text \<open>A word: not empty and free of white space.\<close>

definition is_word :: "cstring \<Rightarrow> bool" where
  "is_word w \<longleftrightarrow> w \<noteq> [] \<and> list_all (\<lambda>x. \<not> is_space x) w"

lemma words_are_words: "w = [] \<or> is_word w \<Longrightarrow> list_all is_word (words_of w z)"
  by (induction w z rule: words_of.induct) (auto simp: is_word_def)

lemma is_word_last: "is_word w \<Longrightarrow> w \<noteq> [] \<and> \<not> is_space (last w)"
  by (cases w rule: rev_cases) (auto simp: is_word_def)

lemma join_last_char:
  "ws \<noteq> [] \<Longrightarrow> list_all is_word ws \<Longrightarrow> join_words ws \<noteq> [] \<and> \<not> is_space (last (join_words ws))"
  by (induction ws rule: join_words.induct) (auto dest: is_word_last)

text \<open>Compressing the white space of an operand leaves the words of the text joined by single
  blanks, with no leading or trailing white space.\<close>

theorem compress_text_words: "compress_text z = join_words (words_text z)"
proof (cases "dropWhile is_space z")
  case Nil
  then have "words_of [] z = []" using words_skip [of z] by (metis words_of.simps(1))
  with Nil show ?thesis by (simp add: compress_text_def words_text_def del: dropWhile_eq_Nil_conv)
next
  case (Cons d r)
  have nd: "\<not> is_space d" using Cons by (metis hd_dropWhile list.sel(1) list.distinct(1))
  have w: "words_of [] z = words_of [d] r" using words_skip [of z] Cons nd by simp
  have sq: "squeeze (d # r) = join_words (words_of [d] r) @ ends_blank r"
    using squeeze_words [of "[d]" r] nd by simp
  have "join_words (words_of [d] r) \<noteq> [] \<and> \<not> is_space (last (join_words (words_of [d] r)))"
    using words_are_words [of "[d]" r] nd words_nonempty [of "[d]" r]
    by (intro join_last_char) (auto simp: is_word_def)
  then have "dropWhile is_space (rev (join_words (words_of [d] r) @ ends_blank r)) =
      rev (join_words (words_of [d] r))"
    by (cases "join_words (words_of [d] r)" rule: rev_cases) (auto simp: ends_blank_def)
  then show ?thesis using Cons sq w by (simp add: compress_text_def words_text_def)
qed

end
