(* ===== verification/StrOrder.thy ===== *)
theory StrOrder
  imports CStr
begin

text \<open>
  The two orders of \<^verbatim>\<open>src/common/str.c\<close>: \<^verbatim>\<open>__str_numeric_cmp\<close>, which compares values in
  expressions, and \<^verbatim>\<open>__str_cmp\<close>, which compares the keys of the sorter.  The locale
  \<open>cmp_order\<close> is what a client may assume of a comparison: it is antisymmetric in sign and
  transitive on the values compared.
\<close>

section \<open>The comparison routines\<close>

definition str_numeric_cmp :: "('r, 'l) fpu \<Rightarrow> cstring option \<Rightarrow> cstring option \<Rightarrow> int" where
  "str_numeric_cmp F left right =
     (case left of None \<Rightarrow> -1
      | Some a \<Rightarrow>
        (case right of None \<Rightarrow> 1
         | Some b \<Rightarrow>
            (if str_is_numeric a then
               (if \<not> str_is_numeric b then -1
                else (let rl = dbsql_atof F a; rr = dbsql_atof F b
                      in if flt F rl rr then -1 else if flt F rr rl then 1 else 0))
             else if str_is_numeric b then 1
             else strcmp a b)))"

text \<open>The sign of a difference, reversed for the descending orders.\<close>

definition apply_dir :: "char \<Rightarrow> int \<Rightarrow> int" where
  "apply_dir d r = (if d = CHR ''-'' \<or> d = CHR ''D'' then - r else r)"

text \<open>\<^verbatim>\<open>__str_cmp\<close> walks two keys element by element; each element is a type character, the
  bytes of the value and a NUL, and a NULL value is the element \<^verbatim>\<open>N\<close>.\<close>

function str_cmp :: "('r, 'l) fpu \<Rightarrow> string \<Rightarrow> string \<Rightarrow> int" where
  "str_cmp F a b =
     (if a = [] \<or> b = [] \<or> hd a = NUL \<or> hd b = NUL then 0
      else if hd a = CHR ''N'' \<or> hd b = CHR ''N'' then
        (if hd a = hd b then str_cmp F (drop 2 a) (drop 2 b)
         else if hd a = CHR ''N'' then apply_dir (hd b) (-1)
         else apply_dir (hd a) 1)
      else
        (let x = cstr (tl a); y = cstr (tl b);
             res = (if hd a = CHR ''A'' \<or> hd a = CHR ''D'' then strcmp x y
                    else str_numeric_cmp F (Some x) (Some y))
         in if res \<noteq> 0 then apply_dir (hd a) res
            else str_cmp F (drop (length x + 2) a) (drop (length y + 2) b)))"
  by pat_completeness auto
termination
  by (relation "measure (\<lambda>(F, a, b). length a)") auto

declare str_cmp.simps [simp del]

section \<open>What a client may assume of a comparison\<close>

locale cmp_order =
  fixes cmp :: "'k \<Rightarrow> 'k \<Rightarrow> int" and K :: "'k set"
  assumes cmp_swap: "a \<in> K \<Longrightarrow> b \<in> K \<Longrightarrow> cmp b a = - cmp a b"
    and cmp_trans: "a \<in> K \<Longrightarrow> b \<in> K \<Longrightarrow> c \<in> K \<Longrightarrow> cmp a b \<le> 0 \<Longrightarrow> cmp b c \<le> 0 \<Longrightarrow> cmp a c \<le> 0"
begin

lemma cmp_refl: "a \<in> K \<Longrightarrow> cmp a a = 0"
  using cmp_swap [of a a] by simp

lemma cmp_total: "a \<in> K \<Longrightarrow> b \<in> K \<Longrightarrow> cmp a b \<le> 0 \<or> cmp b a \<le> 0"
  using cmp_swap [of a b] by linarith

lemma cmp_zero_left:
  assumes "a \<in> K" "b \<in> K" "c \<in> K" "cmp a b = 0"
  shows "cmp a c \<le> 0 \<longleftrightarrow> cmp b c \<le> 0"
  using assms cmp_trans [of a b c] cmp_trans [of b a c] cmp_swap [of a b] by auto

lemma cmp_zero_right:
  assumes "a \<in> K" "b \<in> K" "c \<in> K" "cmp a b = 0"
  shows "cmp c a \<le> 0 \<longleftrightarrow> cmp c b \<le> 0"
  using assms cmp_trans [of c a b] cmp_trans [of c b a] cmp_swap [of a b] by auto

lemma cmp_zero_class:
  assumes "a \<in> K" "b \<in> K" "c \<in> K" "cmp a b = 0"
  shows "cmp a c = 0 \<longleftrightarrow> cmp b c = 0"
  using cmp_zero_left [OF assms] cmp_zero_right [OF assms] assms cmp_swap [of a c] cmp_swap [of b c]
  by auto

end

text \<open>Byte order is such a comparison on all strings.\<close>

interpretation bytes: cmp_order strcmp UNIV
  by unfold_locales (rule strcmp_swap, erule (1) strcmp_le_trans)

section \<open>Numeric order\<close>

text \<open>Numeric texts whose value is NaN compare like no number; the order is stated away from
  them.\<close>

definition num_ok :: "('r, 'l) fpu \<Rightarrow> cstring \<Rightarrow> bool" where
  "num_ok F a \<longleftrightarrow> str_is_numeric a \<longrightarrow> f_ordered F (dbsql_atof F a)"

sublocale ieee \<subseteq> numeric: cmp_order "\<lambda>a b. str_numeric_cmp F (Some a) (Some b)" "{a. num_ok F a}"
proof (unfold_locales, goal_cases)
  case (1 a b)
  then show ?case
    using flt_asym [of "dbsql_atof F a" "dbsql_atof F b"] flt_asym [of "dbsql_atof F b" "dbsql_atof F a"]
    by (auto simp: str_numeric_cmp_def num_ok_def Let_def strcmp_swap [of b a])
next
  case (2 a b c)
  then show ?case
    using strcmp_le_trans [of a b c]
      flt_weak [of "dbsql_atof F c" "dbsql_atof F b" "dbsql_atof F a"]
    by (auto simp: str_numeric_cmp_def num_ok_def Let_def split: if_splits dest: flt_asym)
qed

section \<open>Keys\<close>

text \<open>
  A key as SortMakeKey builds it: one element per sort term, each the type character of the
  term and the text of the value, or \<open>None\<close> for NULL.
\<close>

definition key_elem :: "char \<Rightarrow> cstring option \<Rightarrow> string" where
  "key_elem t x = (case x of None \<Rightarrow> [CHR ''N'', NUL] | Some s \<Rightarrow> t # s @ [NUL])"

definition key_bytes :: "char list \<Rightarrow> cstring option list \<Rightarrow> string" where
  "key_bytes ts xs = concat (map2 key_elem ts xs) @ [NUL]"

definition elem_cmp :: "('r, 'l) fpu \<Rightarrow> char \<Rightarrow> cstring option \<Rightarrow> cstring option \<Rightarrow> int" where
  "elem_cmp F t x y =
     (let r = (case (x, y) of
                 (None, None) \<Rightarrow> 0 | (None, Some _) \<Rightarrow> -1 | (Some _, None) \<Rightarrow> 1
               | (Some a, Some b) \<Rightarrow>
                   if t = CHR ''A'' \<or> t = CHR ''D'' then strcmp a b
                   else str_numeric_cmp F (Some a) (Some b))
      in if t = CHR ''-'' \<or> t = CHR ''D'' then - r else r)"

fun key_order :: "('r, 'l) fpu \<Rightarrow> char list \<Rightarrow> cstring option list \<Rightarrow> cstring option list \<Rightarrow> int" where
  "key_order F (t # ts) (x # xs) (y # ys) =
     (if elem_cmp F t x y \<noteq> 0 then elem_cmp F t x y else key_order F ts xs ys)"
| "key_order F _ _ _ = 0"

definition sort_types :: "char list \<Rightarrow> bool" where
  "sort_types ts \<longleftrightarrow> set ts \<subseteq> {CHR ''+'', CHR ''-'', CHR ''A'', CHR ''D''}"

definition value_ok :: "('r, 'l) fpu \<Rightarrow> cstring option \<Rightarrow> bool" where
  "value_ok F x \<longleftrightarrow> (case x of None \<Rightarrow> True | Some s \<Rightarrow> nul_free s \<and> num_ok F s)"

lemma apply_dir_simps [simp]:
  "apply_dir t 0 = 0" "apply_dir t r = 0 \<longleftrightarrow> r = 0" "apply_dir t (- r) = - apply_dir t r"
  by (auto simp: apply_dir_def)

lemma elem_cmp_dir: "elem_cmp F t x y = apply_dir t
     (case (x, y) of
        (None, None) \<Rightarrow> 0 | (None, Some _) \<Rightarrow> -1 | (Some _, None) \<Rightarrow> 1
      | (Some a, Some b) \<Rightarrow>
          if t = CHR ''A'' \<or> t = CHR ''D'' then strcmp a b
          else str_numeric_cmp F (Some a) (Some b))"
  by (simp add: elem_cmp_def apply_dir_def Let_def)

context ieee
begin

lemma elem_order: "cmp_order (elem_cmp F t) {x. value_ok F x}"
proof (unfold_locales, goal_cases)
  case (1 a b)
  then show ?case
    using numeric.cmp_swap [of "the a" "the b"] strcmp_swap [of "the b" "the a"]
    by (cases a; cases b) (auto simp: elem_cmp_dir value_ok_def)
next
  case (2 a b c)
  then show ?case
    using numeric.cmp_trans [of "the a" "the b" "the c"] strcmp_le_trans [of "the a" "the b" "the c"]
      numeric.cmp_trans [of "the c" "the b" "the a"] strcmp_le_trans [of "the c" "the b" "the a"]
      numeric.cmp_swap [of "the a" "the b"] numeric.cmp_swap [of "the b" "the c"]
      numeric.cmp_swap [of "the a" "the c"] strcmp_swap [of "the a" "the b"]
      strcmp_swap [of "the b" "the c"] strcmp_swap [of "the a" "the c"]
    by (cases a; cases b; cases c)
      (auto simp: elem_cmp_dir value_ok_def apply_dir_def split: if_splits)
qed

lemma key_order_swap:
  "length xs = length ts \<Longrightarrow> length ys = length ts \<Longrightarrow> list_all (value_ok F) xs \<Longrightarrow>
    list_all (value_ok F) ys \<Longrightarrow> key_order F ts ys xs = - key_order F ts xs ys"
proof (induction ts arbitrary: xs ys)
  case (Cons t ts)
  obtain x xs' y ys' where l: "xs = x # xs'" "ys = y # ys'"
    using Cons.prems(1-2) by (metis length_Suc_conv)
  then have v: "x \<in> {v. value_ok F v}" "y \<in> {v. value_ok F v}"
    using Cons.prems by auto
  have "elem_cmp F t y x = - elem_cmp F t x y"
    by (rule cmp_order.cmp_swap [OF elem_order v])
  moreover have "key_order F ts ys' xs' = - key_order F ts xs' ys'"
    using Cons.IH [of xs' ys'] Cons.prems l by simp
  ultimately show ?case using l by simp
qed simp

lemma key_order_trans:
  "length xs = length ts \<Longrightarrow> length ys = length ts \<Longrightarrow> length zs = length ts \<Longrightarrow>
    list_all (value_ok F) xs \<Longrightarrow> list_all (value_ok F) ys \<Longrightarrow> list_all (value_ok F) zs \<Longrightarrow>
    key_order F ts xs ys \<le> 0 \<Longrightarrow> key_order F ts ys zs \<le> 0 \<Longrightarrow> key_order F ts xs zs \<le> 0"
proof (induction ts arbitrary: xs ys zs)
  case (Cons t ts)
  obtain x xs' y ys' z zs' where l: "xs = x # xs'" "ys = y # ys'" "zs = z # zs'"
    using Cons.prems(1-3) by (metis length_Suc_conv)
  note E = elem_order [of t]
  have v: "x \<in> {v. value_ok F v}" "y \<in> {v. value_ok F v}" "z \<in> {v. value_ok F v}"
    using Cons.prems l by auto
  have xy: "elem_cmp F t x y \<le> 0" and yz: "elem_cmp F t y z \<le> 0"
    using Cons.prems l by (auto split: if_splits)
  have xz: "elem_cmp F t x z \<le> 0"
    by (rule cmp_order.cmp_trans [OF E v xy yz])
  show ?case
  proof (cases "elem_cmp F t x z = 0")
    case True
    have "elem_cmp F t z x \<le> 0"
      using True cmp_order.cmp_swap [OF E v(1,3)] by simp
    then have "elem_cmp F t y x \<le> 0" "elem_cmp F t z y \<le> 0"
      using cmp_order.cmp_trans [OF E v(2,3,1) yz] cmp_order.cmp_trans [OF E v(3,1,2) _ xy] by auto
    then have "elem_cmp F t x y = 0" "elem_cmp F t y z = 0"
      using xy yz cmp_order.cmp_swap [OF E v(1,2)] cmp_order.cmp_swap [OF E v(2,3)] by auto
    then show ?thesis
      using True Cons.IH [of xs' ys' zs'] Cons.prems l by auto
  next
    case False
    then show ?thesis using xz l by simp
  qed
qed simp

lemma key_cmp_order:
  "cmp_order (key_order F ts) {xs. length xs = length ts \<and> list_all (value_ok F) xs}"
  by unfold_locales (auto intro: key_order_swap key_order_trans)

end

lemma str_cmp_end: "str_cmp F (NUL # a) b = 0"
  by (subst str_cmp.simps) simp

lemma cmp_order_cong:
  assumes "cmp_order c K" and "\<And>a b. a \<in> K \<Longrightarrow> b \<in> K \<Longrightarrow> d a b = c a b"
  shows "cmp_order d K"
proof (unfold_locales, goal_cases)
  case (1 a b)
  then show ?case
    using assms(2) [of a b] assms(2) [of b a] cmp_order.cmp_swap [OF assms(1), of a b] by simp
next
  case (2 a b e)
  then show ?case
    using assms(2) [of a b] assms(2) [of b e] assms(2) [of a e]
      cmp_order.cmp_trans [OF assms(1), of a b e] by simp
qed

lemma key_bytes_Cons: "key_bytes (t # ts) (x # xs) = key_elem t x @ key_bytes ts xs"
  by (simp add: key_bytes_def)

lemma sort_type_chars:
  "sort_types (t # ts) \<Longrightarrow> t \<noteq> NUL \<and> t \<noteq> CHR ''N'' \<and> sort_types ts"
  by (auto simp: sort_types_def)

lemma str_cmp_step:
  assumes "t \<noteq> NUL" "t \<noteq> CHR ''N''" "value_ok F x" "value_ok F y"
  shows "str_cmp F (key_elem t x @ a) (key_elem t y @ b) =
    (if elem_cmp F t x y \<noteq> 0 then elem_cmp F t x y else str_cmp F a b)"
proof (cases x)
  case None
  then show ?thesis
    using assms by (cases y) (simp_all add: str_cmp.simps [of F "_ # _"] key_elem_def elem_cmp_dir)
next
  case (Some s)
  show ?thesis
  proof (cases y)
    case None
    then show ?thesis
      using Some assms by (simp add: str_cmp.simps [of F "_ # _"] key_elem_def elem_cmp_dir)
  next
    case (Some s')
    then show ?thesis
      using \<open>x = Some s\<close> assms
      by (subst str_cmp.simps) (auto simp: key_elem_def elem_cmp_dir value_ok_def Let_def)
  qed
qed

lemma str_cmp_key_bytes:
  "length xs = length ts \<Longrightarrow> length ys = length ts \<Longrightarrow> sort_types ts \<Longrightarrow>
    list_all (value_ok F) xs \<Longrightarrow> list_all (value_ok F) ys \<Longrightarrow>
    str_cmp F (key_bytes ts xs @ a) (key_bytes ts ys @ b) = key_order F ts xs ys"
proof (induction F ts xs ys rule: key_order.induct)
  case (1 F t ts x xs y ys)
  then show ?case
    using sort_type_chars [of t ts] str_cmp_step [of t F x y] by (simp add: key_bytes_Cons)
qed (auto simp: key_bytes_def str_cmp_end)

text \<open>C15: comparing two sort keys byte by byte is comparing the values they were built from,
  term by term in the direction of each term, with NULL first in an ascending term; and
  on values that are not NaN this is a total preorder, so the sorter may rely on it.\<close>

theorem str_cmp_orders_keys:
  assumes "ieee F" and "sort_types ts"
  shows "(\<forall>xs \<in> {v. length v = length ts \<and> list_all (value_ok F) v}.
          \<forall>ys \<in> {v. length v = length ts \<and> list_all (value_ok F) v}.
            str_cmp F (key_bytes ts xs) (key_bytes ts ys) = key_order F ts xs ys)
     \<and> cmp_order (\<lambda>xs ys. str_cmp F (key_bytes ts xs) (key_bytes ts ys))
          {v. length v = length ts \<and> list_all (value_ok F) v}"
proof -
  note K = ieee.key_cmp_order [OF assms(1), of ts]
  have eq: "str_cmp F (key_bytes ts xs) (key_bytes ts ys) = key_order F ts xs ys"
    if "xs \<in> {v. length v = length ts \<and> list_all (value_ok F) v}"
      "ys \<in> {v. length v = length ts \<and> list_all (value_ok F) v}" for xs ys
    using that assms(2) str_cmp_key_bytes [of xs ts ys F "[]" "[]"] by simp
  moreover have "cmp_order (\<lambda>xs ys. str_cmp F (key_bytes ts xs) (key_bytes ts ys))
          {v. length v = length ts \<and> list_all (value_ok F) v}"
    by (rule cmp_order_cong [OF K]) (rule eq)
  ultimately show ?thesis by blast
qed

theorem str_cmp_orders_keys_witness:
  "str_cmp rat_fpu (key_bytes ''+D'' [Some ''10'', Some ''b'']) (key_bytes ''+D'' [Some ''9'', None])
     = key_order rat_fpu ''+D'' [Some ''10'', Some ''b''] [Some ''9'', None]"
proof -
  have "sort_types ''+D''" by (simp add: sort_types_def)
  from str_cmp_orders_keys [OF rat_ieee.ieee_axioms this]
  have all: "\<forall>xs \<in> {v. length v = length ''+D'' \<and> list_all (value_ok rat_fpu) v}.
      \<forall>ys \<in> {v. length v = length ''+D'' \<and> list_all (value_ok rat_fpu) v}.
        str_cmp rat_fpu (key_bytes ''+D'' xs) (key_bytes ''+D'' ys) = key_order rat_fpu ''+D'' xs ys"
    by blast
  show ?thesis
    by (rule all [rule_format]) (simp_all add: value_ok_def num_ok_def)
qed

end
