(* ===== verification/Mem.thy ===== *)
theory Mem
  imports StrOrder
begin

text \<open>
  One level of the operand stack or one memory cell, \<^verbatim>\<open>struct mem\<close> of
  \<^verbatim>\<open>src/inc/vdbe_int.h\<close>, and the conversions of \<^verbatim>\<open>src/vdbe.c\<close> between its representations.
  The string of a cell is held by value, with its terminator, so the field \<^verbatim>\<open>n\<close> is its length
  and the flags that say who owns the memory have no effect on the value.  When the string is
  the argument block of a callback, an array of pointers followed by the texts, \<open>margs\<close> is what
  the pointers point to and the addresses themselves are zero bytes.
\<close>

datatype memflag =
    MEM_Null | MEM_Str | MEM_Int | MEM_Real | MEM_Dyn | MEM_Static | MEM_Ephem | MEM_Short | MEM_AggCtx

record 'r mem =
  mi :: i32
  mflags :: "memflag set"
  mr :: 'r
  mz :: string
  margs :: "cstring option list"

definition NBFS :: nat where "NBFS = 32"

text \<open>A stack level just entered; the fields a cell does not set are not read.\<close>

definition mem0 :: "('r, 'l) fpu \<Rightarrow> 'r mem" where
  "mem0 F = \<lparr>mi = 0, mflags = {}, mr = fzero F, mz = [], margs = []\<rparr>"

section \<open>Conversions\<close>

definition num_text :: "('r, 'l) fpu \<Rightarrow> 'r mem \<Rightarrow> cstring" where
  "num_text F m =
     (if MEM_Real \<in> mflags m then take (NBFS - 1) (fmt15g F (mr m))
      else if MEM_Int \<in> mflags m then take (NBFS - 1) (show_int (sint (mi m)))
      else [])"

definition entity_as_string :: "('r, 'l) fpu \<Rightarrow> 'r mem \<Rightarrow> 'r mem" where
  "entity_as_string F m =
     (if MEM_Str \<notin> mflags m
      then m\<lparr>mz := cstr (num_text F m) @ [NUL], mflags := {MEM_Str, MEM_Short}\<rparr> else m)"

definition entity_to_string :: "('r, 'l) fpu \<Rightarrow> 'r mem \<Rightarrow> 'r mem" where
  "entity_to_string F m =
     (if MEM_Dyn \<notin> mflags m
      then (let m = entity_as_string F m in m\<lparr>mflags := insert MEM_Dyn (mflags m)\<rparr>) else m)"

definition entity_ephem_to_dyn :: "'r mem \<Rightarrow> 'r mem" where
  "entity_ephem_to_dyn m =
     (if MEM_Ephem \<in> mflags m
      then m\<lparr>mflags := insert MEM_Dyn (mflags m - {MEM_Ephem})\<rparr> else m)"

definition entity_to_int :: "('r, 'l) fpu \<Rightarrow> 'r mem \<Rightarrow> 'r mem" where
  "entity_to_int F m =
     (if MEM_Int \<notin> mflags m
      then m\<lparr>mi := (if MEM_Real \<in> mflags m then f_to_int F (mr m)
                    else if MEM_Str \<in> mflags m then snd (dbsql_atoi (cstr (mz m)))
                    else 0),
             mflags := {MEM_Int}\<rparr>
      else m)"

definition entity_to_real :: "('r, 'l) fpu \<Rightarrow> 'r mem \<Rightarrow> 'r mem" where
  "entity_to_real F m =
     (if MEM_Real \<notin> mflags m
      then m\<lparr>mr := (if MEM_Str \<in> mflags m then dbsql_atof F (cstr (mz m))
                    else if MEM_Int \<in> mflags m then f_of_int F (mi m)
                    else fzero F),
             mflags := insert MEM_Real (mflags m)\<rparr>
      else m)"

section \<open>Well-formed cells\<close>

text \<open>
  The sanity check the interpreter makes after every instruction when it is built for
  debugging: a cell has a type, a string names exactly one kind of storage, nothing else names
  any, and NULL excludes every other type.
\<close>

definition str_kinds :: "memflag set" where
  "str_kinds = {MEM_Static, MEM_Dyn, MEM_Ephem, MEM_Short}"

definition mem_ok :: "'r mem \<Rightarrow> bool" where
  "mem_ok m \<longleftrightarrow> mflags m \<noteq> {}
     \<and> (if MEM_Str \<in> mflags m then card (mflags m \<inter> str_kinds) = 1
        else mflags m \<inter> str_kinds = {})
     \<and> (MEM_Null \<in> mflags m \<longrightarrow> mflags m = {MEM_Null})"

lemma card1_insert:
  assumes "k \<in> str_kinds" and "a \<inter> str_kinds = {}"
  shows "card (insert k a \<inter> str_kinds) = 1"
proof -
  have "insert k a \<inter> str_kinds = {k}" using assms by auto
  then show ?thesis by simp
qed

lemma str_kinds_simps [simp]:
  "MEM_Static \<in> str_kinds" "MEM_Dyn \<in> str_kinds" "MEM_Ephem \<in> str_kinds" "MEM_Short \<in> str_kinds"
  "MEM_Null \<notin> str_kinds" "MEM_Str \<notin> str_kinds" "MEM_Int \<notin> str_kinds" "MEM_Real \<notin> str_kinds"
  "MEM_AggCtx \<notin> str_kinds" "finite str_kinds"
  by (simp_all add: str_kinds_def)

lemma mem_ok_plain [simp]:
  "mem_ok m \<Longrightarrow> mem_ok (m\<lparr>mi := i\<rparr>)"
  "mem_ok m \<Longrightarrow> mem_ok (m\<lparr>mr := r\<rparr>)"
  "mem_ok m \<Longrightarrow> mem_ok (m\<lparr>mz := z\<rparr>)"
  "mem_ok m \<Longrightarrow> mem_ok (m\<lparr>margs := az\<rparr>)"
  "mem_ok (m\<lparr>mflags := {MEM_Null}\<rparr>)"
  "mem_ok (m\<lparr>mflags := {MEM_Int}\<rparr>)"
  "mem_ok (m\<lparr>mflags := {MEM_Real}\<rparr>)"
  by (simp_all add: mem_ok_def)

lemma mem_ok_string: "k \<in> str_kinds \<Longrightarrow> mem_ok (m\<lparr>mz := z, mflags := {MEM_Str, k}\<rparr>)"
  using card1_insert [of k "{MEM_Str}"] by (auto simp: mem_ok_def str_kinds_def insert_commute)

lemma mem_ok_as_string [simp]: "mem_ok m \<Longrightarrow> mem_ok (entity_as_string F m)"
  using mem_ok_string [where k = MEM_Short and m = m] by (simp add: entity_as_string_def)

lemma mem_ok_to_int [simp]: "mem_ok m \<Longrightarrow> mem_ok (entity_to_int F m)"
  by (simp add: entity_to_int_def mem_ok_def)

lemma mem_ok_to_real [simp]: "mem_ok m \<Longrightarrow> MEM_Null \<notin> mflags m \<Longrightarrow> mem_ok (entity_to_real F m)"
  by (auto simp: entity_to_real_def mem_ok_def)

lemma mem_ok_ephem_to_dyn [simp]:
  assumes "mem_ok m" shows "mem_ok (entity_ephem_to_dyn m)"
proof (cases "MEM_Ephem \<in> mflags m")
  case True
  then have s: "MEM_Str \<in> mflags m" and c: "card (mflags m \<inter> str_kinds) = 1"
    using assms by (auto simp: mem_ok_def split: if_splits)
  from c obtain x where x: "mflags m \<inter> str_kinds = {x}" by (auto simp: card_1_singleton_iff)
  have "MEM_Ephem \<in> mflags m \<inter> str_kinds" using True by simp
  with x have e: "mflags m \<inter> str_kinds = {MEM_Ephem}" by (metis singletonD)
  then have "card (insert MEM_Dyn (mflags m - {MEM_Ephem}) \<inter> str_kinds) = 1"
    by (intro card1_insert) auto
  then show ?thesis using True s assms by (auto simp: entity_ephem_to_dyn_def mem_ok_def)
qed (simp add: entity_ephem_to_dyn_def assms)

section \<open>The SQL value of a cell\<close>

text \<open>What a client sees of a cell: NULL, or its text.  A callback receives this.\<close>

definition column_text :: "('r, 'l) fpu \<Rightarrow> 'r mem \<Rightarrow> cstring option" where
  "column_text F m =
     (if MEM_Null \<in> mflags m then None else Some (cstr (mz (entity_as_string F m))))"

end
