(* ===== verification/Sorter.thy ===== *)
theory Sorter
  imports StrOrder "HOL-Library.Multiset"
begin

text \<open>
  The sorter of the virtual machine: \<^verbatim>\<open>__sorted_merge\<close> and the merge sort of opcode
  \<^verbatim>\<open>OP_Sort\<close> in \<^verbatim>\<open>src/vdbe.c\<close>, with its array of \<^verbatim>\<open>NSORT\<close> runs.  The linked list of
  \<^verbatim>\<open>sorter_t\<close> elements is a list, first element first; the data of an element is the string of a
  stack level, so it comes with the argument array such a string may hold.
\<close>

record sorter =
  zKey :: string
  pData :: string
  pArgs :: "cstring option list"

section \<open>The merge sort\<close>

text \<open>The merge takes the comparison as an argument; a tie takes the left element.\<close>

fun merge_by :: "('e \<Rightarrow> 'e \<Rightarrow> int) \<Rightarrow> 'e list \<Rightarrow> 'e list \<Rightarrow> 'e list" where
  "merge_by cmp [] right = right"
| "merge_by cmp left [] = left"
| "merge_by cmp (l # left) (r # right) =
     (if cmp l r \<le> 0 then l # merge_by cmp left (r # right)
      else r # merge_by cmp (l # left) right)"

definition sorted_merge :: "('r, 'l) fpu \<Rightarrow> sorter list \<Rightarrow> sorter list \<Rightarrow> sorter list" where
  "sorted_merge F = merge_by (\<lambda>a b. str_cmp F (zKey a) (zKey b))"

definition NSORT :: nat where
  "NSORT = 30"

text \<open>One element enters the array of runs: it merges with the runs it meets until it finds an
  empty slot; the last slot absorbs everything.\<close>

fun sort_insert :: "('e \<Rightarrow> 'e \<Rightarrow> int) \<Rightarrow> 'e list list \<Rightarrow> 'e list \<Rightarrow> 'e list list" where
  "sort_insert cmp [] pElem = []"
| "sort_insert cmp [run] pElem = [merge_by cmp run pElem]"
| "sort_insert cmp (run # r # runs) pElem =
     (if run = [] then pElem # r # runs
      else [] # sort_insert cmp (r # runs) (merge_by cmp run pElem))"

definition sort_runs :: "('e \<Rightarrow> 'e \<Rightarrow> int) \<Rightarrow> 'e list \<Rightarrow> 'e list list" where
  "sort_runs cmp pSort = foldl (\<lambda>runs e. sort_insert cmp runs [e]) (replicate NSORT []) pSort"

definition sort_by :: "('e \<Rightarrow> 'e \<Rightarrow> int) \<Rightarrow> 'e list \<Rightarrow> 'e list" where
  "sort_by cmp pSort = foldl (\<lambda>pElem run. merge_by cmp run pElem) [] (sort_runs cmp pSort)"

definition op_Sort_list :: "('r, 'l) fpu \<Rightarrow> sorter list \<Rightarrow> sorter list" where
  "op_Sort_list F = sort_by (\<lambda>a b. str_cmp F (zKey a) (zKey b))"

section \<open>Nothing is lost\<close>

lemma mset_merge_by [simp]: "mset (merge_by cmp l r) = mset l + mset r"
  by (induction cmp l r rule: merge_by.induct) auto

lemma set_merge_by [simp]: "set (merge_by cmp l r) = set l \<union> set r"
  by (induction cmp l r rule: merge_by.induct) auto

lemma length_sort_insert [simp]: "length (sort_insert cmp runs e) = length runs"
  by (induction cmp runs e rule: sort_insert.induct) auto

lemma mset_sort_insert:
  "runs \<noteq> [] \<Longrightarrow> mset (concat (sort_insert cmp runs e)) = mset (concat runs) + mset e"
  by (induction cmp runs e rule: sort_insert.induct) auto

lemma foldl_runs:
  "runs \<noteq> [] \<Longrightarrow>
    length (foldl (\<lambda>runs e. sort_insert cmp runs [e]) runs xs) = length runs \<and>
    mset (concat (foldl (\<lambda>runs e. sort_insert cmp runs [e]) runs xs)) = mset (concat runs) + mset xs"
proof (induction xs arbitrary: runs)
  case (Cons x xs)
  have "sort_insert cmp runs [x] \<noteq> []"
    using Cons.prems length_sort_insert [of cmp runs "[x]"] by (metis length_0_conv)
  then show ?case using Cons mset_sort_insert [of runs cmp "[x]"] by simp
qed simp

lemma mset_foldl_merge:
  "mset (foldl (\<lambda>p run. merge_by cmp run p) p runs) = mset p + mset (concat runs)"
  by (induction runs arbitrary: p) auto

lemma mset_sort_by: "mset (sort_by cmp xs) = mset xs"
proof -
  have "replicate NSORT [] \<noteq> ([] :: 'a list list)" by (simp add: NSORT_def)
  then have "mset (concat (sort_runs cmp xs)) = mset xs"
    using foldl_runs [of "replicate NSORT []" cmp xs] by (simp add: sort_runs_def)
  then show ?thesis by (simp add: sort_by_def mset_foldl_merge)
qed

section \<open>The result is sorted and stable\<close>

definition ordered :: "('e \<Rightarrow> 'e \<Rightarrow> int) \<Rightarrow> 'e list \<Rightarrow> bool" where
  "ordered cmp = sorted_wrt (\<lambda>a b. cmp a b \<le> 0)"

text \<open>The elements that compare equal to a given one, in the order they stand.\<close>

definition same_class :: "('e \<Rightarrow> 'e \<Rightarrow> int) \<Rightarrow> 'e \<Rightarrow> 'e list \<Rightarrow> 'e list" where
  "same_class cmp k = filter (\<lambda>e. cmp e k = 0)"

lemma same_class_simps [simp]:
  "same_class cmp k [] = []"
  "same_class cmp k (x # xs) = (if cmp x k = 0 then x # same_class cmp k xs else same_class cmp k xs)"
  "same_class cmp k (xs @ ys) = same_class cmp k xs @ same_class cmp k ys"
  by (simp_all add: same_class_def)

context cmp_order
begin

text \<open>Induction for the merge of two runs, with the comparison fixed.\<close>

lemma merge_induct [case_names Left Right Step]:
  assumes "\<And>r. P [] r" and "\<And>l ls. P (l # ls) []"
    and "\<And>l ls r rs. (cmp l r \<le> 0 \<Longrightarrow> P ls (r # rs)) \<Longrightarrow> (\<not> cmp l r \<le> 0 \<Longrightarrow> P (l # ls) rs) \<Longrightarrow>
          P (l # ls) (r # rs)"
  shows "P l r"
proof (induction l arbitrary: r)
  case (Cons a l)
  show ?case by (induction r) (auto intro: assms Cons.IH)
qed (rule assms(1))

lemma ordered_merge:
  "ordered cmp l \<Longrightarrow> ordered cmp r \<Longrightarrow> set l \<subseteq> K \<Longrightarrow> set r \<subseteq> K \<Longrightarrow> ordered cmp (merge_by cmp l r)"
proof (induction l r rule: merge_induct)
  case (Step l ls r rs)
  show ?case
  proof (cases "cmp l r \<le> 0")
    case True
    have "cmp l x \<le> 0" if "x \<in> set rs" for x
      using that True Step.prems cmp_trans [of l r x] by (auto simp: ordered_def)
    with True Step show ?thesis by (auto simp: ordered_def)
  next
    case False
    then have rl: "cmp r l \<le> 0"
      using cmp_total [of l r] Step.prems by auto
    have "cmp r x \<le> 0" if "x \<in> set ls" for x
      using that rl Step.prems cmp_trans [of r l x] by (auto simp: ordered_def)
    with False rl Step show ?thesis by (auto simp: ordered_def)
  qed
qed (auto simp: ordered_def)

lemma same_class_merge:
  "ordered cmp l \<Longrightarrow> set l \<subseteq> K \<Longrightarrow> set r \<subseteq> K \<Longrightarrow> k \<in> K \<Longrightarrow>
    same_class cmp k (merge_by cmp l r) = same_class cmp k l @ same_class cmp k r"
proof (induction l r rule: merge_induct)
  case (Step l ls r rs)
  show ?case
  proof (cases "cmp l r \<le> 0")
    case True
    with Step show ?thesis by (auto simp: ordered_def)
  next
    case False
    have "same_class cmp k (l # ls) = []" if rk: "cmp r k = 0"
    proof -
      have "cmp x k \<noteq> 0" if x: "x \<in> set (l # ls)" for x
      proof
        assume xk: "cmp x k = 0"
        have K: "x \<in> K" "l \<in> K" "r \<in> K" "k \<in> K" using x Step.prems by auto
        have "cmp l x \<le> 0"
          using x Step.prems cmp_refl [of l] by (auto simp: ordered_def)
        moreover have "cmp x r \<le> 0"
          using xk rk cmp_zero_left [OF K(1,4,3) xk] cmp_swap [OF K(3,4)] by simp
        ultimately show False
          using False cmp_trans [OF K(2,1,3)] by simp
      qed
      then show ?thesis by (auto simp: same_class_def filter_empty_conv)
    qed
    with False Step show ?thesis by (auto simp: ordered_def)
  qed
qed auto

definition runs_ok :: "'k list list \<Rightarrow> bool" where
  "runs_ok runs \<longleftrightarrow> (\<forall>run \<in> set runs. ordered cmp run \<and> set run \<subseteq> K)"

lemma sort_insert_ok:
  "runs_ok runs \<Longrightarrow> ordered cmp e \<Longrightarrow> set e \<subseteq> K \<Longrightarrow> runs_ok (sort_insert cmp runs e)"
proof (induction runs arbitrary: e)
  case (Cons run runs)
  have m: "ordered cmp (merge_by cmp run e)" "set (merge_by cmp run e) \<subseteq> K"
    using Cons.prems by (auto simp: runs_ok_def intro: ordered_merge)
  show ?case
  proof (cases runs)
    case Nil
    then show ?thesis using m by (simp add: runs_ok_def)
  next
    case (Cons r rs)
    then show ?thesis
      using m Cons.prems Cons.IH [OF _ m] Cons
      by (auto simp: runs_ok_def ordered_def)
  qed
qed (simp add: runs_ok_def)

text \<open>A new element stands behind every element of its class that came before.\<close>

lemma same_class_insert:
  "runs_ok runs \<Longrightarrow> ordered cmp e \<Longrightarrow> set e \<subseteq> K \<Longrightarrow> k \<in> K \<Longrightarrow> runs \<noteq> [] \<Longrightarrow>
    same_class cmp k (concat (rev (sort_insert cmp runs e))) =
    same_class cmp k (concat (rev runs)) @ same_class cmp k e"
proof (induction runs arbitrary: e)
  case (Cons run runs)
  have m: "ordered cmp (merge_by cmp run e)" "set (merge_by cmp run e) \<subseteq> K"
    using Cons.prems by (auto simp: runs_ok_def intro: ordered_merge)
  have c: "same_class cmp k (merge_by cmp run e) = same_class cmp k run @ same_class cmp k e"
    using Cons.prems by (intro same_class_merge) (auto simp: runs_ok_def)
  show ?case
  proof (cases runs)
    case Nil
    then show ?thesis using c by simp
  next
    case rs: (Cons r rs)
    have "runs_ok runs" using Cons.prems by (simp add: runs_ok_def)
    then show ?thesis
      using Cons.IH [OF _ m] Cons.prems c rs by (cases "run = []") auto
  qed
qed simp

lemma sort_runs_ok:
  assumes "set xs \<subseteq> K" and "runs_ok runs" and "runs \<noteq> []" and "k \<in> K"
  shows "runs_ok (foldl (\<lambda>runs e. sort_insert cmp runs [e]) runs xs) \<and>
    same_class cmp k (concat (rev (foldl (\<lambda>runs e. sort_insert cmp runs [e]) runs xs))) =
    same_class cmp k (concat (rev runs)) @ same_class cmp k xs"
  using assms
proof (induction xs arbitrary: runs)
  case (Cons x xs)
  have x: "ordered cmp [x]" "set [x] \<subseteq> K" using Cons.prems by (auto simp: ordered_def)
  have "sort_insert cmp runs [x] \<noteq> []"
    using Cons.prems length_sort_insert [of cmp runs "[x]"] by (metis length_0_conv)
  then show ?case
    using Cons.IH [of "sort_insert cmp runs [x]"] Cons.prems
      sort_insert_ok [OF _ x] same_class_insert [OF _ x] by auto
qed simp

lemma final_merge_ok:
  assumes "runs_ok runs" and "ordered cmp p" and "set p \<subseteq> K" and "k \<in> K"
  shows "ordered cmp (foldl (\<lambda>p run. merge_by cmp run p) p runs) \<and>
    same_class cmp k (foldl (\<lambda>p run. merge_by cmp run p) p runs) =
    same_class cmp k (concat (rev runs)) @ same_class cmp k p"
  using assms
proof (induction runs arbitrary: p)
  case (Cons run runs)
  have "ordered cmp (merge_by cmp run p)" "set (merge_by cmp run p) \<subseteq> K"
    using Cons.prems by (auto simp: runs_ok_def intro: ordered_merge)
  moreover have "same_class cmp k (merge_by cmp run p) = same_class cmp k run @ same_class cmp k p"
    using Cons.prems by (intro same_class_merge) (auto simp: runs_ok_def)
  ultimately show ?case
    using Cons.IH [of "merge_by cmp run p"] Cons.prems by (simp add: runs_ok_def)
qed simp

lemma sort_by_stable:
  assumes "set xs \<subseteq> K" and "k \<in> K"
  shows "ordered cmp (sort_by cmp xs) \<and> same_class cmp k (sort_by cmp xs) = same_class cmp k xs"
proof -
  have init: "runs_ok (replicate NSORT [])" "replicate NSORT [] \<noteq> ([] :: 'k list list)"
    by (auto simp: runs_ok_def ordered_def NSORT_def)
  have nil: "concat (rev (replicate NSORT [])) = ([] :: 'k list)" by simp
  have "runs_ok (sort_runs cmp xs)"
      "same_class cmp k (concat (rev (sort_runs cmp xs))) = same_class cmp k xs"
    using sort_runs_ok [OF assms(1) init assms(2)] nil by (simp_all add: sort_runs_def)
  then show ?thesis
    using final_merge_ok [of "sort_runs cmp xs" "[]" k] assms(2)
    by (simp add: sort_by_def ordered_def)
qed

end

section \<open>Sorting the rows of a query\<close>

text \<open>The rows the machine sorts: every key is one that SortMakeKey builds for the sort terms,
  in a block that may end in more zero bytes.\<close>

definition sort_row :: "('r, 'l) fpu \<Rightarrow> char list \<Rightarrow> sorter \<Rightarrow> bool" where
  "sort_row F ts e \<longleftrightarrow>
     (\<exists>v n. length v = length ts \<and> list_all (value_ok F) v
        \<and> zKey e = key_bytes ts v @ replicate n NUL)"

lemma sort_row_order:
  assumes "ieee F" and "sort_types ts"
  shows "cmp_order (\<lambda>a b. str_cmp F (zKey a) (zKey b)) {e. sort_row F ts e}"
proof -
  have K: "cmp_order (key_order F ts) {v. length v = length ts \<and> list_all (value_ok F) v}"
    by (rule ieee.key_cmp_order [OF assms(1)])
  note key = str_cmp_key_bytes [OF _ _ assms(2)]
  show ?thesis
  proof (unfold_locales, goal_cases)
    case (1 a b)
    then obtain u v k l where
      "length u = length ts" "list_all (value_ok F) u" "zKey a = key_bytes ts u @ replicate k NUL"
      "length v = length ts" "list_all (value_ok F) v" "zKey b = key_bytes ts v @ replicate l NUL"
      by (auto simp only: sort_row_def mem_Collect_eq)
    then show ?case using cmp_order.cmp_swap [OF K, of u v] by (simp add: key)
  next
    case (2 a b c)
    then obtain u v w k l m where
      "length u = length ts" "list_all (value_ok F) u" "zKey a = key_bytes ts u @ replicate k NUL"
      "length v = length ts" "list_all (value_ok F) v" "zKey b = key_bytes ts v @ replicate l NUL"
      "length w = length ts" "list_all (value_ok F) w" "zKey c = key_bytes ts w @ replicate m NUL"
      by (auto simp only: sort_row_def mem_Collect_eq)
    then show ?case using 2(4,5) cmp_order.cmp_trans [OF K, of u v w] by (simp add: key)
  qed
qed

text \<open>C10: the merge sort of OP_Sort keeps exactly the rows it was given, leaves them in the order of
  their keys, and is stable: rows whose keys compare equal keep the order they had on the list,
  however many runs the array of 30 slots went through.\<close>

theorem op_Sort_sorts:
  assumes "ieee F" and "sort_types ts" and "\<forall>e \<in> set pSort. sort_row F ts e"
  shows "mset (op_Sort_list F pSort) = mset pSort
     \<and> sorted_wrt (\<lambda>a b. str_cmp F (zKey a) (zKey b) \<le> 0) (op_Sort_list F pSort)
     \<and> (\<forall>k \<in> set pSort.
          filter (\<lambda>e. str_cmp F (zKey e) (zKey k) = 0) (op_Sort_list F pSort) =
          filter (\<lambda>e. str_cmp F (zKey e) (zKey k) = 0) pSort)"
proof -
  let ?c = "\<lambda>a b. str_cmp F (zKey a) (zKey b)"
  note st = cmp_order.sort_by_stable [OF sort_row_order [OF assms(1,2)], of pSort]
  have sub: "set pSort \<subseteq> {e. sort_row F ts e}" using assms(3) by blast
  have "ordered ?c (sort_by ?c pSort)"
    using st [OF sub] assms(3)
    by (cases pSort) (auto simp: sort_by_def sort_runs_def NSORT_def ordered_def numeral_eq_Suc)
  moreover have "same_class ?c k (sort_by ?c pSort) = same_class ?c k pSort" if "k \<in> set pSort" for k
    using st [OF sub] that sub by auto
  ultimately show ?thesis
    by (simp add: op_Sort_list_def mset_sort_by ordered_def same_class_def)
qed

theorem op_Sort_sorts_witness:
  "sorted_wrt (\<lambda>a b. str_cmp rat_fpu (zKey a) (zKey b) \<le> 0)
     (op_Sort_list rat_fpu
       [\<lparr>zKey = key_bytes ''+'' [Some ''10''], pData = ''x'', pArgs = []\<rparr>,
        \<lparr>zKey = key_bytes ''+'' [Some ''9''], pData = ''y'', pArgs = []\<rparr>])"
proof -
  have row: "sort_row rat_fpu ''+'' \<lparr>zKey = key_bytes ''+'' [Some s], pData = d, pArgs = []\<rparr>"
    if "value_ok rat_fpu (Some s)" for s d
    unfolding sort_row_def using that by (intro exI [of _ "[Some s]"] exI [of _ 0]) simp
  show ?thesis
    by (rule op_Sort_sorts [OF rat_ieee.ieee_axioms, of "''+''", THEN conjunct2, THEN conjunct1])
      (auto simp: sort_types_def value_ok_def num_ok_def intro!: row)
qed

end
