(* ===== verification/Safety.thy ===== *)
theory Safety
  imports Prelude
begin

text \<open>
  The misuse detection of \<^verbatim>\<open>src/safety.c\<close>: a database handle is marked busy while a call is
  inside the engine, and a second entry moves it to an error state for good.
\<close>

datatype db_status = STATUS_OPEN | STATUS_CLOSED | STATUS_BUSY | STATUS_ERROR

text \<open>The part of a database handle the virtual machine and the checks use; \<^verbatim>\<open>pVdbe\<close> counts the
  machines on its list and \<^verbatim>\<open>inTrans\<close> is the flag \<^verbatim>\<open>DBSQL_InTrans\<close>.\<close>

record dbsql =
  dbmagic :: db_status
  interrupt :: bool
  want_to_close :: bool
  pVdbe :: nat
  inTrans :: bool
  onError :: int

definition safety_on :: "dbsql \<Rightarrow> bool \<times> dbsql" where
  "safety_on dbp =
     (if dbmagic dbp = STATUS_OPEN then (False, dbp\<lparr>dbmagic := STATUS_BUSY\<rparr>)
      else if dbmagic dbp = STATUS_BUSY \<or> dbmagic dbp = STATUS_ERROR \<or> want_to_close dbp
      then (True, dbp\<lparr>dbmagic := STATUS_ERROR, interrupt := True\<rparr>)
      else (True, dbp))"

definition safety_off :: "dbsql \<Rightarrow> bool \<times> dbsql" where
  "safety_off dbp =
     (if dbmagic dbp = STATUS_BUSY then (False, dbp\<lparr>dbmagic := STATUS_OPEN\<rparr>)
      else if dbmagic dbp = STATUS_OPEN \<or> dbmagic dbp = STATUS_ERROR \<or> want_to_close dbp
      then (True, dbp\<lparr>dbmagic := STATUS_ERROR, interrupt := True\<rparr>)
      else (True, dbp))"

definition safety_check :: "dbsql \<Rightarrow> bool \<times> dbsql" where
  "safety_check dbp =
     (if pVdbe dbp \<noteq> 0 then (True, dbp\<lparr>dbmagic := STATUS_ERROR\<rparr>) else (False, dbp))"

section \<open>Threads that enter and leave the engine\<close>

text \<open>
  Each thread is inside the engine or not.  A thread enters when \<^verbatim>\<open>__safety_on\<close> lets it and
  leaves with \<^verbatim>\<open>__safety_off\<close>; a refused call returns at once.  The two routines are atomic
  here, which is what the comment on the race condition asks of the caller.
\<close>

record engine =
  edb :: dbsql
  inside :: "nat list"

inductive engine_step :: "engine \<Rightarrow> engine \<Rightarrow> bool" where
  enter: "safety_on (edb s) = (False, d) \<Longrightarrow> engine_step s (s\<lparr>edb := d, inside := t # inside s\<rparr>)"
| refused: "safety_on (edb s) = (True, d) \<Longrightarrow> engine_step s (s\<lparr>edb := d\<rparr>)"
| leave: "t \<in> set (inside s) \<Longrightarrow> safety_off (edb s) = (False, d) \<Longrightarrow>
    engine_step s (s\<lparr>edb := d, inside := remove1 t (inside s)\<rparr>)"
| leave_error: "t \<in> set (inside s) \<Longrightarrow> safety_off (edb s) = (True, d) \<Longrightarrow>
    engine_step s (s\<lparr>edb := d, inside := remove1 t (inside s)\<rparr>)"
| check: "safety_check (edb s) = (r, d) \<Longrightarrow> engine_step s (s\<lparr>edb := d\<rparr>)"

inductive_cases engine_stepE: "engine_step s s'"

inductive engine_reach :: "dbsql \<Rightarrow> engine \<Rightarrow> bool" where
  start: "engine_reach d \<lparr>edb = d, inside = []\<rparr>"
| more: "engine_reach d s \<Longrightarrow> engine_step s s' \<Longrightarrow> engine_reach d s'"

definition engine_inv :: "engine \<Rightarrow> bool" where
  "engine_inv s \<longleftrightarrow> length (inside s) \<le> 1
     \<and> (dbmagic (edb s) = STATUS_OPEN \<longrightarrow> inside s = [])
     \<and> (dbmagic (edb s) = STATUS_BUSY \<longrightarrow> length (inside s) = 1)
     \<and> dbmagic (edb s) \<noteq> STATUS_CLOSED"

lemma engine_inv_step: "engine_step s s' \<Longrightarrow> engine_inv s \<Longrightarrow> engine_inv s'"
proof (induction rule: engine_step.induct)
  case (leave t s d)
  then have "length (inside s) = 1" by (auto simp: engine_inv_def safety_off_def split: if_splits)
  with leave show ?case
    by (auto simp: engine_inv_def safety_off_def length_Suc_conv split: if_splits)
next
  case (leave_error t s d)
  then show ?case
    by (auto simp: engine_inv_def safety_off_def length_remove1 split: if_splits)
qed (auto simp: engine_inv_def safety_on_def safety_check_def split: if_splits)



text \<open>A handle in the error state stays there: every later entry and exit is refused, and the
  interrupt flag is raised so that a machine still running stops at its next jump.\<close>

theorem error_absorbs:
  assumes "dbmagic d = STATUS_ERROR"
  shows "fst (safety_on d) \<and> fst (safety_off d)
    \<and> dbmagic (snd (safety_on d)) = STATUS_ERROR \<and> dbmagic (snd (safety_off d)) = STATUS_ERROR
    \<and> interrupt (snd (safety_on d)) \<and> interrupt (snd (safety_off d))
    \<and> dbmagic (snd (safety_check d)) = STATUS_ERROR"
  using assms by (auto simp: safety_on_def safety_off_def safety_check_def)

theorem error_absorbs_witness:
  "fst (safety_on \<lparr>dbmagic = STATUS_ERROR, interrupt = False, want_to_close = False, pVdbe = 1, inTrans = False, onError = 99\<rparr>)"
  using error_absorbs [of "\<lparr>dbmagic = STATUS_ERROR, interrupt = False, want_to_close = False, pVdbe = 1, inTrans = False, onError = 99\<rparr>"]
  by simp

end
