(* ===== verification/Errors.thy ===== *)
theory Errors
  imports Fpu
begin

text \<open>
  The result codes of \<^verbatim>\<open>src/dbsql.in\<close> and \<^verbatim>\<open>dbsql_strerror\<close> of \<^verbatim>\<open>src/common/dbsql_err.c\<close>.
  \<^verbatim>\<open>strerror\<close> of the C library and \<^verbatim>\<open>db_strerror\<close> of the storage library are parameters.
\<close>

abbreviation (input) DBSQL_SUCCESS :: int where "DBSQL_SUCCESS \<equiv> 0"
abbreviation (input) DBSQL_ERROR :: int where "DBSQL_ERROR \<equiv> -50999"
abbreviation (input) DBSQL_INTERNAL :: int where "DBSQL_INTERNAL \<equiv> -50998"
abbreviation (input) DBSQL_PERM :: int where "DBSQL_PERM \<equiv> -50997"
abbreviation (input) DBSQL_ABORT :: int where "DBSQL_ABORT \<equiv> -50996"
abbreviation (input) DBSQL_BUSY :: int where "DBSQL_BUSY \<equiv> -50995"
abbreviation (input) DBSQL_LOCKED :: int where "DBSQL_LOCKED \<equiv> -50994"
abbreviation (input) DBSQL_NOMEM :: int where "DBSQL_NOMEM \<equiv> -50993"
abbreviation (input) DBSQL_READONLY :: int where "DBSQL_READONLY \<equiv> -50992"
abbreviation (input) DBSQL_INTERRUPTED :: int where "DBSQL_INTERRUPTED \<equiv> -50991"
abbreviation (input) DBSQL_IOERR :: int where "DBSQL_IOERR \<equiv> -50990"
abbreviation (input) DBSQL_FULL :: int where "DBSQL_FULL \<equiv> -50989"
abbreviation (input) DBSQL_CANTOPEN :: int where "DBSQL_CANTOPEN \<equiv> -50988"
abbreviation (input) DBSQL_PROTOCOL :: int where "DBSQL_PROTOCOL \<equiv> -50987"
abbreviation (input) DBSQL_SCHEMA :: int where "DBSQL_SCHEMA \<equiv> -50986"
abbreviation (input) DBSQL_CONSTRAINT :: int where "DBSQL_CONSTRAINT \<equiv> -50985"
abbreviation (input) DBSQL_MISMATCH :: int where "DBSQL_MISMATCH \<equiv> -50984"
abbreviation (input) DBSQL_MISUSE :: int where "DBSQL_MISUSE \<equiv> -50983"
abbreviation (input) DBSQL_AUTH :: int where "DBSQL_AUTH \<equiv> -50982"
abbreviation (input) DBSQL_FORMAT :: int where "DBSQL_FORMAT \<equiv> -50981"
abbreviation (input) DBSQL_RANGE :: int where "DBSQL_RANGE \<equiv> -50980"
abbreviation (input) DBSQL_ROW :: int where "DBSQL_ROW \<equiv> -50979"
abbreviation (input) DBSQL_DONE :: int where "DBSQL_DONE \<equiv> -50978"
abbreviation (input) DBSQL_CORRUPT :: int where "DBSQL_CORRUPT \<equiv> -50977"
abbreviation (input) DBSQL_RUNRECOVERY :: int where "DBSQL_RUNRECOVERY \<equiv> -50976"
abbreviation (input) DBSQL_INVALID_NAME :: int where "DBSQL_INVALID_NAME \<equiv> -50975"

abbreviation (input) DBSQL_NOTFOUND :: int where "DBSQL_NOTFOUND \<equiv> -50801"
abbreviation (input) DBSQL_EMPTY :: int where "DBSQL_EMPTY \<equiv> -50800"

definition error_texts :: "(int \<times> cstring) list" where
  "error_texts =
     [(DBSQL_ERROR, ''DBSQL_ERROR: SQL logic error or missing database''),
      (DBSQL_INTERNAL, ''DBSQL_INTERNAL: Internal implementation flaw''),
      (DBSQL_PERM, ''DBSQL_PERM: Access denied due to permissions.''),
      (DBSQL_ABORT, ''DBSQL_ABORT: Callback requested query abort''),
      (DBSQL_BUSY, ''DBSQL_BUSY: Database is locked''),
      (DBSQL_LOCKED, ''DBSQL_LOCKED: Database table is locked''),
      (DBSQL_NOMEM, ''DBSQL_NOMEM: Unable to allocate additional memory.''),
      (DBSQL_READONLY, ''DBSQL_READONLY: Attempt to write a readonly database''),
      (DBSQL_INTERRUPTED, ''DBSQL_INTERRUPTED: Interrupted during processing''),
      (DBSQL_IOERR, ''DBSQL_IOERROR: Disk I/O error''),
      (DBSQL_NOTFOUND, ''DBSQL_NOTFOUND: Table or record not found''),
      (DBSQL_FULL, ''DBSQL_FULL: Database is full''),
      (DBSQL_CANTOPEN, ''DBSQL_CANTOPEN: Unable to open database file''),
      (DBSQL_PROTOCOL, ''DBSQL_PROTOCOL: Database locking protocol failure''),
      (DBSQL_EMPTY, ''DBSQL_EMPTY: Table contains no data''),
      (DBSQL_SCHEMA, ''DBSQL_SCHEMA: Database schema has changed''),
      (DBSQL_CONSTRAINT, ''DBSQL_CONSTRAINT: Constraint failed''),
      (DBSQL_MISMATCH, ''DBSQL_MISMATCH: Datatype mismatch''),
      (DBSQL_MISUSE, ''DBSQL_MISUSE: Library routine called out of sequence''),
      (DBSQL_AUTH, ''DBSQL_AUTH: Authorization denied''),
      (DBSQL_FORMAT, ''DBSQL_FORMAT: Auxiliary database format error''),
      (DBSQL_RANGE, ''DBSQL_RANGE: Bind index out of range''),
      (DBSQL_CORRUPT, ''DBSQL_CORRUPT: Data record is malformed''),
      (DBSQL_RUNRECOVERY,
        ''DBSQL_RUNRECOVERY: Shutdown and run recovery on the database environment.''),
      (DBSQL_INVALID_NAME, ''DBSQL_INVALID_NAME: Empty or invalid file name supplied'')]"

definition unknown_err :: "int \<Rightarrow> cstring" where
  "unknown_err e = take 39 (''Unknown error: '' @ show_int e)"

definition dbsql_strerror ::
  "(int \<Rightarrow> cstring option) \<Rightarrow> (int \<Rightarrow> cstring option) \<Rightarrow> int \<Rightarrow> cstring" where
  "dbsql_strerror strerror db_strerror e =
     (if e = 0 then ''Successful return: 0''
      else if e > 0 then (case strerror e of Some p \<Rightarrow> p | None \<Rightarrow> unknown_err e)
      else if e \<le> -30999 \<and> e \<ge> -30800 then
        (case db_strerror e of Some p \<Rightarrow> p | None \<Rightarrow> unknown_err e)
      else case map_of error_texts e of Some p \<Rightarrow> p | None \<Rightarrow> unknown_err e)"

text \<open>The codes of the storage library, from -30999 to -30800, are never passed to
  \<^verbatim>\<open>db_strerror\<close>: the two bounds of the test are exchanged, so it never holds and every
  such code is reported as unknown.\<close>

theorem strerror_misses_db_errors:
  assumes "-30999 \<le> e" and "e \<le> -30800"
  shows "dbsql_strerror strerror db_strerror e = unknown_err e"
  using assms by (auto simp: dbsql_strerror_def error_texts_def)

theorem strerror_misses_db_errors_witness:
  "dbsql_strerror (\<lambda>_. None) (\<lambda>_. Some ''DB_NOTFOUND: No matching key/data pair found'') (-30988)
    = unknown_err (-30988)"
  by (rule strerror_misses_db_errors) simp_all

end
