(* ===== verification/Keys.thy ===== *)
theory Keys
  imports Prelude
begin

unbundle bit_operations_syntax

text \<open>
  Record numbers as table keys: \<^verbatim>\<open>__vdbe_byte_swap\<close> of \<^verbatim>\<open>src/vdbe_method.c\<close> and the macros
  \<^verbatim>\<open>KEY_TO_INT\<close> and \<^verbatim>\<open>INT_TO_KEY\<close> of \<^verbatim>\<open>src/inc/vdbe_int.h\<close>.  The storage manager compares keys
  with \<^verbatim>\<open>memcmp\<close>, so the bytes of an \<^verbatim>\<open>int\<close> in memory matter: \<open>le\<close> says whether the host is
  little endian.
\<close>

section \<open>An int in memory\<close>

text \<open>\<^verbatim>\<open>(x >> 8k) & 0xff\<close> as a byte.\<close>

definition byte_of :: "i32 \<Rightarrow> nat \<Rightarrow> char" where
  "byte_of x k = char_of (unat (drop_bit (8 * k) x AND 0xff))"

definition int_to_mem :: "bool \<Rightarrow> i32 \<Rightarrow> string" where
  "int_to_mem le x =
     (if le then map (byte_of x) [0, 1, 2, 3] else map (byte_of x) [3, 2, 1, 0])"

definition int_of_bytes :: "string \<Rightarrow> i32" where
  "int_of_bytes bs = of_nat (foldr (\<lambda>c v. char_code c + 256 * v) bs 0)"

definition mem_to_int :: "bool \<Rightarrow> string \<Rightarrow> i32" where
  "mem_to_int le bs = int_of_bytes (if le then take 4 bs else rev (take 4 bs))"

definition vdbe_byte_swap :: "bool \<Rightarrow> i32 \<Rightarrow> i32" where
  "vdbe_byte_swap le x = mem_to_int le [byte_of x 3, byte_of x 2, byte_of x 1, byte_of x 0]"

definition KEY_TO_INT :: "bool \<Rightarrow> i32 \<Rightarrow> i32" where
  "KEY_TO_INT le x = vdbe_byte_swap le x XOR 0x80000000"

definition INT_TO_KEY :: "bool \<Rightarrow> i32 \<Rightarrow> i32" where
  "INT_TO_KEY le x = vdbe_byte_swap le (x XOR 0x80000000)"

section \<open>Bytes and numbers\<close>

lemma byte_code: "char_code (byte_of x k) = unat x div 256 ^ k mod 256"
proof -
  have "unat (drop_bit (8 * k) x AND 0xff) = unat (take_bit 8 (drop_bit (8 * k) x))"
    by (simp add: take_bit_eq_mask mask_numeral)
  also have "\<dots> = take_bit 8 (unat (drop_bit (8 * k) x))"
    by (simp only: unsigned_take_bit_eq)
  also have "\<dots> = unat x div 2 ^ (8 * k) mod 256"
    by (simp only: unat_drop_bit_eq) (simp add: take_bit_eq_mod drop_bit_eq_div)
  finally show ?thesis
    by (simp add: byte_of_def char_code_def of_char_of power_mult)
qed

lemma digits_256:
  assumes "(n :: nat) < 2 ^ 32"
  shows "n mod 256 + 256 * (n div 256 mod 256 + 256 * (n div 65536 mod 256 + 256 * (n div 16777216))) = n"
    and "n div 16777216 mod 256 = n div 16777216"
proof -
  have d: "n div 65536 = n div 256 div 256" "n div 16777216 = n div 256 div 256 div 256"
    by (simp_all add: div_mult2_eq [symmetric])
  have "n div 16777216 < 256" using assms by (simp add: less_mult_imp_div_less)
  then show "n div 16777216 mod 256 = n div 16777216" by simp
  have s: "y mod 256 + 256 * (y div 256) = y" for y :: nat by presburger
  show "n mod 256 + 256 * (n div 256 mod 256 + 256 * (n div 65536 mod 256 + 256 * (n div 16777216))) = n"
    unfolding d by (simp only: s)
qed

lemma unat_bound: "unat (x :: i32) < 2 ^ 32"
  using unsigned_less [of x, where 'a = nat] by simp

lemma int_of_bytes_4:
  "int_of_bytes (map (byte_of x) [0, 1, 2, 3]) = x"
proof -
  have "foldr (\<lambda>c v. char_code c + 256 * v) (map (byte_of x) [0, 1, 2, 3]) 0 = unat x"
    using digits_256 [OF unat_bound [of x]] by (simp add: byte_code)
  then show ?thesis unfolding int_of_bytes_def by simp
qed

lemma mem_roundtrip [simp]: "mem_to_int le (int_to_mem le x) = x"
  using int_of_bytes_4 [of x] by (auto simp: mem_to_int_def int_to_mem_def)

lemma bytes_roundtrip:
  assumes "length bs = 4"
  shows "map (byte_of (int_of_bytes bs)) [0, 1, 2, 3] = bs"
proof -
  obtain a b c d where bs: "bs = [a, b, c, d]"
    using assms by (auto simp: length_Suc_conv numeral_eq_Suc)
  let ?n = "char_code a + 256 * (char_code b + 256 * (char_code c + 256 * char_code d))"
  have lt: "char_code x \<le> 255" for x
  proof -
    have "char_code x = char_code x mod 256" by (simp add: char_code_def)
    then show ?thesis using mod_less_divisor [of 256 "char_code x"] by linarith
  qed
  note l = lt [of a] lt [of b] lt [of c] lt [of d]
  have "?n = char_code a + 256 * char_code b + 65536 * char_code c + 16777216 * char_code d" by simp
  then have "?n < 4294967296" using l by linarith
  then have "?n < 2 ^ 32" by simp
  then have u: "unat (int_of_bytes bs) = ?n"
    unfolding int_of_bytes_def unat_of_nat by (simp add: bs)
  have s: "(x + 256 * y) mod 256 = x" "(x + 256 * y) div 256 = y" if "x \<le> 255" for x y :: nat
    using that by simp_all
  have e: "n div 256 ^ 2 = n div 256 div 256" "n div 256 ^ 3 = n div 256 div 256 div 256" for n :: nat
    by (simp_all add: div_mult2_eq [symmetric])
  have "map (\<lambda>k. ?n div 256 ^ k mod 256) [0, 1, 2, 3] = map char_code bs"
    unfolding bs using s(1) [OF l(4), of 0]
    by (simp only: list.map e power_0 div_by_1 power_one_right s l) simp
  then have "map char_code (map (byte_of (int_of_bytes bs)) [0, 1, 2, 3]) = map char_code bs"
    using u by (simp add: byte_code)
  then show ?thesis by (simp only: inj_map_eq_map [of char_code] inj_def char_code_inj simp_thms)
qed

lemma mem_of_int [simp]: "length bs = 4 \<Longrightarrow> int_to_mem le (mem_to_int le bs) = bs"
  using bytes_roundtrip [of bs] bytes_roundtrip [of "rev bs"]
  by (auto simp: int_to_mem_def mem_to_int_def rev_swap [symmetric])

section \<open>The key of a record number\<close>

text \<open>The bytes in memory of a swapped integer are its bytes from the most significant one.\<close>

definition big_endian :: "i32 \<Rightarrow> string" where
  "big_endian x = [byte_of x 3, byte_of x 2, byte_of x 1, byte_of x 0]"

lemma length_big_endian [simp]: "length (big_endian x) = 4"
  by (simp add: big_endian_def)

lemma swap_mem: "int_to_mem le (vdbe_byte_swap le x) = big_endian x"
  unfolding vdbe_byte_swap_def big_endian_def [symmetric] by (rule mem_of_int) simp

lemma big_endian_inj: "big_endian x = big_endian y \<Longrightarrow> x = y"
  using int_of_bytes_4 [of x] int_of_bytes_4 [of y] by (simp add: big_endian_def)

lemma swap_swap [simp]: "vdbe_byte_swap le (vdbe_byte_swap le x) = x"
proof -
  have "big_endian (vdbe_byte_swap le x) = rev (map (byte_of (vdbe_byte_swap le x)) [0, 1, 2, 3])"
    by (simp add: big_endian_def)
  moreover have "map (byte_of (vdbe_byte_swap le x)) [0, 1, 2, 3] =
      (if le then big_endian x else rev (big_endian x))"
    using swap_mem [of le x] by (auto simp: int_to_mem_def big_endian_def)
  ultimately show ?thesis
    using int_of_bytes_4 [of x] big_endian_def [of x]
    by (auto simp: vdbe_byte_swap_def mem_to_int_def big_endian_def)
qed

lemma strcmp_big_endian:
  assumes "unat x < unat y"
  shows "strcmp (big_endian x) (big_endian y) = -1"
proof -
  let ?d = "\<lambda>n :: nat. n div 256"
  have d: "n div 256 ^ 2 = ?d (?d n)" "n div 256 ^ 3 = ?d (?d (?d n))" for n :: nat
    by (simp_all add: div_mult2_eq [symmetric])
  have m: "?d (?d (?d (unat x))) mod 256 = ?d (?d (?d (unat x)))" for x :: i32
    using digits_256(2) [OF unat_bound [of x]] by (simp add: div_mult2_eq [symmetric])
  have c: "char_code (byte_of x 3) = ?d (?d (?d (unat x)))" "char_code (byte_of x 2) = ?d (?d (unat x)) mod 256"
    "char_code (byte_of x 1) = ?d (unat x) mod 256" "char_code (byte_of x 0) = unat x mod 256" for x :: i32
    by (simp_all only: byte_code d m power_0 power_one_right div_by_1)
  have s: "a < b \<Longrightarrow> ?d a < ?d b \<or> (?d a = ?d b \<and> a mod 256 < b mod 256)" for a b :: nat
  proof (cases "?d a = ?d b")
    case True
    assume "a < b"
    with True show ?thesis
      using div_mult_mod_eq [of a 256] div_mult_mod_eq [of b 256] by linarith
  qed (use div_le_mono [of a b 256] in simp)
  have "?d (?d (?d (unat x))) < ?d (?d (?d (unat y))) \<or>
      ?d (?d (?d (unat x))) = ?d (?d (?d (unat y))) \<and> (?d (?d (unat x)) mod 256 < ?d (?d (unat y)) mod 256 \<or>
      ?d (?d (unat x)) mod 256 = ?d (?d (unat y)) mod 256 \<and> (?d (unat x) mod 256 < ?d (unat y) mod 256 \<or>
      ?d (unat x) mod 256 = ?d (unat y) mod 256 \<and> unat x mod 256 < unat y mod 256))"
    using s [OF assms] s [of "?d (unat x)" "?d (unat y)"] s [of "?d (?d (unat x))" "?d (?d (unat y))"]
    by metis
  then have "char_code (byte_of x 3) < char_code (byte_of y 3) \<or>
      char_code (byte_of x 3) = char_code (byte_of y 3) \<and> (char_code (byte_of x 2) < char_code (byte_of y 2) \<or>
      char_code (byte_of x 2) = char_code (byte_of y 2) \<and> (char_code (byte_of x 1) < char_code (byte_of y 1) \<or>
      char_code (byte_of x 1) = char_code (byte_of y 1) \<and> char_code (byte_of x 0) < char_code (byte_of y 0)))"
    unfolding c .
  then show ?thesis unfolding big_endian_def by (elim disjE conjE) simp_all
qed

text \<open>Inverting the sign bit moves the signed range onto the unsigned one.\<close>

lemma flip_sign: "uint (x XOR 0x80000000 :: i32) = sint x + 2 ^ 31"
proof -
  have "x XOR 0x80000000 = flip_bit 31 x" by (simp add: flip_bit_eq_xor push_bit_eq_mult)
  also have "\<dots> = x + 0x80000000"
  proof -
    have "- (0x80000000 :: i32) = 0x80000000" by code_simp
    then have "x - 0x80000000 = x + 0x80000000" by (metis add_uminus_conv_diff)
    then show ?thesis by (simp add: flip_bit_eq_if set_bit_eq unset_bit_eq)
  qed
  finally have e: "uint (x XOR 0x80000000) = (uint x + 2 ^ 31) mod 2 ^ 32"
    by (simp add: uint_word_ariths)
  have u: "uint x = sint x mod 2 ^ 32"
    by (simp add: uint_sint take_bit_eq_mod)
  have b: "- (2 ^ 31) \<le> sint x" "sint x < 2 ^ 31"
    using sint_ge [of x] sint_lt [of x] by simp_all
  have "uint (x XOR 0x80000000) = (sint x + 2 ^ 31) mod 2 ^ 32"
    unfolding e u by (rule mod_add_left_eq)
  also have "\<dots> = sint x + 2 ^ 31"
    using b by (intro mod_pos_pos_trivial) simp_all
  finally show ?thesis .
qed

lemma key_mem: "int_to_mem le (INT_TO_KEY le x) = big_endian (x XOR 0x80000000)"
  by (simp add: INT_TO_KEY_def swap_mem)

text \<open>C36: converting a record number to a key and back gives the record number, and byte
  swapping is its own inverse, on little- and big-endian hosts.\<close>

theorem key_roundtrip:
  "KEY_TO_INT le (INT_TO_KEY le x) = x \<and> INT_TO_KEY le (KEY_TO_INT le x) = x
   \<and> vdbe_byte_swap le (vdbe_byte_swap le x) = x"
  by (simp add: KEY_TO_INT_def INT_TO_KEY_def xor.assoc)

text \<open>C37: comparing the four bytes of two keys as the storage manager does orders them like the
  signed record numbers, negative ones first, whatever the byte order of the host.\<close>

theorem key_order_signed:
  "memcmp (int_to_mem le (INT_TO_KEY le x)) (int_to_mem le (INT_TO_KEY le y)) 4 =
    (if sint x < sint y then -1 else if sint x = sint y then 0 else 1)"
proof -
  let ?x = "x XOR 0x80000000" and ?y = "y XOR 0x80000000"
  have lt: "sint x < sint y \<longleftrightarrow> unat ?x < unat ?y"
    using flip_sign [of x] flip_sign [of y] by (simp add: word_less_nat_alt [symmetric] word_less_def)
  have gt: "sint y < sint x \<longleftrightarrow> unat ?y < unat ?x"
    using flip_sign [of x] flip_sign [of y] by (simp add: word_less_nat_alt [symmetric] word_less_def)
  have "memcmp (big_endian ?x) (big_endian ?y) 4 = strcmp (big_endian ?x) (big_endian ?y)"
    by (simp add: memcmp_def)
  moreover consider "sint x < sint y" | "sint x = sint y" | "sint y < sint x" by linarith
  then have "strcmp (big_endian ?x) (big_endian ?y) =
      (if sint x < sint y then -1 else if sint x = sint y then 0 else 1)"
  proof cases
    case 1
    then show ?thesis using lt strcmp_big_endian [of ?x ?y] by simp
  next
    case 2
    then have "x = y" by (rule signed_word_eqI)
    then show ?thesis by simp
  next
    case 3
    then show ?thesis
      using gt strcmp_big_endian [of ?y ?x] strcmp_swap [of "big_endian ?x" "big_endian ?y"] by simp
  qed
  ultimately show ?thesis by (simp add: key_mem)
qed

end
