(* ===== verification/Hash.thy ===== *)
theory Hash
  imports CStr "HOL-Library.Monad_Syntax"
begin

text \<open>
  The hash tables of \<^verbatim>\<open>src/common/hash.c\<close>.  All elements of a table are on one doubly linked list,
  and a bucket is a pointer to its first element on that list and the number of its elements,
  which follow one another.  Pointers are kept: an element is a node of a heap, \<open>None\<close> is the null
  pointer, and the result \<open>None\<close> of an operation is a null or dangling pointer that is followed,
  or a failed assertion.  A key is the bytes the pointer \<^verbatim>\<open>pKey\<close> shows and the number \<^verbatim>\<open>nKey\<close>; they
  do not change while the key is in the table, so sharing and copying are the same.
  \<open>htsize\<close> is not bounded: the doubling of an \<^verbatim>\<open>int\<close> is exact below a billion elements.
\<close>

unbundle bit_operations_syntax

section \<open>State\<close>

type_synonym addr = nat

record 'd hash_ele =
  enext :: "addr option"
  eprev :: "addr option"
  edata :: "'d option"
  ekey :: string
  elen :: i32

type_synonym bucket = "nat \<times> addr option"

record 'd hash =
  keyClass :: int
  copyKey :: bool
  hcount :: int
  hfirst :: "addr option"
  htsize :: nat
  ht :: "bucket list"
  heap :: "addr \<rightharpoonup> 'd hash_ele"

abbreviation (input) HASH_INT :: int where "HASH_INT \<equiv> 1"
abbreviation (input) HASH_STRING :: int where "HASH_STRING \<equiv> 3"
abbreviation (input) HASH_BINARY :: int where "HASH_BINARY \<equiv> 4"

section \<open>Hash and comparison functions\<close>

definition hash_ignore_case :: "string \<Rightarrow> i32 \<Rightarrow> i32" where
  "hash_ignore_case z n =
     (let k = (if sint n \<le> 0 then length (cstr z) else nat (sint n))
      in foldl (\<lambda>h c. push_bit 3 h XOR h XOR of_nat (lower c)) 0 (take k z) AND 0x7fffffff)"

definition int_hash :: "string \<Rightarrow> i32 \<Rightarrow> i32" where
  "int_hash key len = len XOR push_bit 8 len XOR signed_drop_bit 8 len"

definition str_hash :: "string \<Rightarrow> i32 \<Rightarrow> i32" where
  "str_hash key len = hash_ignore_case key len"

text \<open>The bytes of the key are plain \<^verbatim>\<open>char\<close>, which is signed.\<close>

definition bin_hash :: "string \<Rightarrow> i32 \<Rightarrow> i32" where
  "bin_hash key len =
     foldl (\<lambda>h c. push_bit 3 h XOR h XOR signed_take_bit 7 (of_nat (char_code c))) 0
       (take (nat (sint len)) key) AND 0x7fffffff"

definition h_int_cmp :: "string \<Rightarrow> i32 \<Rightarrow> string \<Rightarrow> i32 \<Rightarrow> int" where
  "h_int_cmp k1 n1 k2 n2 = sint (n2 - n1)"

definition h_str_cmp :: "string \<Rightarrow> i32 \<Rightarrow> string \<Rightarrow> i32 \<Rightarrow> int" where
  "h_str_cmp k1 n1 k2 n2 =
     (if n1 \<noteq> n2 then sint (n2 - n1) else strncasecmp (cstr k1) (cstr k2) (unat n1))"

definition h_bin_cmp :: "string \<Rightarrow> i32 \<Rightarrow> string \<Rightarrow> i32 \<Rightarrow> int" where
  "h_bin_cmp k1 n1 k2 n2 = (if n1 \<noteq> n2 then sint (n2 - n1) else memcmp k1 k2 (unat n1))"

definition hash_fn :: "int \<Rightarrow> (string \<Rightarrow> i32 \<Rightarrow> i32) option" where
  "hash_fn c =
     (if c = HASH_INT then Some int_hash
      else if c = HASH_STRING then Some str_hash
      else if c = HASH_BINARY then Some bin_hash
      else None)"

definition cmp_fn :: "int \<Rightarrow> (string \<Rightarrow> i32 \<Rightarrow> string \<Rightarrow> i32 \<Rightarrow> int) option" where
  "cmp_fn c =
     (if c = HASH_INT then Some h_int_cmp
      else if c = HASH_STRING then Some h_str_cmp
      else if c = HASH_BINARY then Some h_bin_cmp
      else None)"

text \<open>The hash of a key modulo the number of buckets, a power of two: \<^verbatim>\<open>h & (htsize - 1)\<close>.\<close>

definition bucket_of :: "(string \<Rightarrow> i32 \<Rightarrow> i32) \<Rightarrow> nat \<Rightarrow> string \<Rightarrow> i32 \<Rightarrow> nat" where
  "bucket_of hf buckets key len = unat (hf key len AND word_of_int (int buckets - 1))"

section \<open>Operations\<close>

definition hash_init :: "int \<Rightarrow> bool \<Rightarrow> 'd hash option" where
  "hash_init c copy =
     (if HASH_INT \<le> c \<and> c \<le> HASH_BINARY
      then Some \<lparr>keyClass = c, copyKey = (copy \<and> (c = HASH_STRING \<or> c = HASH_BINARY)), hcount = 0,
                 hfirst = None, htsize = 0, ht = [], heap = Map.empty\<rparr>
      else None)"

text \<open>The loop that frees the elements.\<close>

partial_function (option) free_elems :: "addr option \<Rightarrow> (addr \<rightharpoonup> 'd hash_ele) \<Rightarrow> (addr \<rightharpoonup> 'd hash_ele) option" where
  "free_elems elem hp =
     (case elem of None \<Rightarrow> Some hp
      | Some a \<Rightarrow> do { e \<leftarrow> hp a; free_elems (enext e) (hp(a := None)) })"

definition hash_clear :: "'d hash \<Rightarrow> 'd hash option" where
  "hash_clear H =
     do { hp \<leftarrow> free_elems (hfirst H) (heap H);
          Some (H\<lparr>hfirst := None, ht := [], htsize := 0, hcount := 0, heap := hp\<rparr>) }"

definition upd :: "addr \<Rightarrow> ('d hash_ele \<Rightarrow> 'd hash_ele) \<Rightarrow> 'd hash \<Rightarrow> 'd hash option" where
  "upd a f H = (case heap H a of None \<Rightarrow> None | Some e \<Rightarrow> Some (H\<lparr>heap := (heap H)(a \<mapsto> f e)\<rparr>))"

definition nth_bucket :: "'d hash \<Rightarrow> nat \<Rightarrow> bucket option" where
  "nth_bucket H h = (if h < length (ht H) then Some (ht H ! h) else None)"

text \<open>Linking an element in front of the first element of its bucket, or of the whole list when the
  bucket is empty; the body of the loop of \<^verbatim>\<open>__rehash\<close> and the end of \<^verbatim>\<open>__hash_insert\<close>.\<close>

definition link_elem :: "addr \<Rightarrow> nat \<Rightarrow> 'd hash \<Rightarrow> 'd hash option" where
  "link_elem a h H =
     do { b \<leftarrow> nth_bucket H h;
          H \<leftarrow> (case snd b of
                  Some x \<Rightarrow>
                    do { ex \<leftarrow> heap H x;
                         H \<leftarrow> upd a (\<lambda>e. e\<lparr>enext := Some x, eprev := eprev ex\<rparr>) H;
                         H \<leftarrow> (case eprev ex of
                                 Some p \<Rightarrow> upd p (\<lambda>e. e\<lparr>enext := Some a\<rparr>) H
                               | None \<Rightarrow> Some (H\<lparr>hfirst := Some a\<rparr>));
                         upd x (\<lambda>e. e\<lparr>eprev := Some a\<rparr>) H }
                | None \<Rightarrow>
                    do { H \<leftarrow> upd a (\<lambda>e. e\<lparr>enext := hfirst H, eprev := None\<rparr>) H;
                         H \<leftarrow> (case hfirst H of
                                 Some f \<Rightarrow> upd f (\<lambda>e. e\<lparr>eprev := Some a\<rparr>) H
                               | None \<Rightarrow> Some H);
                         Some (H\<lparr>hfirst := Some a\<rparr>) });
          Some (H\<lparr>ht := (ht H)[h := (fst b + 1, Some a)]\<rparr>) }"

partial_function (option) rehash_loop :: "(string \<Rightarrow> i32 \<Rightarrow> i32) \<Rightarrow> addr option \<Rightarrow> 'd hash \<Rightarrow> 'd hash option" where
  "rehash_loop hf elem H =
     (case elem of None \<Rightarrow> Some H
      | Some a \<Rightarrow>
          do { e \<leftarrow> heap H a;
               H \<leftarrow> link_elem a (bucket_of hf (htsize H) (ekey e) (elen e)) H;
               rehash_loop hf (enext e) H })"

text \<open>\<open>ok\<close> says whether the new array could be allocated.\<close>

definition rehash :: "bool \<Rightarrow> nat \<Rightarrow> 'd hash \<Rightarrow> 'd hash option" where
  "rehash ok new_size H =
     (if new_size AND (new_size - 1) \<noteq> 0 then None
      else if \<not> ok then Some H
      else do { hf \<leftarrow> hash_fn (keyClass H);
                rehash_loop hf (hfirst H)
                  (H\<lparr>ht := replicate new_size (0, None), htsize := new_size, hfirst := None\<rparr>) })"

fun search_from :: "(addr \<rightharpoonup> 'd hash_ele) \<Rightarrow> ('d hash_ele \<Rightarrow> bool) \<Rightarrow> nat \<Rightarrow> addr option \<Rightarrow> addr option option" where
  "search_from hp P 0 elem = Some None"
| "search_from hp P (Suc count) None = Some None"
| "search_from hp P (Suc count) (Some a) =
     do { e \<leftarrow> hp a; if P e then Some (Some a) else search_from hp P count (enext e) }"

definition hash_search :: "'d hash \<Rightarrow> string \<Rightarrow> i32 \<Rightarrow> nat \<Rightarrow> addr option option" where
  "hash_search H key len h =
     (if ht H = [] then Some None
      else do { b \<leftarrow> nth_bucket H h;
                cmp \<leftarrow> cmp_fn (keyClass H);
                search_from (heap H) (\<lambda>e. cmp (ekey e) (elen e) key len = 0) (fst b) (snd b) })"

definition hash_remove :: "'d hash \<Rightarrow> addr \<Rightarrow> nat \<Rightarrow> 'd hash option" where
  "hash_remove H a h =
     do { e \<leftarrow> heap H a;
          H \<leftarrow> (case eprev e of
                  Some p \<Rightarrow> upd p (\<lambda>x. x\<lparr>enext := enext e\<rparr>) H
                | None \<Rightarrow> Some (H\<lparr>hfirst := enext e\<rparr>));
          H \<leftarrow> (case enext e of
                  Some n \<Rightarrow> upd n (\<lambda>x. x\<lparr>eprev := eprev e\<rparr>) H
                | None \<Rightarrow> Some H);
          b \<leftarrow> nth_bucket H h;
          let chain = (if snd b = Some a then enext e else snd b);
          let count = fst b - 1;
          Some (H\<lparr>ht := (ht H)[h := (count, if count = 0 then None else chain)],
                  heap := (heap H)(a := None), hcount := hcount H - 1\<rparr>) }"

definition hash_find :: "'d hash \<Rightarrow> string \<Rightarrow> i32 \<Rightarrow> 'd option option" where
  "hash_find H key len =
     (if ht H = [] then Some None
      else do { hf \<leftarrow> hash_fn (keyClass H);
                if htsize H AND (htsize H - 1) \<noteq> 0 then None
                else do { elem \<leftarrow> hash_search H key len (bucket_of hf (htsize H) key len);
                          case elem of None \<Rightarrow> Some None
                          | Some a \<Rightarrow> do { e \<leftarrow> heap H a; Some (edata e) } } })"

text \<open>What the allocator answers during an insertion: the address of the new element, whether the copy
  of the key and whether the new array of buckets could be allocated.\<close>

record alloc =
  a_elem :: "addr option"
  a_key :: bool
  a_table :: bool

text \<open>An insertion returns the old data, or the new data when it fails, or null.\<close>

definition hash_insert :: "alloc \<Rightarrow> 'd hash \<Rightarrow> string \<Rightarrow> i32 \<Rightarrow> 'd option \<Rightarrow> ('d option \<times> 'd hash) option" where
  "hash_insert al H key len d =
     do { hf \<leftarrow> hash_fn (keyClass H);
          if htsize H AND (htsize H - 1) \<noteq> 0 then None
          else do {
            let h = bucket_of hf (htsize H) key len;
            elem \<leftarrow> hash_search H key len h;
            case elem of
              Some a \<Rightarrow>
                do { e \<leftarrow> heap H a;
                     H \<leftarrow> (case d of None \<Rightarrow> hash_remove H a h
                           | Some _ \<Rightarrow> upd a (\<lambda>x. x\<lparr>edata := d\<rparr>) H);
                     Some (edata e, H) }
            | None \<Rightarrow>
                (if d = None then Some (None, H)
                 else case a_elem al of None \<Rightarrow> Some (d, H)
                 | Some a \<Rightarrow>
                     (if copyKey H \<and> \<not> a_key al then Some (d, H)
                      else do {
                        let H = H\<lparr>heap := (heap H)(a \<mapsto> \<lparr>enext = None, eprev = None, edata = None,
                                                             ekey = key, elen = len\<rparr>),
                                  hcount := hcount H + 1\<rparr>;
                        H \<leftarrow> (if htsize H = 0 then rehash (a_table al) 8 H else Some H);
                        if htsize H = 0 then
                          Some (d, H\<lparr>hcount := 0, heap := (heap H)(a := None)\<rparr>)
                        else do {
                          H \<leftarrow> (if hcount H > int (htsize H) then rehash (a_table al) (htsize H * 2) H else Some H);
                          if htsize H AND (htsize H - 1) \<noteq> 0 then None
                          else do {
                            H \<leftarrow> link_elem a (bucket_of hf (htsize H) key len) H;
                            H \<leftarrow> upd a (\<lambda>x. x\<lparr>edata := d\<rparr>) H;
                            Some (None, H) } } })) } }"

end
