(* ===== verification/Vdbe.thy ===== *)
theory Vdbe
  imports Program Mem Sorter Safety Errors Keys Hash "HOL-Library.Monad_Syntax" "HOL-Library.Signed_Division"
begin

text \<open>
  The virtual machine of \<^verbatim>\<open>src/vdbe.c\<close>: its state and the instructions that work on the operand
  stack, one definition per case of the big switch.  The stack is a list with the top first.
  The local program counter and stack pointer of \<^verbatim>\<open>__vdbe_exec\<close> are fields of the state.
  Allocation succeeds, and \<open>brk\<close> is the next free address for the nodes of hash tables.  \<open>None\<close> is an assertion that fails, an access outside the stack or
  arithmetic the language leaves undefined.
\<close>

section \<open>The state\<close>

type_synonym row = "int \<times> cstring option list option \<times> cstring option list"

text \<open>A block of record numbers, \<^verbatim>\<open>struct keylist\<close>: 1000 slots, and how far they are written and
  read.\<close>

record keylist =
  nKey :: nat
  nUsed :: nat
  nRead :: nat
  aKey :: "i32 list"

text \<open>Aggregates: the elements \<^verbatim>\<open>agg_elem_t\<close> are numbered in the order they are created, and a pointer to
  one is its number.  The context of an aggregate function is the block of bytes it allocated,
  kept in the string of the cell; a function that has none yet has the empty block.\<close>

record 'r agg_elem =
  agg_key :: string
  agg_mem :: "'r mem list"

record ('f, 'r) agg =
  agg_nMem :: int
  pCurrent :: "nat option"
  pSearch :: "addr option"
  agg_hash :: "nat hash"
  apFunc :: "'f option list"
  agg_elems :: "'r agg_elem list"

text \<open>A set holds its members as keys; the data is the address of the machine, which is not read.\<close>

record set_t =
  set_hash :: "unit hash"
  set_prev :: "addr option"

record ('f, 'r) vdbe = "'f vdbe_prog" +
  stack :: "'r mem list"
  nStack :: nat
  pc :: int
  lpc :: int
  rc :: int
  returnStack :: "int list"
  azColName :: "cstring option list"
  nCallback :: int
  nResColumn :: int
  azResColumn :: "cstring option list"
  popStack :: int
  zErrMsg :: "cstring option"
  errorAction :: int
  undoTransOnError :: bool
  explain :: bool
  azVar :: "string option list"
  aMem :: "'r mem list"
  pList :: "keylist list"
  keylistStack :: "keylist list list"
  pSort :: "sorter list"
  uniqueCnt :: i32
  agg :: "('f, 'r) agg"
  aSet :: "set_t list"
  brk :: addr
  nProgress :: nat
  progressCalls :: nat
  rows :: "row list"
  db :: dbsql

text \<open>
  What the machine does not define itself: floating point, the texts of system errors,
  the generated names of the opcodes, how an address is printed, the byte order of the host, whether assertions and debugging checks are compiled in, the application's callbacks and SQL
  functions, and the instructions that work on cursors.  The step function of an aggregate gets the number of
  calls, its context and the arguments, and gives its new context and whether it failed.  A callback sees every row delivered so
  far and may change the handle.
\<close>

record ('f, 'r, 'l) venv =
  fp :: "('r, 'l) fpu"
  errtext :: "int \<Rightarrow> cstring"
  opname :: "int \<Rightarrow> cstring"
  ptrtext :: "'f \<Rightarrow> cstring"
  host_le :: bool
  diagnostic :: bool
  debug :: bool
  xCallback :: "(row list \<Rightarrow> dbsql \<Rightarrow> bool \<times> dbsql) option"
  xFunc :: "'f \<Rightarrow> cstring option list \<Rightarrow> dbsql \<Rightarrow> 'r mem \<times> bool \<times> dbsql"
  xStep :: "'f \<Rightarrow> i32 \<Rightarrow> string \<Rightarrow> cstring option list \<Rightarrow> string \<times> bool"
  xFinalize :: "'f \<Rightarrow> (i32 \<Rightarrow> string \<Rightarrow> 'r mem) option"
  xProgress :: "(nat \<Rightarrow> bool) option"
  nProgressOps :: nat
  storage_op :: "'f vdbe_op \<Rightarrow> ('f, 'r) vdbe \<Rightarrow> (int \<times> ('f, 'r) vdbe) option"

text \<open>How a case of the switch ends: it falls out of the switch with a result code, returns from
  \<^verbatim>\<open>__vdbe_exec\<close>, or goes to one of the labels at its end.\<close>

datatype 's switch_end = Break int 's | Return int 's | Abort int 's | Interrupt 's

type_synonym ('f, 'r) op_result = "('f, 'r) vdbe switch_end option"

definition ok :: "('f, 'r) vdbe \<Rightarrow> ('f, 'r) op_result" where
  "ok s = Some (Break DBSQL_SUCCESS s)"

definition next_op :: "('f, 'r) vdbe option \<Rightarrow> ('f, 'r) op_result" where
  "next_op r = (case r of None \<Rightarrow> None | Some s \<Rightarrow> ok s)"

definition jump :: "'f vdbe_op \<Rightarrow> ('f, 'r) vdbe \<Rightarrow> ('f, 'r) vdbe" where
  "jump op s = s\<lparr>lpc := p2 op - 1\<rparr>"

text \<open>A failed assertion stops only a machine built with assertions.\<close>

definition check :: "('f, 'r, 'l) venv \<Rightarrow> bool \<Rightarrow> unit option" where
  "check E b = (if diagnostic E \<and> \<not> b then None else Some ())"

definition push :: "'r mem \<Rightarrow> ('f, 'r) vdbe \<Rightarrow> ('f, 'r) vdbe option" where
  "push m s = (if length (stack s) < nStack s then Some (s\<lparr>stack := m # stack s\<rparr>) else None)"

definition pop_stack :: "int \<Rightarrow> ('f, 'r) vdbe \<Rightarrow> ('f, 'r) vdbe option" where
  "pop_stack n s =
     (if nat n \<le> length (stack s) then Some (s\<lparr>stack := drop (nat n) (stack s)\<rparr>) else None)"

definition set_errmsg :: "cstring list \<Rightarrow> ('f, 'r) vdbe \<Rightarrow> ('f, 'r) vdbe" where
  "set_errmsg ts s = s\<lparr>zErrMsg := Some (concat ts)\<rparr>"

text \<open>Cells the instructions make.\<close>

definition null_mem :: "('r, 'l) fpu \<Rightarrow> 'r mem" where
  "null_mem F = (mem0 F)\<lparr>mflags := {MEM_Null}\<rparr>"

definition int_mem :: "('r, 'l) fpu \<Rightarrow> i32 \<Rightarrow> 'r mem" where
  "int_mem F i = (mem0 F)\<lparr>mi := i, mflags := {MEM_Int}\<rparr>"

definition real_mem :: "('r, 'l) fpu \<Rightarrow> 'r \<Rightarrow> 'r mem" where
  "real_mem F r = (mem0 F)\<lparr>mr := r, mflags := {MEM_Real}\<rparr>"

definition str_mem :: "('r, 'l) fpu \<Rightarrow> memflag \<Rightarrow> string \<Rightarrow> 'r mem" where
  "str_mem F k z = (mem0 F)\<lparr>mz := z, mflags := {MEM_Str, k}\<rparr>"

definition is_null :: "'r mem \<Rightarrow> bool" where
  "is_null m \<longleftrightarrow> MEM_Null \<in> mflags m"

section \<open>Jumps, subroutines and halting\<close>

definition check_interrupt :: "('f, 'r) vdbe \<Rightarrow> ('f, 'r) op_result \<Rightarrow> ('f, 'r) op_result" where
  "check_interrupt s k = (if interrupt (db s) then Some (Interrupt s) else k)"

definition op_Goto :: "'f vdbe_op \<Rightarrow> ('f, 'r) vdbe \<Rightarrow> ('f, 'r) op_result" where
  "op_Goto op s = check_interrupt s (ok (jump op s))"

definition op_Gosub :: "'f vdbe_op \<Rightarrow> ('f, 'r) vdbe \<Rightarrow> ('f, 'r) op_result" where
  "op_Gosub op s =
     (if length (returnStack s) \<ge> 100
      then Some (Return DBSQL_ERROR
             ((set_errmsg [''return address stack overflow''] s)\<lparr>rc := DBSQL_INTERNAL\<rparr>))
      else ok (jump op (s\<lparr>returnStack := (lpc s + 1) # returnStack s\<rparr>)))"

definition op_Return :: "'f vdbe_op \<Rightarrow> ('f, 'r) vdbe \<Rightarrow> ('f, 'r) op_result" where
  "op_Return op s =
     (case returnStack s of
        [] \<Rightarrow> Some (Return DBSQL_ERROR
                ((set_errmsg [''return address stack underflow''] s)\<lparr>rc := DBSQL_INTERNAL\<rparr>))
      | a # r \<Rightarrow> ok (s\<lparr>returnStack := r, lpc := a - 1\<rparr>))"

text \<open>The text of the third operand, when it is one.\<close>

definition p3_text :: "'f vdbe_op \<Rightarrow> cstring option option" where
  "p3_text op = (case p3 op of None \<Rightarrow> Some None | Some (P3_text z) \<Rightarrow> Some (Some z)
     | Some (P3_object f) \<Rightarrow> None)"

definition op_Halt :: "'f vdbe_op \<Rightarrow> ('f, 'r) vdbe \<Rightarrow> ('f, 'r) op_result" where
  "op_Halt op s =
     (let s = s\<lparr>magic := MAGIC_HALT\<rparr>
      in if p1 op \<noteq> DBSQL_SUCCESS then
           do { z \<leftarrow> p3_text op;
                let s = s\<lparr>rc := p1 op, errorAction := p2 op\<rparr>;
                Some (Return DBSQL_ERROR (case z of None \<Rightarrow> s | Some t \<Rightarrow> set_errmsg [t] s)) }
         else Some (Return DBSQL_DONE (s\<lparr>rc := DBSQL_SUCCESS\<rparr>)))"

section \<open>Pushing and moving values\<close>

definition op_Integer :: "('f, 'r, 'l) venv \<Rightarrow> 'f vdbe_op \<Rightarrow> ('f, 'r) vdbe \<Rightarrow> ('f, 'r) op_result" where
  "op_Integer E op s =
     do { z \<leftarrow> p3_text op;
          let m = int_mem (fp E) (word_of_int (p1 op));
          next_op (push (case z of None \<Rightarrow> m
            | Some t \<Rightarrow> m\<lparr>mz := t @ [NUL], mflags := {MEM_Int, MEM_Str, MEM_Static}\<rparr>) s) }"

definition op_String :: "('f, 'r, 'l) venv \<Rightarrow> 'f vdbe_op \<Rightarrow> ('f, 'r) vdbe \<Rightarrow> ('f, 'r) op_result" where
  "op_String E op s =
     do { z \<leftarrow> p3_text op;
          next_op (push (case z of None \<Rightarrow> null_mem (fp E)
            | Some t \<Rightarrow> str_mem (fp E) MEM_Static (t @ [NUL])) s) }"

definition op_Variable :: "('f, 'r, 'l) venv \<Rightarrow> 'f vdbe_op \<Rightarrow> ('f, 'r) vdbe \<Rightarrow> ('f, 'r) op_result" where
  "op_Variable E op s =
     (let j = p1 op - 1
      in next_op (push
           (if j \<ge> 0 \<and> j < int (length (azVar s)) \<and> azVar s ! nat j \<noteq> None
            then str_mem (fp E) MEM_Static (the (azVar s ! nat j)) else null_mem (fp E)) s))"

definition op_Pop :: "'f vdbe_op \<Rightarrow> ('f, 'r) vdbe \<Rightarrow> ('f, 'r) op_result" where
  "op_Pop op s = (if p1 op < 0 then None else next_op (pop_stack (p1 op) s))"

definition op_Dup :: "'f vdbe_op \<Rightarrow> ('f, 'r) vdbe \<Rightarrow> ('f, 'r) op_result" where
  "op_Dup op s =
     (if p1 op < 0 \<or> p1 op \<ge> int (length (stack s)) then None
      else
        (let m = stack s ! nat (p1 op)
         in next_op (push
              (if MEM_Str \<in> mflags m then
                 (if p2 op \<noteq> 0 \<and> (MEM_Dyn \<in> mflags m \<or> MEM_Ephem \<in> mflags m)
                  then m\<lparr>mflags := insert MEM_Ephem (mflags m - {MEM_Dyn})\<rparr>
                  else if MEM_Short \<in> mflags m then m
                  else if MEM_Static \<notin> mflags m
                  then m\<lparr>mflags := insert MEM_Dyn (mflags m - {MEM_Static, MEM_Ephem, MEM_Short})\<rparr>
                  else m)
               else m) s)))"

definition op_Pull :: "'f vdbe_op \<Rightarrow> ('f, 'r) vdbe \<Rightarrow> ('f, 'r) op_result" where
  "op_Pull op s =
     (let n = nat (p1 op)
      in if p1 op < 0 \<or> p1 op \<ge> int (length (stack s)) then None
         else if n = 0 then ok s
         else ok (s\<lparr>stack := (stack s ! n) # map entity_ephem_to_dyn (take n (stack s))
                             @ drop (n + 1) (stack s)\<rparr>))"

definition op_Push :: "'f vdbe_op \<Rightarrow> ('f, 'r) vdbe \<Rightarrow> ('f, 'r) op_result" where
  "op_Push op s =
     (if p1 op < 0 \<or> p1 op \<ge> int (length (stack s)) then None
      else ok (s\<lparr>stack := tl ((stack s)[nat (p1 op) := entity_ephem_to_dyn (hd (stack s))])\<rparr>))"

definition op_ColumnName :: "'f vdbe_op \<Rightarrow> ('f, 'r) vdbe \<Rightarrow> ('f, 'r) op_result" where
  "op_ColumnName op s =
     do { z \<leftarrow> p3_text op;
          if 0 \<le> p1 op \<and> p1 op < int (length (azColName s))
          then ok (s\<lparr>azColName := (azColName s)[nat (p1 op) := z], nCallback := 0\<rparr>)
          else None }"

section \<open>Delivering rows\<close>

text \<open>The arguments of a callback, lowest stack element first; every element that is not NULL is
  turned into a string where it stands.\<close>

definition stringify :: "('r, 'l) fpu \<Rightarrow> 'r mem \<Rightarrow> 'r mem" where
  "stringify F m = (if is_null m then m else entity_as_string F m)"

definition arg_of :: "'r mem \<Rightarrow> cstring option" where
  "arg_of m = (if is_null m then None else Some (cstr (mz m)))"

definition stringify_top :: "('f, 'r, 'l) venv \<Rightarrow> nat \<Rightarrow> ('f, 'r) vdbe \<Rightarrow> ('f, 'r) vdbe" where
  "stringify_top E n s = s\<lparr>stack := map (stringify (fp E)) (take n (stack s)) @ drop n (stack s)\<rparr>"

definition top_args :: "nat \<Rightarrow> ('f, 'r) vdbe \<Rightarrow> cstring option list" where
  "top_args n s = map arg_of (rev (take n (stack s)))"

text \<open>The call of the application's callback, between \<^verbatim>\<open>__safety_off\<close> and \<^verbatim>\<open>__safety_on\<close>: the result
  code for the rest of the instruction, or the goto to \<^verbatim>\<open>abort_due_to_misuse\<close>.\<close>

definition call_back :: "(row list \<Rightarrow> dbsql \<Rightarrow> bool \<times> dbsql) \<Rightarrow> row \<Rightarrow> ('f, 'r) vdbe \<Rightarrow>
    (int \<times> ('f, 'r) vdbe) + ('f, 'r) vdbe" where
  "call_back cb r s =
     (case safety_off (db s) of
        (True, d) \<Rightarrow> Inr (s\<lparr>db := d\<rparr>)
      | (False, d) \<Rightarrow>
          (let s = s\<lparr>rows := rows s @ [r]\<rparr>;
               (stop, d) = cb (rows s) d
           in case safety_on d of
                (True, d) \<Rightarrow> Inr (s\<lparr>db := d\<rparr>)
              | (False, d) \<Rightarrow> Inl (if stop then DBSQL_ABORT else DBSQL_SUCCESS, s\<lparr>db := d\<rparr>)))"

definition op_Callback :: "('f, 'r, 'l) venv \<Rightarrow> 'f vdbe_op \<Rightarrow> ('f, 'r) vdbe \<Rightarrow> ('f, 'r) op_result" where
  "op_Callback E op s =
     (let n = nat (p1 op)
      in if n > length (stack s) then None
         else
           (let s = stringify_top E n s; az = top_args n s
            in case xCallback E of
                 None \<Rightarrow>
                   Some (Return DBSQL_ROW
                     (s\<lparr>azResColumn := az, nResColumn := p1 op, popStack := p1 op, pc := lpc s + 1,
                        rows := rows s @ [(p1 op, Some az, azColName s)]\<rparr>))
               | Some cb \<Rightarrow>
                   (case call_back cb (p1 op, Some az, azColName s) s of
                      Inr s \<Rightarrow> Some (Abort DBSQL_MISUSE s)
                    | Inl (r, s) \<Rightarrow>
                        do { s \<leftarrow> pop_stack (p1 op) (s\<lparr>nCallback := nCallback s + 1\<rparr>);
                             Some (Break r s) })))"

definition op_NullCallback :: "('f, 'r, 'l) venv \<Rightarrow> 'f vdbe_op \<Rightarrow> ('f, 'r) vdbe \<Rightarrow> ('f, 'r) op_result" where
  "op_NullCallback E op s =
     (case xCallback E of
        Some cb \<Rightarrow>
          (if nCallback s = 0 then
             (case call_back cb (p1 op, None, azColName s) s of
                Inr s \<Rightarrow> Some (Abort DBSQL_MISUSE s)
              | Inl (r, s) \<Rightarrow>
                  Some (Break r (s\<lparr>nCallback := nCallback s + 1, nResColumn := p1 op\<rparr>)))
           else ok (s\<lparr>nResColumn := p1 op\<rparr>))
      | None \<Rightarrow> ok (s\<lparr>nResColumn := p1 op\<rparr>))"

section \<open>Strings and arithmetic\<close>

text \<open>Concatenation looks at the terms from the lowest and stops at the first NULL; the terms before
  it have become strings.\<close>

fun concat_scan :: "('r, 'l) fpu \<Rightarrow> 'r mem list \<Rightarrow> 'r mem list \<times> bool" where
  "concat_scan F [] = ([], True)"
| "concat_scan F (m # ms) =
     (if is_null m then (m # ms, False)
      else (case concat_scan F ms of (ms', good) \<Rightarrow> (entity_as_string F m # ms', good)))"

fun join_sep :: "cstring \<Rightarrow> string list \<Rightarrow> string" where
  "join_sep sep [] = []"
| "join_sep sep [x] = x"
| "join_sep sep (x # y # zs) = x @ sep @ join_sep sep (y # zs)"

definition op_Concat :: "('f, 'r, 'l) venv \<Rightarrow> 'f vdbe_op \<Rightarrow> ('f, 'r) vdbe \<Rightarrow> ('f, 'r) op_result" where
  "op_Concat E op s =
     do { z \<leftarrow> p3_text op;
          let n = nat (p1 op);
          let sep = (case z of None \<Rightarrow> [] | Some t \<Rightarrow> t);
          if p1 op < 0 \<or> n > length (stack s) then None
          else case concat_scan (fp E) (rev (take n (stack s))) of
            (terms, good) \<Rightarrow>
              (let nByte = 1 - int (length sep) + (\<Sum>m \<leftarrow> terms. int (length (mz m)) - 1 + int (length sep));
                   s = s\<lparr>stack := rev terms @ drop n (stack s)\<rparr>
               in do { s1 \<leftarrow> (if p2 op = 0 then pop_stack (p1 op) s else Some s);
                       if \<not> good \<or> nByte < 0 then next_op (push (null_mem (fp E)) s1)
                       else if nByte = 0 then None
                       else next_op (push (str_mem (fp E) MEM_Dyn
                              (join_sep sep (map (\<lambda>m. butlast (mz m)) terms) @ [NUL])) s1) }) }"

text \<open>Machine arithmetic on 32 bit integers; the quotient that does not fit is undefined.\<close>

definition int_arith :: "int \<Rightarrow> i32 \<Rightarrow> i32 \<Rightarrow> i32 option option" where
  "int_arith opc a b =
     (if opc = OP_Add then Some (Some (b + a))
      else if opc = OP_Subtract then Some (Some (b - a))
      else if opc = OP_Multiply then Some (Some (b * a))
      else if a = 0 then Some None
      else if sint a = -1 \<and> sint b = - (2 ^ 31) then None
      else if opc = OP_Divide then Some (Some (word_of_int (sint b sdiv sint a)))
      else Some (Some (word_of_int (sint b smod sint a))))"

definition real_arith :: "('r, 'l) fpu \<Rightarrow> int \<Rightarrow> 'r \<Rightarrow> 'r \<Rightarrow> 'r option option" where
  "real_arith F opc a b =
     (if opc = OP_Add then Some (Some (fadd F b a))
      else if opc = OP_Subtract then Some (Some (fsub F b a))
      else if opc = OP_Multiply then Some (Some (fmul F b a))
      else if opc = OP_Divide then
        (if feq F a (fzero F) then Some None else Some (Some (fdiv F b a)))
      else
        (let ia = f_to_int F a; ib = f_to_int F b
         in if ia = 0 then Some None
            else if sint ia = -1 \<and> sint ib = - (2 ^ 31) then None
            else Some (Some (f_of_int F (word_of_int (sint ib smod sint ia))))))"

definition op_arith :: "('f, 'r, 'l) venv \<Rightarrow> 'f vdbe_op \<Rightarrow> ('f, 'r) vdbe \<Rightarrow> ('f, 'r) op_result" where
  "op_arith E op s =
     (case stack s of
        tos # nos # rest \<Rightarrow>
          (if is_null tos \<or> is_null nos then ok (s\<lparr>stack := nos\<lparr>mflags := {MEM_Null}\<rparr> # rest\<rparr>)
           else if MEM_Int \<in> mflags tos \<and> MEM_Int \<in> mflags nos then
             do { v \<leftarrow> int_arith (opcode op) (mi tos) (mi nos);
                  ok (s\<lparr>stack := (case v of None \<Rightarrow> nos\<lparr>mflags := {MEM_Null}\<rparr>
                                   | Some b \<Rightarrow> nos\<lparr>mi := b, mflags := {MEM_Int}\<rparr>) # rest\<rparr>) }
           else
             (let tos = entity_to_real (fp E) tos; nos = entity_to_real (fp E) nos
              in do { v \<leftarrow> real_arith (fp E) (opcode op) (mr tos) (mr nos);
                      ok (s\<lparr>stack := (case v of None \<Rightarrow> nos\<lparr>mflags := {MEM_Null}\<rparr>
                                       | Some b \<Rightarrow> nos\<lparr>mr := b, mflags := {MEM_Real}\<rparr>) # rest\<rparr>) }))
      | _ \<Rightarrow> None)"

definition op_Function :: "('f, 'r, 'l) venv \<Rightarrow> 'f vdbe_op \<Rightarrow> ('f, 'r) vdbe \<Rightarrow> ('f, 'r) op_result" where
  "op_Function E op s =
     (let n = nat (p1 op)
      in if n > length (stack s) then None
         else case p3 op of
           Some (P3_object f) \<Rightarrow>
             (let s = stringify_top E n s; az = top_args n s
              in case safety_off (db s) of
                   (True, d) \<Rightarrow> Some (Abort DBSQL_MISUSE (s\<lparr>db := d\<rparr>))
                 | (False, d) \<Rightarrow>
                     (case xFunc E f az d of
                        (res, isError, d) \<Rightarrow>
                          (case safety_on d of
                             (True, d) \<Rightarrow> Some (Abort DBSQL_MISUSE (s\<lparr>db := d\<rparr>))
                           | (False, d) \<Rightarrow>
                               do { s \<leftarrow> pop_stack (p1 op) (s\<lparr>db := d\<rparr>);
                                    s \<leftarrow> push res s;
                                    Some (if isError
                                      then Break DBSQL_ERROR (set_errmsg
                                             [if MEM_Str \<in> mflags res then cstr (mz res)
                                              else ''user function error''] s)
                                      else Break DBSQL_SUCCESS s) })))
         | _ \<Rightarrow> None)"

text \<open>Bit operations: a shift by a count outside the width is undefined.\<close>

unbundle bit_operations_syntax

definition bit_arith :: "int \<Rightarrow> i32 \<Rightarrow> i32 \<Rightarrow> i32 option" where
  "bit_arith opc a b =
     (if opc = OP_BitAnd then Some (a AND b)
      else if opc = OP_BitOr then Some (a OR b)
      else if \<not> (0 \<le> sint b \<and> sint b < 32) then None
      else if opc = OP_ShiftLeft then Some (push_bit (nat (sint b)) a)
      else Some (signed_drop_bit (nat (sint b)) a))"

definition op_bits :: "('f, 'r, 'l) venv \<Rightarrow> 'f vdbe_op \<Rightarrow> ('f, 'r) vdbe \<Rightarrow> ('f, 'r) op_result" where
  "op_bits E op s =
     (case stack s of
        tos # nos # rest \<Rightarrow>
          (if is_null tos \<or> is_null nos then ok (s\<lparr>stack := null_mem (fp E) # rest\<rparr>)
           else
             (let tos = entity_to_int (fp E) tos; nos = entity_to_int (fp E) nos
              in do { a \<leftarrow> bit_arith (opcode op) (mi tos) (mi nos);
                      check E (MEM_Dyn \<notin> mflags tos \<and> MEM_Dyn \<notin> mflags nos \<and> mflags nos = {MEM_Int});
                      ok (s\<lparr>stack := nos\<lparr>mi := a\<rparr> # rest\<rparr>) }))
      | _ \<Rightarrow> None)"

definition op_AddImm :: "('f, 'r, 'l) venv \<Rightarrow> 'f vdbe_op \<Rightarrow> ('f, 'r) vdbe \<Rightarrow> ('f, 'r) op_result" where
  "op_AddImm E op s =
     (case stack s of
        tos # rest \<Rightarrow>
          (let tos = entity_to_int (fp E) tos
           in ok (s\<lparr>stack := tos\<lparr>mi := mi tos + word_of_int (p1 op)\<rparr> # rest\<rparr>))
      | _ \<Rightarrow> None)"

section \<open>Numeric checks and comparisons\<close>

definition force_int :: "('r, 'l) fpu \<Rightarrow> bool \<Rightarrow> 'r mem \<Rightarrow> i32" where
  "force_int F strict m =
     (if MEM_Int \<in> mflags m then mi m + (if strict then 1 else 0)
      else
        (let r = mr (entity_to_real F m);
             v = f_to_int F r;
             v = (if flt F (f_of_int F v) r then v + 1 else v)
         in if strict \<and> feq F r (f_of_int F v) then v + 1 else v))"

definition op_ForceInt :: "('f, 'r, 'l) venv \<Rightarrow> 'f vdbe_op \<Rightarrow> ('f, 'r) vdbe \<Rightarrow> ('f, 'r) op_result" where
  "op_ForceInt E op s =
     (case stack s of
        tos # rest \<Rightarrow>
          (if MEM_Int \<notin> mflags tos \<and> MEM_Real \<notin> mflags tos
              \<and> (MEM_Str \<notin> mflags tos \<or> \<not> str_is_numeric (cstr (mz tos)))
           then ok (jump op (s\<lparr>stack := rest\<rparr>))
           else ok (s\<lparr>stack := tos\<lparr>mi := force_int (fp E) (p1 op \<noteq> 0) tos, mflags := {MEM_Int}\<rparr> # rest\<rparr>))
      | _ \<Rightarrow> None)"

text \<open>The integer a value must be, or \<open>None\<close> for a mismatch.\<close>

definition must_be_int :: "('r, 'l) fpu \<Rightarrow> 'r mem \<Rightarrow> i32 option" where
  "must_be_int F m =
     (if MEM_Int \<in> mflags m then Some (mi m)
      else if MEM_Real \<in> mflags m then
        (let i = f_to_int F (mr m) in if \<not> feq F (f_of_int F i) (mr m) then None else Some i)
      else if MEM_Str \<in> mflags m then
        (case dbsql_atoi (cstr (mz m)) of
           (True, v) \<Rightarrow> Some v
         | (False, _) \<Rightarrow>
             (if \<not> str_is_numeric (cstr (mz m)) then None
              else (let r = mr (entity_to_real F m); v = f_to_int F r
                    in if \<not> feq F (f_of_int F v) r then None else Some v)))
      else None)"

text \<open>A mismatch found after the conversion of a numeric text leaves the converted cell.\<close>

definition mismatch_cell :: "('r, 'l) fpu \<Rightarrow> 'r mem \<Rightarrow> 'r mem" where
  "mismatch_cell F m =
     (if MEM_Int \<notin> mflags m \<and> MEM_Real \<notin> mflags m \<and> MEM_Str \<in> mflags m
         \<and> str_is_numeric (cstr (mz m))
      then entity_to_real F m else m)"

definition op_MustBeInt :: "('f, 'r, 'l) venv \<Rightarrow> 'f vdbe_op \<Rightarrow> ('f, 'r) vdbe \<Rightarrow> ('f, 'r) op_result" where
  "op_MustBeInt E op s =
     (case stack s of
        tos # rest \<Rightarrow>
          (case must_be_int (fp E) tos of
             Some i \<Rightarrow> ok (s\<lparr>stack := tos\<lparr>mi := i, mflags := {MEM_Int}\<rparr> # rest\<rparr>)
           | None \<Rightarrow>
               (let s = s\<lparr>stack := mismatch_cell (fp E) tos # rest\<rparr>
                in if p2 op = 0 then Some (Abort DBSQL_MISMATCH s)
                   else ok (jump op (if p1 op \<noteq> 0 then s\<lparr>stack := rest\<rparr> else s))))
      | _ \<Rightarrow> None)"

text \<open>The three-way comparison of the numeric opcodes: a difference of machine integers when both
  sides are integers or look like one, and the order of the texts otherwise.\<close>

definition cmp_values :: "('r, 'l) fpu \<Rightarrow> 'r mem \<Rightarrow> 'r mem \<Rightarrow> int" where
  "cmp_values F tos nos =
     (if MEM_Int \<in> mflags tos \<and> MEM_Int \<in> mflags nos then sint (mi nos - mi tos)
      else if MEM_Int \<in> mflags tos \<and> MEM_Str \<in> mflags nos \<and> fst (dbsql_atoi (cstr (mz nos)))
      then sint (snd (dbsql_atoi (cstr (mz nos))) - mi tos)
      else if MEM_Int \<in> mflags nos \<and> MEM_Str \<in> mflags tos \<and> fst (dbsql_atoi (cstr (mz tos)))
      then sint (mi nos - snd (dbsql_atoi (cstr (mz tos))))
      else str_numeric_cmp F (Some (cstr (mz (entity_as_string F nos))))
             (Some (cstr (mz (entity_as_string F tos)))))"

definition cmp_text :: "('r, 'l) fpu \<Rightarrow> 'r mem \<Rightarrow> 'r mem \<Rightarrow> int" where
  "cmp_text F tos nos = strcmp (cstr (mz (entity_as_string F nos))) (cstr (mz (entity_as_string F tos)))"

text \<open>The test on the sign of the comparison; the text opcodes are the numeric ones plus 6.\<close>

definition cmp_test :: "int \<Rightarrow> int \<Rightarrow> bool" where
  "cmp_test opc c =
     (if opc = OP_Eq then c = 0 else if opc = OP_Ne then c \<noteq> 0
      else if opc = OP_Lt then c < 0 else if opc = OP_Le then c \<le> 0
      else if opc = OP_Gt then c > 0 else c \<ge> 0)"

definition compare_op :: "('f, 'r, 'l) venv \<Rightarrow> ('r mem \<Rightarrow> 'r mem \<Rightarrow> int) \<Rightarrow> int \<Rightarrow>
    'f vdbe_op \<Rightarrow> ('f, 'r) vdbe \<Rightarrow> ('f, 'r) op_result" where
  "compare_op E cmp opc op s =
     (case stack s of
        tos # nos # rest \<Rightarrow>
          (let s' = s\<lparr>stack := rest\<rparr>
           in if is_null tos \<or> is_null nos then
                (if p2 op \<noteq> 0 then ok (if p1 op \<noteq> 0 then jump op s' else s')
                 else ok (s'\<lparr>stack := null_mem (fp E) # rest\<rparr>))
              else
                (let c = cmp_test opc (cmp tos nos)
                 in if p2 op \<noteq> 0 then ok (if c then jump op s' else s')
                    else ok (s'\<lparr>stack := int_mem (fp E) (if c then 1 else 0) # rest\<rparr>)))
      | _ \<Rightarrow> None)"

definition op_compare :: "('f, 'r, 'l) venv \<Rightarrow> 'f vdbe_op \<Rightarrow> ('f, 'r) vdbe \<Rightarrow> ('f, 'r) op_result" where
  "op_compare E op s = compare_op E (cmp_values (fp E)) (opcode op) op s"

definition op_StrCompare :: "('f, 'r, 'l) venv \<Rightarrow> 'f vdbe_op \<Rightarrow> ('f, 'r) vdbe \<Rightarrow> ('f, 'r) op_result" where
  "op_StrCompare E op s = compare_op E (cmp_text (fp E)) (opcode op - 6) op s"

section \<open>Logic\<close>

definition and_logic :: "nat list" where "and_logic = [0, 1, 2, 1, 1, 1, 2, 1, 2]"
definition or_logic :: "nat list" where "or_logic = [0, 0, 0, 0, 1, 2, 0, 2, 2]"

text \<open>0 is true, 1 is false and 2 is unknown.\<close>

definition truth_code :: "('r, 'l) fpu \<Rightarrow> 'r mem \<Rightarrow> nat" where
  "truth_code F m = (if is_null m then 2 else if mi (entity_to_int F m) = 0 then 1 else 0)"

definition op_logic :: "('f, 'r, 'l) venv \<Rightarrow> 'f vdbe_op \<Rightarrow> ('f, 'r) vdbe \<Rightarrow> ('f, 'r) op_result" where
  "op_logic E op s =
     (case stack s of
        tos # nos # rest \<Rightarrow>
          (let v1 = truth_code (fp E) tos; v2 = truth_code (fp E) nos;
               v = (if opcode op = OP_And then and_logic else or_logic) ! (v1 * 3 + v2)
           in ok (s\<lparr>stack := (if v = 2 then null_mem (fp E)
                               else int_mem (fp E) (if v = 0 then 1 else 0)) # rest\<rparr>))
      | _ \<Rightarrow> None)"

definition sign_op :: "('r, 'l) fpu \<Rightarrow> bool \<Rightarrow> 'r mem \<Rightarrow> 'r mem" where
  "sign_op F negate m =
     (if MEM_Real \<in> mflags m then
        m\<lparr>mr := (if negate \<or> flt F (mr m) (fzero F) then fneg F (mr m) else mr m), mflags := {MEM_Real}\<rparr>
      else if MEM_Int \<in> mflags m then
        m\<lparr>mi := (if negate \<or> sint (mi m) < 0 then - mi m else mi m), mflags := {MEM_Int}\<rparr>
      else if is_null m then m
      else (let m = entity_to_real F m
            in m\<lparr>mr := (if negate \<or> flt F (mr m) (fzero F) then fneg F (mr m) else mr m),
                 mflags := {MEM_Real}\<rparr>))"

definition op_sign :: "('f, 'r, 'l) venv \<Rightarrow> 'f vdbe_op \<Rightarrow> ('f, 'r) vdbe \<Rightarrow> ('f, 'r) op_result" where
  "op_sign E op s =
     (case stack s of
        tos # rest \<Rightarrow> ok (s\<lparr>stack := sign_op (fp E) (opcode op = OP_Negative) tos # rest\<rparr>)
      | _ \<Rightarrow> None)"

definition op_Not :: "('f, 'r, 'l) venv \<Rightarrow> 'f vdbe_op \<Rightarrow> ('f, 'r) vdbe \<Rightarrow> ('f, 'r) op_result" where
  "op_Not E op s =
     (case stack s of
        tos # rest \<Rightarrow>
          (if is_null tos then ok s
           else (let tos = entity_to_int (fp E) tos
                 in do { check E (mflags tos = {MEM_Int});
                         ok (s\<lparr>stack := tos\<lparr>mi := (if mi tos = 0 then 1 else 0)\<rparr> # rest\<rparr>) }))
      | _ \<Rightarrow> None)"

definition op_BitNot :: "('f, 'r, 'l) venv \<Rightarrow> 'f vdbe_op \<Rightarrow> ('f, 'r) vdbe \<Rightarrow> ('f, 'r) op_result" where
  "op_BitNot E op s =
     (case stack s of
        tos # rest \<Rightarrow>
          (if is_null tos then ok s
           else (let tos = entity_to_int (fp E) tos
                 in do { check E (mflags tos = {MEM_Int});
                         ok (s\<lparr>stack := tos\<lparr>mi := NOT (mi tos)\<rparr> # rest\<rparr>) }))
      | _ \<Rightarrow> None)"

definition op_If :: "('f, 'r, 'l) venv \<Rightarrow> 'f vdbe_op \<Rightarrow> ('f, 'r) vdbe \<Rightarrow> ('f, 'r) op_result" where
  "op_If E op s =
     (case stack s of
        tos # rest \<Rightarrow>
          (let c = (if is_null tos then p1 op \<noteq> 0
                    else if opcode op = OP_IfNot then mi (entity_to_int (fp E) tos) = 0
                    else mi (entity_to_int (fp E) tos) \<noteq> 0);
               s' = s\<lparr>stack := rest\<rparr>
           in do { check E (is_null tos \<longrightarrow> MEM_Dyn \<notin> mflags tos);
                   check E (\<not> is_null tos \<longrightarrow> MEM_Dyn \<notin> mflags (entity_to_int (fp E) tos));
                   ok (if c then jump op s' else s') })
      | _ \<Rightarrow> None)"

definition op_IsNull :: "'f vdbe_op \<Rightarrow> ('f, 'r) vdbe \<Rightarrow> ('f, 'r) op_result" where
  "op_IsNull op s =
     (let n = nat \<bar>p1 op\<bar>
      in if n > length (stack s) then None
         else (let s' = (if list_ex is_null (take n (stack s)) then jump op s else s)
               in if p1 op > 0 then next_op (pop_stack (int n) s') else ok s'))"

definition op_NotNull :: "'f vdbe_op \<Rightarrow> ('f, 'r) vdbe \<Rightarrow> ('f, 'r) op_result" where
  "op_NotNull op s =
     (let n = nat \<bar>p1 op\<bar>
      in if n > length (stack s) then None
         else (let s' = (if \<not> list_ex is_null (take n (stack s)) then jump op s else s)
               in if p1 op > 0 then next_op (pop_stack (int n) s') else ok s'))"

end
