(* ===== verification/VdbeStore.thy ===== *)
theory VdbeStore
  imports Vdbe
begin

text \<open>
  The instructions of \<^verbatim>\<open>src/vdbe.c\<close> that work on the machine's own stores: data records, the lists
  of record numbers, the sorter and the memory cells.
\<close>

section \<open>Data records\<close>

text \<open>\<^verbatim>\<open>addr & 0xff\<close> and the higher bytes, for an offset of one to three bytes.\<close>

definition le_bytes :: "nat \<Rightarrow> int \<Rightarrow> string" where
  "le_bytes w a = map (\<lambda>k. char_of (nat (a div 256 ^ k mod 256))) [0..<w]"

definition idx_width :: "nat \<Rightarrow> nat \<Rightarrow> nat" where
  "idx_width nByte nField =
     (if nByte + nField + 1 < 256 then 1 else if nByte + 2 * nField + 2 < 65536 then 2 else 3)"

fun field_offsets :: "int \<Rightarrow> string option list \<Rightarrow> int list" where
  "field_offsets a [] = [a]"
| "field_offsets a (f # fs) =
     a # field_offsets (a + (case f of None \<Rightarrow> 0 | Some d \<Rightarrow> int (length d))) fs"

text \<open>A record of the given fields; \<open>add\<close> is the operand that asks for a counter in records with a
  NULL, and \<open>uniq\<close> the bytes of the counter.\<close>

definition make_record :: "int \<Rightarrow> string \<Rightarrow> string option list \<Rightarrow> string" where
  "make_record add uniq flds =
     (let nField = length flds;
          addUnique = (if None \<in> set flds then add else 0);
          datas = map (\<lambda>f. case f of None \<Rightarrow> [] | Some d \<Rightarrow> d) flds;
          nByte = length (concat datas) + (if addUnique \<noteq> 0 then length uniq else 0);
          w = idx_width nByte nField;
          start = int (w * (nField + 1)) + addUnique * int (length uniq)
      in concat (map (le_bytes w) (field_offsets start flds))
         @ (if addUnique \<noteq> 0 then uniq else []) @ concat datas)"

definition op_MakeRecord :: "('f, 'r, 'l) venv \<Rightarrow> 'f vdbe_op \<Rightarrow> ('f, 'r) vdbe \<Rightarrow> ('f, 'r) op_result" where
  "op_MakeRecord E op s =
     (let n = nat (p1 op)
      in if p1 op < 0 \<or> n > length (stack s) then None
         else
           (let s = stringify_top E n s;
                recs = rev (take n (stack s));
                flds = map (\<lambda>m. if is_null m then None else Some (mz m)) recs;
                z = make_record (p2 op) (int_to_mem (host_le E) (uniqueCnt s)) flds;
                s = (if None \<in> set flds \<and> p2 op \<noteq> 0 then s\<lparr>uniqueCnt := uniqueCnt s + 1\<rparr> else s)
            in do { s \<leftarrow> pop_stack (p1 op) s;
                    next_op (push (str_mem (fp E) (if length z \<le> NBFS then MEM_Short else MEM_Dyn) z) s) }))"

text \<open>The value of a column of a record: the outer \<open>None\<close> is a read past the record.\<close>

datatype column = Corrupt | Null_column | Column_bytes string

definition le_value :: "string \<Rightarrow> int" where
  "le_value bs = int (foldr (\<lambda>c v. char_code c + 256 * v) bs 0)"

definition payload_width :: "nat \<Rightarrow> nat" where
  "payload_width n = (if n < 256 then 1 else if n < 65536 then 2 else 3)"

definition record_column :: "string \<Rightarrow> int \<Rightarrow> column option" where
  "record_column zRec i =
     (let n = length zRec; w = payload_width n
      in if n = 0 then Some Null_column
         else if int n < int w * (i + 1) then Some Corrupt
         else if i < 0 \<or> w * nat i + w * 2 > n then None
         else
           (let hdr = drop (w * nat i) zRec;
                offset = le_value (take w hdr);
                fin = le_value (take w (drop w hdr));
                amt = fin - offset
            in Some (if amt < 0 \<or> offset < 0 \<or> fin > int n then Corrupt
                     else if amt = 0 then Null_column
                     else Column_bytes (take (nat amt) (drop (nat offset) zRec)))))"

text \<open>A column of a record that lies on the stack; the other columns are read through a cursor.\<close>

definition op_Column :: "('f, 'r, 'l) venv \<Rightarrow> 'f vdbe_op \<Rightarrow> ('f, 'r) vdbe \<Rightarrow> ('f, 'r) op_result" where
  "op_Column E op s =
     (if p1 op \<ge> 0 then (case storage_op E op s of None \<Rightarrow> None | Some (r, s) \<Rightarrow> Some (Break r s))
      else if nat (-1 - p1 op) \<ge> length (stack s) then None
      else
        (let m = stack s ! nat (-1 - p1 op)
         in if MEM_Str \<notin> mflags m then None
            else case record_column (mz m) (p2 op) of
                   None \<Rightarrow> None
                 | Some Corrupt \<Rightarrow> do { s \<leftarrow> push (mem0 (fp E)) s; Some (Abort DBSQL_CORRUPT s) }
                 | Some Null_column \<Rightarrow> next_op (push (null_mem (fp E)) s)
                 | Some (Column_bytes z) \<Rightarrow> next_op (push (str_mem (fp E) MEM_Ephem z) s)))"

definition op_IncrKey :: "('f, 'r, 'l) venv \<Rightarrow> 'f vdbe_op \<Rightarrow> ('f, 'r) vdbe \<Rightarrow> ('f, 'r) op_result" where
  "op_IncrKey E op s =
     (case stack s of
        tos # rest \<Rightarrow>
          do { check E (MEM_Dyn \<in> mflags tos \<or> MEM_Short \<in> mflags tos);
               if mz tos = [] then None
               else ok (s\<lparr>stack := tos\<lparr>mz := butlast (mz tos) @ [char_of (char_code (last (mz tos)) + 1)]\<rparr> # rest\<rparr>) }
      | _ \<Rightarrow> None)"

text \<open>Whether one of the first fields of an index key is NULL.\<close>

function key_has_null :: "string \<Rightarrow> nat \<Rightarrow> bool" where
  "key_has_null z i =
     (if z = [] \<or> i = 0 then False
      else if hd z = CHR ''a'' then True
      else key_has_null (drop 1 (dropWhile (\<lambda>c. c \<noteq> NUL) z)) (i - 1))"
  by pat_completeness auto
termination
  by (relation "measure snd") auto

declare key_has_null.simps [simp del]

definition op_IdxIsNull :: "'f vdbe_op \<Rightarrow> ('f, 'r) vdbe \<Rightarrow> ('f, 'r) op_result" where
  "op_IdxIsNull op s =
     (case stack s of
        tos # rest \<Rightarrow>
          (if MEM_Str \<notin> mflags tos then None
           else (let s' = s\<lparr>stack := rest\<rparr>
                 in ok (if key_has_null (mz tos) (nat (p1 op)) then jump op s' else s')))
      | _ \<Rightarrow> None)"

section \<open>Lists of record numbers\<close>

definition new_keylist :: keylist where
  "new_keylist = \<lparr>nKey = 1000, nUsed = 0, nRead = 0, aKey = replicate 1000 0\<rparr>"

definition keylist_write :: "i32 \<Rightarrow> keylist list \<Rightarrow> keylist list" where
  "keylist_write i ks =
     (let ks = (case ks of [] \<Rightarrow> [new_keylist]
                | k # _ \<Rightarrow> if nUsed k \<ge> nKey k then new_keylist # ks else ks);
          k = hd ks
      in k\<lparr>aKey := (aKey k)[nUsed k := i], nUsed := nUsed k + 1\<rparr> # tl ks)"

definition op_ListWrite :: "('f, 'r, 'l) venv \<Rightarrow> 'f vdbe_op \<Rightarrow> ('f, 'r) vdbe \<Rightarrow> ('f, 'r) op_result" where
  "op_ListWrite E op s =
     (case stack s of
        tos # rest \<Rightarrow>
          (let tos = entity_to_int (fp E) tos
           in do { check E (mflags tos = {MEM_Int});
                   ok (s\<lparr>pList := keylist_write (mi tos) (pList s), stack := rest\<rparr>) })
      | _ \<Rightarrow> None)"

definition keylist_read :: "keylist list \<Rightarrow> (i32 \<times> keylist list) option option" where
  "keylist_read ks =
     (case ks of
        [] \<Rightarrow> Some None
      | k # r \<Rightarrow>
          (if nRead k \<ge> nUsed k \<or> nRead k \<ge> nKey k \<or> nRead k \<ge> length (aKey k) then None
           else (let k' = k\<lparr>nRead := nRead k + 1\<rparr>
                 in Some (Some (aKey k ! nRead k, if nRead k' \<ge> nUsed k' then r else k' # r)))))"

definition op_ListRead :: "('f, 'r, 'l) venv \<Rightarrow> 'f vdbe_op \<Rightarrow> ('f, 'r) vdbe \<Rightarrow> ('f, 'r) op_result" where
  "op_ListRead E op s =
     check_interrupt s
       (case keylist_read (pList s) of
          None \<Rightarrow> None
        | Some None \<Rightarrow> ok (jump op s)
        | Some (Some (i, ks)) \<Rightarrow> next_op (push (int_mem (fp E) i) (s\<lparr>pList := ks\<rparr>)))"

definition op_ListReset :: "'f vdbe_op \<Rightarrow> ('f, 'r) vdbe \<Rightarrow> ('f, 'r) op_result" where
  "op_ListReset op s = ok (s\<lparr>pList := []\<rparr>)"

definition op_ListPush :: "'f vdbe_op \<Rightarrow> ('f, 'r) vdbe \<Rightarrow> ('f, 'r) op_result" where
  "op_ListPush op s = ok (s\<lparr>keylistStack := pList s # keylistStack s, pList := []\<rparr>)"

definition op_ListPop :: "'f vdbe_op \<Rightarrow> ('f, 'r) vdbe \<Rightarrow> ('f, 'r) op_result" where
  "op_ListPop op s =
     (case keylistStack s of [] \<Rightarrow> None
      | l # r \<Rightarrow> ok (s\<lparr>pList := l, keylistStack := r\<rparr>))"

section \<open>The sorter\<close>

definition op_SortPut :: "('f, 'r, 'l) venv \<Rightarrow> 'f vdbe_op \<Rightarrow> ('f, 'r) vdbe \<Rightarrow> ('f, 'r) op_result" where
  "op_SortPut E op s =
     (case stack s of
        tos # nos # rest \<Rightarrow>
          (let tos = entity_to_string (fp E) tos; nos = entity_to_string (fp E) nos
           in ok (s\<lparr>pSort := \<lparr>zKey = mz tos, pData = mz nos, pArgs = margs nos\<rparr> # pSort s,
                    stack := rest\<rparr>))
      | _ \<Rightarrow> None)"

text \<open>A callback record: an array of pointers, one more than there are fields, and the texts.\<close>

definition op_SortMakeRec :: "('f, 'r, 'l) venv \<Rightarrow> 'f vdbe_op \<Rightarrow> ('f, 'r) vdbe \<Rightarrow> ('f, 'r) op_result" where
  "op_SortMakeRec E op s =
     (let n = nat (p1 op)
      in if p1 op < 0 \<or> n > length (stack s) then None
         else
           (let s = stringify_top E n s;
                recs = rev (take n (stack s));
                texts = concat (map (\<lambda>m. if is_null m then [] else mz m) recs);
                m = (str_mem (fp E) MEM_Dyn (replicate (8 * (n + 1)) NUL @ texts))\<lparr>margs := map arg_of recs\<rparr>
            in do { s \<leftarrow> pop_stack (p1 op) s; next_op (push m s) }))"

text \<open>The block is allocated for one byte more per text than is written; the rest stays zero.\<close>

definition sort_key :: "char list \<Rightarrow> string option list \<Rightarrow> string" where
  "sort_key ts xs =
     (let key = concat (map2 (\<lambda>t x. case x of None \<Rightarrow> [CHR ''N'', NUL] | Some z \<Rightarrow> t # butlast z @ [NUL]) ts xs)
                @ [NUL];
          nByte = 1 + sum_list (map (\<lambda>x. case x of None \<Rightarrow> 2 | Some z \<Rightarrow> length z + 2) xs)
      in key @ replicate (nByte - length key) NUL)"

definition op_SortMakeKey :: "('f, 'r, 'l) venv \<Rightarrow> 'f vdbe_op \<Rightarrow> ('f, 'r) vdbe \<Rightarrow> ('f, 'r) op_result" where
  "op_SortMakeKey E op s =
     (case p3 op of
        Some (P3_text ts) \<Rightarrow>
          (let n = length ts
           in if n > length (stack s) then None
              else
                (let s = stringify_top E n s;
                     recs = rev (take n (stack s));
                     z = sort_key ts (map (\<lambda>m. if is_null m then None else Some (mz m)) recs)
                 in do { s \<leftarrow> pop_stack (int n) s;
                         next_op (push (str_mem (fp E) MEM_Dyn z) s) }))
      | _ \<Rightarrow> None)"

definition op_Sort :: "('f, 'r, 'l) venv \<Rightarrow> 'f vdbe_op \<Rightarrow> ('f, 'r) vdbe \<Rightarrow> ('f, 'r) op_result" where
  "op_Sort E op s = ok (s\<lparr>pSort := op_Sort_list (fp E) (pSort s)\<rparr>)"

definition op_SortNext :: "('f, 'r, 'l) venv \<Rightarrow> 'f vdbe_op \<Rightarrow> ('f, 'r) vdbe \<Rightarrow> ('f, 'r) op_result" where
  "op_SortNext E op s =
     check_interrupt s
       (case pSort s of
          [] \<Rightarrow> ok (jump op s)
        | e # r \<Rightarrow> next_op (push ((str_mem (fp E) MEM_Dyn (pData e))\<lparr>margs := pArgs e\<rparr>) (s\<lparr>pSort := r\<rparr>)))"

definition op_SortCallback :: "('f, 'r, 'l) venv \<Rightarrow> 'f vdbe_op \<Rightarrow> ('f, 'r) vdbe \<Rightarrow> ('f, 'r) op_result" where
  "op_SortCallback E op s =
     (case stack s of
        tos # rest \<Rightarrow>
          do { check E (MEM_Str \<in> mflags tos);
               case xCallback E of
                 None \<Rightarrow>
                   Some (Return DBSQL_ROW
                     (s\<lparr>pc := lpc s + 1, azResColumn := margs tos, nResColumn := p1 op, popStack := 1,
                        rows := rows s @ [(p1 op, Some (margs tos), azColName s)]\<rparr>))
               | Some cb \<Rightarrow>
                   (case call_back cb (p1 op, Some (margs tos), azColName s) s of
                      Inr s \<Rightarrow> Some (Abort DBSQL_MISUSE s)
                    | Inl (r, s) \<Rightarrow> Some (Break r (s\<lparr>nCallback := nCallback s + 1, stack := rest\<rparr>))) }
      | _ \<Rightarrow> None)"

definition op_SortReset :: "'f vdbe_op \<Rightarrow> ('f, 'r) vdbe \<Rightarrow> ('f, 'r) op_result" where
  "op_SortReset op s = ok (s\<lparr>pSort := []\<rparr>)"

section \<open>Memory cells\<close>

text \<open>Writing past the end grows the array to five cells more than needed; new cells have no type.\<close>

definition grow_mem :: "('r, 'l) fpu \<Rightarrow> nat \<Rightarrow> 'r mem list \<Rightarrow> 'r mem list" where
  "grow_mem F i ms =
     (if i \<ge> length ms then ms @ replicate (i + 5 - length ms) (mem0 F) else ms)"

definition op_MemStore :: "('f, 'r, 'l) venv \<Rightarrow> 'f vdbe_op \<Rightarrow> ('f, 'r) vdbe \<Rightarrow> ('f, 'r) op_result" where
  "op_MemStore E op s =
     (case stack s of
        tos # rest \<Rightarrow>
          (if p1 op < 0 then None
           else
             (let i = nat (p1 op); m = entity_ephem_to_dyn tos
              in ok (s\<lparr>aMem := (grow_mem (fp E) i (aMem s))[i := m],
                       stack := (if p2 op \<noteq> 0 then rest else m # rest)\<rparr>)))
      | _ \<Rightarrow> None)"

definition op_MemLoad :: "'f vdbe_op \<Rightarrow> ('f, 'r) vdbe \<Rightarrow> ('f, 'r) op_result" where
  "op_MemLoad op s =
     (if 0 \<le> p1 op \<and> p1 op < int (length (aMem s))
      then (let m = aMem s ! nat (p1 op)
            in next_op (push
                 (if MEM_Str \<in> mflags m
                  then m\<lparr>mflags := insert MEM_Ephem (mflags m) - {MEM_Dyn, MEM_Static, MEM_Short}\<rparr>
                  else m) s))
      else None)"

definition op_MemIncr :: "('f, 'r, 'l) venv \<Rightarrow> 'f vdbe_op \<Rightarrow> ('f, 'r) vdbe \<Rightarrow> ('f, 'r) op_result" where
  "op_MemIncr E op s =
     (if 0 \<le> p1 op \<and> p1 op < int (length (aMem s))
      then (let m = aMem s ! nat (p1 op); v = mi m + 1;
                s' = s\<lparr>aMem := (aMem s)[nat (p1 op) := m\<lparr>mi := v\<rparr>]\<rparr>
            in do { check E (mflags m = {MEM_Int});
                    ok (if p2 op > 0 \<and> sint v > 0 then jump op s' else s') })
      else None)"

end
