(* ===== verification/Records.thy ===== *)
theory Records
  imports VdbeStore
begin

text \<open>
  The record format: what MakeRecord writes, Column reads back.  The format is documented in a
  comment of MakeRecord as private to the two instructions, so the round trip is its
  specification.
\<close>

section \<open>Offsets\<close>

definition field_len :: "string option \<Rightarrow> nat" where
  "field_len f = (case f of None \<Rightarrow> 0 | Some d \<Rightarrow> length d)"

definition field_data :: "string option \<Rightarrow> string" where
  "field_data f = (case f of None \<Rightarrow> [] | Some d \<Rightarrow> d)"

lemma length_field_data [simp]: "length (field_data f) = field_len f"
  by (cases f) (simp_all add: field_data_def field_len_def)

lemma length_offsets [simp]: "length (field_offsets a fs) = Suc (length fs)"
  by (induction fs arbitrary: a) auto

lemma nth_offsets:
  "i \<le> length fs \<Longrightarrow> field_offsets a fs ! i = a + int (sum_list (map field_len (take i fs)))"
proof (induction fs arbitrary: a i)
  case (Cons f fs)
  then show ?case
    by (cases i) (auto simp: field_len_def split: option.splits)
qed simp

lemma length_le_bytes [simp]: "length (le_bytes w a) = w"
  by (simp add: le_bytes_def)

lemma concat_slice:
  "(\<And>x. length (f x) = w) \<Longrightarrow> i < length xs \<Longrightarrow> take w (drop (w * i) (concat (map f xs) @ r)) = f (xs ! i)"
proof (induction xs arbitrary: i)
  case (Cons x xs)
  show ?case
  proof (cases i)
    case 0
    then show ?thesis using Cons.prems by simp
  next
    case (Suc j)
    then have "drop (w * i) (concat (map f (x # xs)) @ r) = drop (w * j) (concat (map f xs) @ r)"
      using Cons.prems(1) by simp
    then show ?thesis using Cons Suc by simp
  qed
qed simp

lemma length_concat_fixed: "(\<And>x. length (f x) = w) \<Longrightarrow> length (concat (map f xs)) = w * length xs"
  by (induction xs) auto

lemma data_slice:
  "i < length fs \<Longrightarrow>
    take (field_len (fs ! i)) (drop (sum_list (map field_len (take i fs))) (concat (map field_data fs))) =
    field_data (fs ! i)"
proof (induction fs arbitrary: i)
  case (Cons f fs)
  then show ?case by (cases i) (auto simp: drop_all)
qed simp

section \<open>Little-endian numbers\<close>

lemma le_value_simps [simp]:
  "le_value [] = 0" "le_value (c # bs) = int (char_code c) + 256 * le_value bs"
  by (simp_all add: le_value_def)

lemma code_of_byte: "int (char_code (char_of (nat (a mod 256)))) = a mod 256"
proof -
  have "0 \<le> a mod 256" "a mod 256 < 256" by simp_all
  then have "nat (a mod 256) mod 256 = nat (a mod 256)" by (simp add: nat_less_iff)
  then show ?thesis by (simp add: char_code_def of_char_of)
qed

lemma le_bytes_Suc: "le_bytes (Suc w) a = char_of (nat (a mod 256)) # le_bytes w (a div 256)"
proof -
  have "[0..<Suc w] = 0 # map Suc [0..<w]" by (simp add: upt_conv_Cons map_Suc_upt del: upt_Suc)
  then show ?thesis by (simp add: le_bytes_def zdiv_zmult2_eq comp_def del: upt_Suc)
qed

lemma le_value_bytes: "0 \<le> a \<Longrightarrow> a < 256 ^ w \<Longrightarrow> le_value (le_bytes w a) = a"
proof (induction w arbitrary: a)
  case 0
  then show ?case by (simp add: le_bytes_def)
next
  case (Suc w)
  then have "0 \<le> a div 256" "a div 256 < 256 ^ w" by (simp_all add: pos_imp_zdiv_nonneg_iff div_less_iff_less_mult mult.commute)
  with Suc.IH show ?case by (simp add: le_bytes_Suc code_of_byte)
qed

section \<open>The layout of a record\<close>

lemma width_agrees:
  assumes "w = idx_width nByte n"
  shows "payload_width (nByte + w * (n + 1)) = w"
  using assms by (auto simp: idx_width_def payload_width_def)

lemma width_bound:
  assumes "w = payload_width n" and "n < 2 ^ 24"
  shows "int n < 256 ^ w"
  using assms by (auto simp: payload_width_def)

text \<open>The parts of a record: header, counter and data.\<close>

lemma make_record_layout:
  assumes "add = 0 \<or> add = 1"
  obtains w U where
    "make_record add uniq flds =
       concat (map (le_bytes w) (field_offsets (int (w * (length flds + 1) + length U)) flds))
       @ U @ concat (map field_data flds)"
    and "w = payload_width (length (make_record add uniq flds))"
    and "w \<noteq> 0"
proof -
  define a where "a = (if None \<in> set flds then add else 0)"
  define U where "U = (if a \<noteq> 0 then uniq else [])"
  define nByte where "nByte = length (concat (map field_data flds)) + length U"
  define w where "w = idx_width nByte (length flds)"
  have U: "a * int (length uniq) = int (length U)" using assms by (auto simp: U_def a_def)
  have lenU: "length U = (if a \<noteq> 0 then length uniq else 0)" by (simp add: U_def)
  have fd: "(\<lambda>f. case f of None \<Rightarrow> [] | Some d \<Rightarrow> d) = field_data"
    by (rule ext) (simp add: field_data_def)
  have z: "make_record add uniq flds =
      concat (map (le_bytes w) (field_offsets (int (w * (length flds + 1)) + a * int (length uniq)) flds))
      @ U @ concat (map field_data flds)"
    unfolding make_record_def Let_def fd a_def [symmetric] lenU [symmetric] U_def [symmetric]
      nByte_def [symmetric] w_def [symmetric] by (rule refl)
  have "length (make_record add uniq flds) = nByte + w * (length flds + 1)"
    unfolding z nByte_def by (simp add: length_concat_fixed)
  then have "w = payload_width (length (make_record add uniq flds))"
    by (simp only: width_agrees [OF w_def])
  moreover have "w \<noteq> 0" by (simp add: w_def idx_width_def)
  ultimately show ?thesis
    using that [of w U] z [unfolded U, folded of_nat_add] by blast
qed

lemma sum_take_nth:
  "i < length fs \<Longrightarrow>
    sum_list (map field_len (take (Suc i) fs)) = sum_list (map field_len (take i fs)) + field_len (fs ! i)"
  by (simp add: take_Suc_conv_app_nth)

lemma sum_take_le: "sum_list (map field_len (take i fs)) \<le> length (concat (map field_data fs))"
proof (induction fs arbitrary: i)
  case (Cons f fs)
  show ?case using Cons.IH by (cases i) auto
qed simp

lemma record_column_eval:
  assumes "w = payload_width (length z)" and "w \<noteq> 0" and "w * i + w * 2 \<le> length z"
    and "le_value (take w (drop (w * i) z)) = int b" and "le_value (take w (drop w (drop (w * i) z))) = int e"
    and "b \<le> e" and "e \<le> length z"
  shows "record_column z (int i) = Some (if e = b then Null_column else Column_bytes (take (e - b) (drop b z)))"
proof -
  have "int (w * i + w * 2) \<le> int (length z)" using assms(3) by (simp only: of_nat_le_iff)
  then have "\<not> int (length z) < int w * (int i + 1)"
    by (simp add: algebra_simps)
  moreover have "length z \<noteq> 0" using assms(2,3) by auto
  ultimately show ?thesis
    using assms(3-7) unfolding record_column_def Let_def assms(1) [symmetric]
    by (auto simp: nat_diff_distrib)
qed

text \<open>C11: reading column i of a record gives back the i-th field that was put into it, NULL as NULL
  and every text with its terminator, for records of up to 16 megabytes and whether or not the
  uniqueness counter is included.\<close>

theorem record_roundtrip:
  assumes "i < length flds" and "add = 0 \<or> add = 1" and "\<forall>d. Some d \<in> set flds \<longrightarrow> d \<noteq> []"
    and "length (make_record add uniq flds) < 2 ^ 24"
  shows "record_column (make_record add uniq flds) (int i) =
    Some (case flds ! i of None \<Rightarrow> Null_column | Some d \<Rightarrow> Column_bytes d)"
proof -
  let ?z = "make_record add uniq flds" and ?n = "length flds" and ?D = "concat (map field_data flds)"
  from make_record_layout [OF assms(2)] obtain w U where
    z: "?z = concat (map (le_bytes w) (field_offsets (int (w * (?n + 1) + length U)) flds)) @ U @ ?D"
    and w: "w = payload_width (length ?z)" and w0: "w \<noteq> 0" by blast
  define base where "base = w * (?n + 1) + length U"
  define S where "S k = sum_list (map field_len (take k flds))" for k
  have hdr: "take w (drop (w * k) ?z) = le_bytes w (int (base + S k))" if "k \<le> ?n" for k
    using concat_slice [of "le_bytes w" w k "field_offsets (int base) flds" "U @ ?D"] that
    unfolding z base_def [symmetric] by (simp add: nth_offsets S_def)
  have len: "length ?z = base + length ?D"
    by (subst z) (simp add: length_concat_fixed base_def)
  have bnd: "base + S k \<le> length ?z" for k using sum_take_le [of k flds] len by (simp add: S_def)
  have val: "le_value (le_bytes w (int (base + S k))) = int (base + S k)" for k
  proof (rule le_value_bytes)
    have "int (base + S k) \<le> int (length ?z)" using bnd [of k] by (simp only: of_nat_le_iff)
    then show "int (base + S k) < 256 ^ w" using width_bound [OF w assms(4)] by (rule le_less_trans)
  qed simp
  have off: "le_value (take w (drop (w * i) ?z)) = int (base + S i)"
    and fin: "le_value (take w (drop w (drop (w * i) ?z))) = int (base + S (Suc i))"
    using hdr [of i] hdr [of "Suc i"] assms(1) val by (simp_all add: algebra_simps)
  have S: "S (Suc i) = S i + field_len (flds ! i)" unfolding S_def by (rule sum_take_nth [OF assms(1)])
  have room: "w * i + w * 2 \<le> base"
    using assms(1) mult_le_mono2 [of "i + 2" "?n + 1" w] by (simp add: base_def algebra_simps)
  have dat: "take (field_len (flds ! i)) (drop (base + S i) ?z) = field_data (flds ! i)"
  proof -
    have "drop base ?z = ?D" by (subst z) (simp add: length_concat_fixed base_def)
    then have "drop (base + S i) ?z = drop (S i) ?D" by (metis add.commute drop_drop)
    then show ?thesis using data_slice [OF assms(1)] by (simp add: S_def)
  qed
  have "record_column ?z (int i) =
      Some (if base + S (Suc i) = base + S i then Null_column
            else Column_bytes (take (base + S (Suc i) - (base + S i)) (drop (base + S i) ?z)))"
    using room len S by (intro record_column_eval [OF w w0 _ off fin _ bnd]) simp_all
  then have "record_column ?z (int i) =
      Some (if field_len (flds ! i) = 0 then Null_column else Column_bytes (field_data (flds ! i)))"
    using dat S by simp
  then show ?thesis
    using assms(1,3) nth_mem [OF assms(1)]
    by (cases "flds ! i") (auto simp: field_len_def field_data_def)
qed

theorem record_roundtrip_witness:
  "record_column (make_record 0 [] [Some [CHR ''x'', NUL], None]) 0 = Some (Column_bytes [CHR ''x'', NUL])"
  using record_roundtrip [of 0 "[Some [CHR ''x'', NUL], None]" 0 "[]"]
  by (simp add: make_record_def idx_width_def)

end
