(* ===== verification/VdbeAgg.thy ===== *)
theory VdbeAgg
  imports VdbeStore
begin

text \<open>
  The instructions of \<^verbatim>\<open>src/vdbe.c\<close> that work on hash tables: the aggregates of GROUP BY and the
  sets behind IN, with \<^verbatim>\<open>__vdbe_agg_reset\<close> of \<^verbatim>\<open>src/vdbe_method.c\<close>.
\<close>

section \<open>Aggregates\<close>

text \<open>What the finalizers compute when the aggregates are thrown away is not used.\<close>

definition agg_reset :: "('f, 'r) agg \<Rightarrow> ('f, 'r) agg option" where
  "agg_reset A =
     do { H \<leftarrow> hash_clear (agg_hash A);
          Some (A\<lparr>agg_hash := H, apFunc := [], pCurrent := None, pSearch := None, agg_nMem := 0, agg_elems := []\<rparr>) }"

definition null_cell :: "('r, 'l) fpu \<Rightarrow> 'r mem" where
  "null_cell F = (mem0 F)\<lparr>mflags := {MEM_Null}\<rparr>"

definition next_alloc :: "('f, 'r) vdbe \<Rightarrow> alloc" where
  "next_alloc s = \<lparr>a_elem = Some (brk s), a_key = True, a_table = True\<rparr>"

definition agg_insert :: "('f, 'r, 'l) venv \<Rightarrow> string \<Rightarrow> ('f, 'r) vdbe \<Rightarrow> ('f, 'r) vdbe option" where
  "agg_insert E key s =
     (let A = agg s;
          i = length (agg_elems A);
          e = \<lparr>agg_key = key, agg_mem = replicate (nat (agg_nMem A)) (null_cell (fp E))\<rparr>
      in do { (old, H) \<leftarrow> hash_insert (next_alloc s) (agg_hash A) key (of_nat (length key)) (Some i);
              let s = s\<lparr>brk := brk s + 1\<rparr>;
              if old \<noteq> None then
                do { check E (old = Some i); Some (s\<lparr>agg := A\<lparr>agg_hash := H\<rparr>\<rparr>) }
              else Some (s\<lparr>agg := A\<lparr>agg_hash := H, agg_elems := agg_elems A @ [e], pCurrent := Some i\<rparr>\<rparr>) })"

text \<open>The element in focus: the current one, the first one, or a new one with the empty key.\<close>

definition agg_in_focus :: "('f, 'r, 'l) venv \<Rightarrow> ('f, 'r) vdbe \<Rightarrow> (nat \<times> ('f, 'r) vdbe) option" where
  "agg_in_focus E s =
     (case pCurrent (agg s) of
        Some i \<Rightarrow> Some (i, s)
      | None \<Rightarrow>
          do { s \<leftarrow> (if hfirst (agg_hash (agg s)) = None then agg_insert E [NUL] s else Some s);
               a \<leftarrow> hfirst (agg_hash (agg s));
               e \<leftarrow> heap (agg_hash (agg s)) a;
               i \<leftarrow> edata e;
               Some (i, s) })"

definition agg_cell :: "('f, 'r) vdbe \<Rightarrow> nat \<Rightarrow> int \<Rightarrow> 'r mem option" where
  "agg_cell s i k =
     (if i < length (agg_elems (agg s)) \<and> 0 \<le> k \<and> k < agg_nMem (agg s)
         \<and> nat k < length (agg_mem (agg_elems (agg s) ! i))
      then Some (agg_mem (agg_elems (agg s) ! i) ! nat k) else None)"

definition set_cell :: "nat \<Rightarrow> int \<Rightarrow> 'r mem \<Rightarrow> ('f, 'r) vdbe \<Rightarrow> ('f, 'r) vdbe" where
  "set_cell i k m s =
     (let es = agg_elems (agg s); e = es ! i
      in s\<lparr>agg := (agg s)\<lparr>agg_elems := es[i := e\<lparr>agg_mem := (agg_mem e)[nat k := m]\<rparr>]\<rparr>\<rparr>)"

definition op_AggReset :: "('f, 'r, 'l) venv \<Rightarrow> 'f vdbe_op \<Rightarrow> ('f, 'r) vdbe \<Rightarrow> ('f, 'r) op_result" where
  "op_AggReset E op s =
     do { A \<leftarrow> agg_reset (agg s);
          ok (s\<lparr>agg := A\<lparr>agg_nMem := p2 op, apFunc := replicate (nat (p2 op)) None\<rparr>\<rparr>) }"

definition op_AggInit :: "'f vdbe_op \<Rightarrow> ('f, 'r) vdbe \<Rightarrow> ('f, 'r) op_result" where
  "op_AggInit op s =
     (if 0 \<le> p2 op \<and> p2 op < agg_nMem (agg s) \<and> nat (p2 op) < length (apFunc (agg s)) then
        case p3 op of
          Some (P3_text t) \<Rightarrow> None
        | Some (P3_object f) \<Rightarrow> ok (s\<lparr>agg := (agg s)\<lparr>apFunc := (apFunc (agg s))[nat (p2 op) := Some f]\<rparr>\<rparr>)
        | None \<Rightarrow> ok (s\<lparr>agg := (agg s)\<lparr>apFunc := (apFunc (agg s))[nat (p2 op) := None]\<rparr>\<rparr>)
      else None)"

definition op_AggFunc :: "('f, 'r, 'l) venv \<Rightarrow> 'f vdbe_op \<Rightarrow> ('f, 'r) vdbe \<Rightarrow> ('f, 'r) op_result" where
  "op_AggFunc E op s =
     (case stack s of
        tos # rest \<Rightarrow>
          (if p2 op < 0 \<or> nat (p2 op) > length rest then None
           else
             do { check E (mflags tos = {MEM_Int});
                  let n = nat (p2 op);
                  let az = map arg_of (map (stringify (fp E)) (rev (take n rest)));
                  i \<leftarrow> pCurrent (agg s);
                  m \<leftarrow> agg_cell s i (sint (mi tos));
                  f \<leftarrow> (case p3 op of Some (P3_object f) \<Rightarrow> Some f | _ \<Rightarrow> None);
                  let cnt = mi m + 1;
                  let (ctx, isError) = xStep E f cnt (mz m) az;
                  let s = set_cell i (sint (mi tos)) (m\<lparr>mi := cnt, mz := ctx, mflags := {MEM_AggCtx}\<rparr>) s;
                  Some (Break (if isError then DBSQL_ERROR else DBSQL_SUCCESS) (s\<lparr>stack := drop n rest\<rparr>)) })
      | [] \<Rightarrow> None)"

definition op_AggFocus :: "('f, 'r, 'l) venv \<Rightarrow> 'f vdbe_op \<Rightarrow> ('f, 'r) vdbe \<Rightarrow> ('f, 'r) op_result" where
  "op_AggFocus E op s =
     (case stack s of
        tos # rest \<Rightarrow>
          (let key = mz (entity_as_string (fp E) tos)
           in do { found \<leftarrow> hash_find (agg_hash (agg s)) key (of_nat (length key));
                   case found of
                     Some i \<Rightarrow> ok (jump op (s\<lparr>agg := (agg s)\<lparr>pCurrent := Some i\<rparr>, stack := rest\<rparr>))
                   | None \<Rightarrow> do { s \<leftarrow> agg_insert E key s; ok (s\<lparr>stack := rest\<rparr>) } })
      | [] \<Rightarrow> None)"

definition op_AggSet :: "('f, 'r, 'l) venv \<Rightarrow> 'f vdbe_op \<Rightarrow> ('f, 'r) vdbe \<Rightarrow> ('f, 'r) op_result" where
  "op_AggSet E op s =
     do { (i, s) \<leftarrow> agg_in_focus E s;
          case stack s of
            tos # rest \<Rightarrow>
              do { _ \<leftarrow> agg_cell s i (p2 op);
                   ok ((set_cell i (p2 op) (entity_ephem_to_dyn tos) s)\<lparr>stack := rest\<rparr>) }
          | [] \<Rightarrow> None }"

definition op_AggGet :: "('f, 'r, 'l) venv \<Rightarrow> 'f vdbe_op \<Rightarrow> ('f, 'r) vdbe \<Rightarrow> ('f, 'r) op_result" where
  "op_AggGet E op s =
     do { (i, s) \<leftarrow> agg_in_focus E s;
          m \<leftarrow> agg_cell s i (p2 op);
          next_op (push
            (if MEM_Str \<in> mflags m
             then m\<lparr>mflags := insert MEM_Ephem (mflags m - {MEM_Dyn, MEM_Static, MEM_Short})\<rparr> else m) s) }"

text \<open>Every cell with a function that has a finalizer becomes the result of the finalizer.\<close>

definition finalize_cell :: "('f, 'r, 'l) venv \<Rightarrow> 'f option \<Rightarrow> 'r mem \<Rightarrow> 'r mem" where
  "finalize_cell E f m =
     (case f of None \<Rightarrow> m
      | Some f \<Rightarrow> (case xFinalize E f of None \<Rightarrow> m | Some g \<Rightarrow> g (mi m) (mz m)))"

definition op_AggNext :: "('f, 'r, 'l) venv \<Rightarrow> 'f vdbe_op \<Rightarrow> ('f, 'r) vdbe \<Rightarrow> ('f, 'r) op_result" where
  "op_AggNext E op s =
     check_interrupt s
       (do { let A = agg s;
             nx \<leftarrow> (case pSearch A of
                       None \<Rightarrow> Some (hfirst (agg_hash A))
                     | Some a \<Rightarrow> map_option enext (heap (agg_hash A) a));
             case nx of
               None \<Rightarrow> ok (jump op (s\<lparr>agg := A\<lparr>pSearch := None\<rparr>\<rparr>))
             | Some a \<Rightarrow>
                 do { e \<leftarrow> heap (agg_hash A) a;
                      i \<leftarrow> edata e;
                      if i < length (agg_elems A) \<and> length (agg_mem (agg_elems A ! i)) = length (apFunc A)
                      then
                        (let x = agg_elems A ! i;
                             ms = map2 (finalize_cell E) (apFunc A) (agg_mem x)
                         in ok (s\<lparr>agg := A\<lparr>pSearch := Some a, pCurrent := Some i,
                                            agg_elems := (agg_elems A)[i := x\<lparr>agg_mem := ms\<rparr>]\<rparr>\<rparr>))
                      else None } })"

section \<open>Sets\<close>

text \<open>Sets are created up to the one that is used.\<close>

definition grow_sets :: "nat \<Rightarrow> set_t list \<Rightarrow> set_t list option" where
  "grow_sets i ss =
     (if length ss \<le> i
      then do { H \<leftarrow> hash_init HASH_BINARY True;
                Some (ss @ replicate (i + 1 - length ss) \<lparr>set_hash = H, set_prev = None\<rparr>) }
      else Some ss)"

definition set_add :: "nat \<Rightarrow> string \<Rightarrow> ('f, 'r) vdbe \<Rightarrow> ('f, 'r) vdbe option" where
  "set_add i key s =
     do { (_, H) \<leftarrow> hash_insert (next_alloc s) (set_hash (aSet s ! i)) key (of_nat (length key)) (Some ());
          Some (s\<lparr>aSet := (aSet s)[i := (aSet s ! i)\<lparr>set_hash := H\<rparr>], brk := brk s + 1\<rparr>) }"

definition op_SetInsert :: "('f, 'r, 'l) venv \<Rightarrow> 'f vdbe_op \<Rightarrow> ('f, 'r) vdbe \<Rightarrow> ('f, 'r) op_result" where
  "op_SetInsert E op s =
     (if p1 op < 0 then None
      else
        do { let i = nat (p1 op);
             ss \<leftarrow> grow_sets i (aSet s);
             let s = s\<lparr>aSet := ss\<rparr>;
             case p3 op of
               Some (P3_text t) \<Rightarrow> next_op (set_add i (t @ [NUL]) s)
             | Some (P3_object f) \<Rightarrow> None
             | None \<Rightarrow>
                 (case stack s of
                    tos # rest \<Rightarrow>
                      do { s \<leftarrow> set_add i (mz (entity_as_string (fp E) tos)) s; ok (s\<lparr>stack := rest\<rparr>) }
                  | [] \<Rightarrow> None) })"

text \<open>Whether the value is a member; a set that does not exist is empty.\<close>

definition set_member :: "('f, 'r) vdbe \<Rightarrow> int \<Rightarrow> string \<Rightarrow> bool option" where
  "set_member s i key =
     (if i < 0 \<or> i \<ge> int (length (aSet s)) then Some False
      else map_option (\<lambda>r. r \<noteq> None) (hash_find (set_hash (aSet s ! nat i)) key (of_nat (length key))))"

definition op_SetFound :: "('f, 'r, 'l) venv \<Rightarrow> 'f vdbe_op \<Rightarrow> ('f, 'r) vdbe \<Rightarrow> ('f, 'r) op_result" where
  "op_SetFound E op s =
     (case stack s of
        tos # rest \<Rightarrow>
          do { b \<leftarrow> set_member s (p1 op) (mz (entity_as_string (fp E) tos));
               let s = s\<lparr>stack := rest\<rparr>;
               ok (if b then jump op s else s) }
      | [] \<Rightarrow> None)"

definition op_SetNotFound :: "('f, 'r, 'l) venv \<Rightarrow> 'f vdbe_op \<Rightarrow> ('f, 'r) vdbe \<Rightarrow> ('f, 'r) op_result" where
  "op_SetNotFound E op s =
     (case stack s of
        tos # rest \<Rightarrow>
          do { b \<leftarrow> set_member s (p1 op) (mz (entity_as_string (fp E) tos));
               let s = s\<lparr>stack := rest\<rparr>;
               ok (if \<not> b then jump op s else s) }
      | [] \<Rightarrow> None)"

text \<open>Pushing the member the set is at.\<close>

definition push_member :: "('f, 'r, 'l) venv \<Rightarrow> nat \<Rightarrow> addr \<Rightarrow> ('f, 'r) vdbe \<Rightarrow> ('f, 'r) op_result" where
  "push_member E i a s =
     do { e \<leftarrow> heap (set_hash (aSet s ! i)) a;
          next_op (push (str_mem (fp E) MEM_Ephem (take (nat (sint (elen e))) (ekey e))) s) }"

definition op_SetFirst :: "('f, 'r, 'l) venv \<Rightarrow> 'f vdbe_op \<Rightarrow> ('f, 'r) vdbe \<Rightarrow> ('f, 'r) op_result" where
  "op_SetFirst E op s =
     check_interrupt s
       (if p1 op < 0 \<or> p1 op \<ge> int (length (aSet s)) then ok (jump op s)
        else
          (let i = nat (p1 op); first = hfirst (set_hash (aSet s ! i));
               s = s\<lparr>aSet := (aSet s)[i := (aSet s ! i)\<lparr>set_prev := first\<rparr>]\<rparr>
           in case first of None \<Rightarrow> ok (jump op s) | Some a \<Rightarrow> push_member E i a s))"

definition op_SetNext :: "('f, 'r, 'l) venv \<Rightarrow> 'f vdbe_op \<Rightarrow> ('f, 'r) vdbe \<Rightarrow> ('f, 'r) op_result" where
  "op_SetNext E op s =
     check_interrupt s
       (if p1 op < 0 \<or> p1 op \<ge> int (length (aSet s)) then ok s
        else
          do { let i = nat (p1 op);
               p \<leftarrow> set_prev (aSet s ! i);
               e \<leftarrow> heap (set_hash (aSet s ! i)) p;
               let s = s\<lparr>aSet := (aSet s)[i := (aSet s ! i)\<lparr>set_prev := enext e\<rparr>]\<rparr>;
               case enext e of None \<Rightarrow> ok s | Some a \<Rightarrow> push_member E i a (jump op s) })"

end
