(* ===== verification/Exec.thy ===== *)
theory Exec
  imports VdbeAgg
begin

text \<open>
  \<^verbatim>\<open>__vdbe_exec\<close> of \<^verbatim>\<open>src/vdbe.c\<close>: the dispatch, the loop and the labels at its end, and the life of
  a machine around it: \<^verbatim>\<open>__vdbe_make_ready\<close>, \<^verbatim>\<open>__api_bind\<close>, \<^verbatim>\<open>__api_step\<close>, \<^verbatim>\<open>__vdbe_list\<close>,
  \<^verbatim>\<open>__vdbe_reset\<close> and \<^verbatim>\<open>__vdbe_finalize\<close>.
\<close>

section \<open>Dispatch\<close>

definition stack_op :: "('f, 'r, 'l) venv \<Rightarrow> 'f vdbe_op \<Rightarrow> ('f, 'r) vdbe \<Rightarrow> ('f, 'r) op_result option" where
  "stack_op E op s =
     (let c = opcode op
      in if c = OP_Goto then Some (op_Goto op s)
         else if c = OP_Gosub then Some (op_Gosub op s)
         else if c = OP_Return then Some (op_Return op s)
         else if c = OP_Halt then Some (op_Halt op s)
         else if c = OP_Integer then Some (op_Integer E op s)
         else if c = OP_String then Some (op_String E op s)
         else if c = OP_Variable then Some (op_Variable E op s)
         else if c = OP_Pop then Some (op_Pop op s)
         else if c = OP_Dup then Some (op_Dup op s)
         else if c = OP_Pull then Some (op_Pull op s)
         else if c = OP_Push then Some (op_Push op s)
         else if c = OP_ColumnName then Some (op_ColumnName op s)
         else if c = OP_Callback then Some (op_Callback E op s)
         else if c = OP_NullCallback then Some (op_NullCallback E op s)
         else if c = OP_Concat then Some (op_Concat E op s)
         else if c \<in> {OP_Add, OP_Subtract, OP_Multiply, OP_Divide, OP_Remainder} then Some (op_arith E op s)
         else if c = OP_Function then Some (op_Function E op s)
         else if c \<in> {OP_BitAnd, OP_BitOr, OP_ShiftLeft, OP_ShiftRight} then Some (op_bits E op s)
         else if c = OP_AddImm then Some (op_AddImm E op s)
         else if c = OP_ForceInt then Some (op_ForceInt E op s)
         else if c = OP_MustBeInt then Some (op_MustBeInt E op s)
         else if c \<in> {OP_Eq, OP_Ne, OP_Lt, OP_Le, OP_Gt, OP_Ge} then Some (op_compare E op s)
         else if c \<in> {OP_StrEq, OP_StrNe, OP_StrLt, OP_StrLe, OP_StrGt, OP_StrGe}
         then Some (op_StrCompare E op s)
         else if c = OP_And \<or> c = OP_Or then Some (op_logic E op s)
         else if c = OP_Negative \<or> c = OP_AbsValue then Some (op_sign E op s)
         else if c = OP_Not then Some (op_Not E op s)
         else if c = OP_BitNot then Some (op_BitNot E op s)
         else if c = OP_Noop then Some (ok s)
         else if c = OP_If \<or> c = OP_IfNot then Some (op_If E op s)
         else if c = OP_IsNull then Some (op_IsNull op s)
         else if c = OP_NotNull then Some (op_NotNull op s)
         else None)"

definition store_op :: "('f, 'r, 'l) venv \<Rightarrow> 'f vdbe_op \<Rightarrow> ('f, 'r) vdbe \<Rightarrow> ('f, 'r) op_result option" where
  "store_op E op s =
     (let c = opcode op
      in if c = OP_MakeRecord then Some (op_MakeRecord E op s)
         else if c = OP_IncrKey then Some (op_IncrKey E op s)
         else if c = OP_Column then Some (op_Column E op s)
         else if c = OP_IdxIsNull then Some (op_IdxIsNull op s)
         else if c = OP_ListWrite then Some (op_ListWrite E op s)
         else if c = OP_ListRewind then Some (ok s)
         else if c = OP_ListRead then Some (op_ListRead E op s)
         else if c = OP_ListReset then Some (op_ListReset op s)
         else if c = OP_ListPush then Some (op_ListPush op s)
         else if c = OP_ListPop then Some (op_ListPop op s)
         else if c = OP_SortPut then Some (op_SortPut E op s)
         else if c = OP_SortMakeRec then Some (op_SortMakeRec E op s)
         else if c = OP_SortMakeKey then Some (op_SortMakeKey E op s)
         else if c = OP_Sort then Some (op_Sort E op s)
         else if c = OP_SortNext then Some (op_SortNext E op s)
         else if c = OP_SortCallback then Some (op_SortCallback E op s)
         else if c = OP_SortReset then Some (op_SortReset op s)
         else if c = OP_MemStore then Some (op_MemStore E op s)
         else if c = OP_MemLoad then Some (op_MemLoad op s)
         else if c = OP_MemIncr then Some (op_MemIncr E op s)
         else None)"

definition table_op :: "('f, 'r, 'l) venv \<Rightarrow> 'f vdbe_op \<Rightarrow> ('f, 'r) vdbe \<Rightarrow> ('f, 'r) op_result option" where
  "table_op E op s =
     (let c = opcode op
      in if c = OP_AggReset then Some (op_AggReset E op s)
         else if c = OP_AggInit then Some (op_AggInit op s)
         else if c = OP_AggFunc then Some (op_AggFunc E op s)
         else if c = OP_AggFocus then Some (op_AggFocus E op s)
         else if c = OP_AggSet then Some (op_AggSet E op s)
         else if c = OP_AggGet then Some (op_AggGet E op s)
         else if c = OP_AggNext then Some (op_AggNext E op s)
         else if c = OP_SetInsert then Some (op_SetInsert E op s)
         else if c = OP_SetFound then Some (op_SetFound E op s)
         else if c = OP_SetNotFound then Some (op_SetNotFound E op s)
         else if c = OP_SetFirst then Some (op_SetFirst E op s)
         else if c = OP_SetNext then Some (op_SetNext E op s)
         else None)"

definition unknown_op :: "'f vdbe_op \<Rightarrow> ('f, 'r) vdbe \<Rightarrow> ('f, 'r) op_result" where
  "unknown_op op s =
     Some (Break DBSQL_INTERNAL (set_errmsg [''unknown opcode '', show_int (opcode op)] s))"

definition exec_op :: "('f, 'r, 'l) venv \<Rightarrow> 'f vdbe_op \<Rightarrow> ('f, 'r) vdbe \<Rightarrow> ('f, 'r) op_result" where
  "exec_op E op s =
     (case stack_op E op s of
        Some r \<Rightarrow> r
      | None \<Rightarrow>
          (case store_op E op s of
             Some r \<Rightarrow> r
           | None \<Rightarrow>
               (case table_op E op s of
                  Some r \<Rightarrow> r
                | None \<Rightarrow>
                    (if OP_Goto \<le> opcode op \<and> opcode op \<le> OP_Vacuum
                     then (case storage_op E op s of None \<Rightarrow> None | Some (r, s) \<Rightarrow> Some (Break r s))
                     else unknown_op op s))))"

section \<open>The loop\<close>

datatype 's outcome = Continue 's | Stop int 's

text \<open>The label \<^verbatim>\<open>vdbe_halt\<close> and the labels that lead to it.\<close>

definition vdbe_halt :: "int \<Rightarrow> ('f, 'r) vdbe \<Rightarrow> ('f, 'r) vdbe outcome" where
  "vdbe_halt r s =
     (if r \<noteq> 0 then Stop DBSQL_ERROR (s\<lparr>rc := r, magic := MAGIC_HALT\<rparr>)
      else Stop DBSQL_DONE (s\<lparr>magic := MAGIC_HALT\<rparr>))"

definition abort_due_to_error :: "('f, 'r, 'l) venv \<Rightarrow> int \<Rightarrow> ('f, 'r) vdbe \<Rightarrow> ('f, 'r) vdbe outcome" where
  "abort_due_to_error E r s =
     vdbe_halt r (if zErrMsg s = None then set_errmsg [errtext E r] s else s)"

definition abort_due_to_interrupt :: "('f, 'r, 'l) venv \<Rightarrow> ('f, 'r) vdbe \<Rightarrow> ('f, 'r) vdbe outcome" where
  "abort_due_to_interrupt E s =
     (let r = (if dbmagic (db s) \<noteq> STATUS_BUSY then DBSQL_MISUSE else DBSQL_INTERRUPTED)
      in vdbe_halt r (set_errmsg [errtext E r] (s\<lparr>db := (db s)\<lparr>interrupt := False\<rparr>\<rparr>)))"

text \<open>The sanity check of the top of the stack and the check of the jump destination after an
  instruction, when they are compiled in; then the loop increments the program counter and goes on while the result code is success.\<close>

definition after_switch :: "('f, 'r, 'l) venv \<Rightarrow> int \<Rightarrow> ('f, 'r) vdbe \<Rightarrow> ('f, 'r) vdbe outcome option" where
  "after_switch E r s =
     (if diagnostic E \<and> debug E \<and> stack s \<noteq> [] \<and> \<not> mem_ok (hd (stack s)) then None
      else let bad = debug E \<and> (lpc s < -1 \<or> lpc s \<ge> int (nOp s));
          r = (if bad then DBSQL_INTERNAL else r);
          s = (if bad then set_errmsg [''jump destination out of range''] s else s);
          s = s\<lparr>lpc := lpc s + 1\<rparr>
      in Some (if r = DBSQL_SUCCESS then Continue s else vdbe_halt r s))"

text \<open>The progress callback, asked every \<open>nProgressOps\<close> instructions.\<close>

definition progress :: "('f, 'r, 'l) venv \<Rightarrow> ('f, 'r) vdbe \<Rightarrow> bool \<times> ('f, 'r) vdbe" where
  "progress E s =
     (case xProgress E of
        None \<Rightarrow> (False, s)
      | Some f \<Rightarrow>
          (if nProgressOps E = nProgress s then
             (if f (progressCalls s) then (True, s\<lparr>progressCalls := progressCalls s + 1\<rparr>)
              else (False, s\<lparr>progressCalls := progressCalls s + 1, nProgress := 1\<rparr>))
           else (False, s\<lparr>nProgress := nProgress s + 1\<rparr>)))"

definition vdbe_step :: "('f, 'r, 'l) venv \<Rightarrow> ('f, 'r) vdbe \<Rightarrow> ('f, 'r) vdbe outcome option" where
  "vdbe_step E s =
     (if lpc s < 0 \<or> lpc s \<ge> int (nOp s) \<or> nat (lpc s) \<ge> length (aOp s) then None
      else if diagnostic E \<and> int (length (stack s)) > lpc s + 1 then None
      else
        (case progress E s of
           (True, s) \<Rightarrow> Some (vdbe_halt DBSQL_ABORT (s\<lparr>lpc := lpc s + 1\<rparr>))
         | (False, s) \<Rightarrow>
             (case exec_op E (aOp s ! nat (lpc s)) s of
                None \<Rightarrow> None
              | Some (Break r s) \<Rightarrow> after_switch E r s
              | Some (Return r s) \<Rightarrow> Some (Stop r s)
              | Some (Abort r s) \<Rightarrow> Some (abort_due_to_error E r s)
              | Some (Interrupt s) \<Rightarrow> Some (abort_due_to_interrupt E s))))"

text \<open>A run of the loop: it stops with a code, does something undefined, or is still running when
  the fuel is spent.\<close>

datatype 's result = Done int 's | Undefined | Running 's

fun exec_loop :: "nat \<Rightarrow> ('f, 'r, 'l) venv \<Rightarrow> ('f, 'r) vdbe \<Rightarrow> ('f, 'r) vdbe result" where
  "exec_loop 0 E s = Running s"
| "exec_loop (Suc n) E s =
     (case vdbe_step E s of
        None \<Rightarrow> Undefined
      | Some (Stop r s) \<Rightarrow> Done r s
      | Some (Continue s) \<Rightarrow> exec_loop n E s)"

definition vdbe_exec :: "nat \<Rightarrow> ('f, 'r, 'l) venv \<Rightarrow> ('f, 'r) vdbe \<Rightarrow> ('f, 'r) vdbe result" where
  "vdbe_exec n E s =
     (if magic s \<noteq> MAGIC_RUN then Done DBSQL_MISUSE s
      else if diagnostic E \<and> \<not> (dbmagic (db s) = STATUS_BUSY \<and> rc s \<in> {DBSQL_SUCCESS, DBSQL_BUSY} \<and> \<not> explain s)
      then Undefined
      else (case pop_stack (popStack s) (s\<lparr>rc := DBSQL_SUCCESS\<rparr>) of
              None \<Rightarrow> Undefined
            | Some s \<Rightarrow> exec_loop n E (s\<lparr>popStack := 0, lpc := pc s, nProgress := 0\<rparr>)))"

section \<open>The life of a machine\<close>

text \<open>A new machine, linked to its database handle and zero otherwise.\<close>

definition zero_hash :: "'d hash" where
  "zero_hash = \<lparr>keyClass = 0, copyKey = False, hcount = 0, hfirst = None, htsize = 0, ht = [], heap = Map.empty\<rparr>"

definition vdbe_new :: "dbsql \<Rightarrow> ('f, 'r) vdbe" where
  "vdbe_new d =
     \<lparr>nOp = 0, aOp = [], nLabel = 0, nLabelAlloc = 0, aLabel = [], magic = MAGIC_INIT,
      stack = [], nStack = 0, pc = 0, lpc = 0, rc = 0, returnStack = [], azColName = [],
      nCallback = 0, nResColumn = 0, azResColumn = [], popStack = 0, zErrMsg = None, errorAction = 0,
      undoTransOnError = False, explain = False, azVar = [], aMem = [], pList = [], keylistStack = [], pSort = [], uniqueCnt = 0,
      agg = \<lparr>agg_nMem = 0, pCurrent = None, pSearch = None, agg_hash = zero_hash, apFunc = [], agg_elems = []\<rparr>,
      aSet = [], brk = 0,
      nProgress = 0, progressCalls = 0, rows = [], db = d\<lparr>pVdbe := pVdbe d + 1\<rparr>\<rparr>"

text \<open>Preparing a machine: a final Halt, and on the first call one block for the stack, the argument
  and column name arrays and the variables.\<close>

definition vdbe_make_ready :: "int \<Rightarrow> bool \<Rightarrow> ('f, 'r) vdbe \<Rightarrow> ('f, 'r) vdbe option" where
  "vdbe_make_ready num_var explain_p vm =
     (if magic vm \<noteq> MAGIC_INIT then None
      else if nOp vm > length (aOp vm) then None
      else
        do { vm \<leftarrow> (if nOp vm = 0 \<or> opcode (aOp vm ! (nOp vm - 1)) \<noteq> OP_Halt
                    then map_option snd (vdbe_add_op True vm OP_Halt 0 0) else Some vm);
             vm \<leftarrow> (if nStack vm = 0 then
                      (if num_var < 0 then None
                       else let n = (if explain_p then 10 else nOp vm)
                            in Some (vm\<lparr>nStack := n, azColName := replicate n None,
                                        azVar := replicate (nat num_var) None\<rparr>))
                    else Some vm);
             H \<leftarrow> hash_init HASH_BINARY False;
             Some (vm\<lparr>agg := (agg vm)\<lparr>agg_hash := H, pSearch := None\<rparr>, stack := [], pc := 0, rc := DBSQL_SUCCESS, uniqueCnt := 0, returnStack := [],
                      errorAction := OE_Abort, undoTransOnError := False, popStack := 0,
                      explain := explain vm \<or> explain_p, magic := MAGIC_RUN\<rparr>) })"

text \<open>The bytes that block has, and the bytes its parts occupy, on a machine with 8 byte pointers.\<close>

definition mem_size :: nat where "mem_size = 64"

definition ready_alloc :: "nat \<Rightarrow> nat \<Rightarrow> nat" where
  "ready_alloc n nVar = n * (mem_size + 2 * 8) + (nVar * 8 + 4 + 1)"

definition ready_used :: "nat \<Rightarrow> nat \<Rightarrow> nat" where
  "ready_used n nVar = n * mem_size + n * 8 + n * 8 + nVar * 8 + nVar * 4 + nVar"

definition api_bind :: "('f, 'r) vdbe \<Rightarrow> int \<Rightarrow> cstring option \<Rightarrow> int \<Rightarrow> (int \<times> ('f, 'r) vdbe) option" where
  "api_bind vm i val len =
     (if magic vm \<noteq> MAGIC_RUN \<or> pc vm \<noteq> 0 then Some (DBSQL_MISUSE, vm)
      else if i < 1 \<or> i > int (length (azVar vm)) then Some (DBSQL_RANGE, vm)
      else case val of
        None \<Rightarrow> Some (DBSQL_SUCCESS, vm\<lparr>azVar := (azVar vm)[nat (i - 1) := None]\<rparr>)
      | Some z \<Rightarrow>
          (let n = (if len < 0 then length z + 1 else nat len)
           in if n > length z + 1 then None
              else Some (DBSQL_SUCCESS, vm\<lparr>azVar := (azVar vm)[nat (i - 1) := Some (take n (z @ [NUL]))]\<rparr>)))"

text \<open>EXPLAIN: one row per instruction.  The names of the opcodes come from a generated table, the
  text of an object from its address.\<close>

definition explain_row :: "('f, 'r, 'l) venv \<Rightarrow> nat \<Rightarrow> 'f vdbe_op \<Rightarrow> cstring option list" where
  "explain_row E i op =
     [Some (show_int (int i)), Some (opname E (opcode op)), Some (show_int (p1 op)), Some (show_int (p2 op)),
      (case p3 op of None \<Rightarrow> None | Some (P3_text z) \<Rightarrow> Some z
       | Some (P3_object f) \<Rightarrow> Some (ptrtext E f))]"

definition explain_columns :: "cstring option list" where
  "explain_columns = map Some [''addr'', ''opcode'', ''p1'', ''p2'', ''p3'',
     ''int'', ''text'', ''int'', ''int'', ''text'']"

text \<open>The loop runs while the result code is success; a misuse found before a callback leaves it at
  once, one found after it at the next test.\<close>

function list_from :: "('f, 'r, 'l) venv \<Rightarrow> nat \<Rightarrow>
    ('f, 'r) vdbe \<Rightarrow> int \<times> ('f, 'r) vdbe" where
  "list_from E i vm =
     (if rc vm \<noteq> DBSQL_SUCCESS \<or> i \<ge> nOp vm
      then (if rc vm = DBSQL_SUCCESS then DBSQL_DONE else DBSQL_ERROR, vm)
      else if interrupt (db vm) then
        (let r = (if dbmagic (db vm) \<noteq> STATUS_BUSY then DBSQL_MISUSE else DBSQL_INTERRUPTED)
         in (DBSQL_ERROR, set_errmsg [errtext E r] (vm\<lparr>rc := r, db := (db vm)\<lparr>interrupt := False\<rparr>\<rparr>)))
      else
        (let az = explain_row E i (aOp vm ! i)
         in case xCallback E of
              None \<Rightarrow> (DBSQL_ROW, vm\<lparr>pc := int i + 1, azResColumn := az, nResColumn := 5,
                                     rows := rows vm @ [(5, Some az, azColName vm)]\<rparr>)
            | Some cb \<Rightarrow>
                (case safety_off (db vm) of
                   (True, d) \<Rightarrow> (DBSQL_ERROR, vm\<lparr>rc := DBSQL_MISUSE, db := d\<rparr>)
                 | (False, d) \<Rightarrow>
                     (case cb (rows vm @ [(5, Some az, azColName vm)]) d of
                        (stop, d) \<Rightarrow>
                          (case safety_on d of
                             (misuse, d) \<Rightarrow>
                               list_from E (i + 1)
                                 (vm\<lparr>rows := rows vm @ [(5, Some az, azColName vm)], db := d,
                                     rc := (if misuse then DBSQL_MISUSE
                                            else if stop then DBSQL_ABORT else rc vm)\<rparr>))))))"
  by pat_completeness auto
termination
  by (relation "measure (\<lambda>(E, i, vm). nOp vm - i)") auto

declare list_from.simps [simp del]

definition vdbe_list :: "('f, 'r, 'l) venv \<Rightarrow> ('f, 'r) vdbe \<Rightarrow> (int \<times> ('f, 'r) vdbe) option" where
  "vdbe_list E vm =
     (if popStack vm \<noteq> 0 \<or> nStack vm < 5 \<or> nOp vm > length (aOp vm) \<or> pc vm < 0 then None
      else Some (list_from E (nat (pc vm))
                   (vm\<lparr>azColName := explain_columns, rc := DBSQL_SUCCESS\<rparr>)))"

text \<open>One step of a statement: the code and, unless the call is refused at the door, what it writes:
  the number of columns, the values and the column names.  \<open>None\<close> is an undefined or unfinished
  run.\<close>

definition step_outputs :: "int \<Rightarrow> ('f, 'r) vdbe \<Rightarrow> int \<times> cstring option list option \<times> cstring option list option" where
  "step_outputs r vm =
     (if r = DBSQL_DONE \<or> r = DBSQL_ROW then nResColumn vm else 0,
      if r = DBSQL_ROW then Some (azResColumn vm) else None,
      if r = DBSQL_DONE \<or> r = DBSQL_ROW then Some (azColName vm) else None)"

definition api_step :: "nat \<Rightarrow> ('f, 'r, 'l) venv \<Rightarrow> ('f, 'r) vdbe \<Rightarrow>
    (int \<times> (int \<times> cstring option list option \<times> cstring option list option) option \<times> ('f, 'r) vdbe) option" where
  "api_step fuel E vm =
     (if magic vm \<noteq> MAGIC_RUN then Some (DBSQL_MISUSE, None, vm)
      else case safety_on (db vm) of
        (True, d) \<Rightarrow> Some (DBSQL_MISUSE, None, vm\<lparr>db := d\<rparr>)
      | (False, d) \<Rightarrow>
          do { (r, vm) \<leftarrow> (if explain vm then vdbe_list E (vm\<lparr>db := d\<rparr>)
                           else case vdbe_exec fuel E (vm\<lparr>db := d\<rparr>) of
                                  Done r vm \<Rightarrow> Some (r, vm) | Undefined \<Rightarrow> None | Running vm \<Rightarrow> None);
               Some (case safety_off (db vm) of
                       (True, d) \<Rightarrow> (DBSQL_MISUSE, Some (step_outputs r vm), vm\<lparr>db := d\<rparr>)
                     | (False, d) \<Rightarrow> (r, Some (step_outputs r vm), vm\<lparr>db := d\<rparr>)) })"

text \<open>Everything a run leaves behind is released.\<close>

definition cleanup :: "('f, 'r) vdbe \<Rightarrow> ('f, 'r) vdbe option" where
  "cleanup vm =
     do { A \<leftarrow> agg_reset (agg vm);
          _ \<leftarrow> those (map (\<lambda>x. hash_clear (set_hash x)) (aSet vm));
          Some (vm\<lparr>stack := [], aMem := [], pList := [], pSort := [], agg := A, aSet := [],
                   keylistStack := [], zErrMsg := None\<rparr>) }"

definition undo_trans :: "dbsql \<Rightarrow> dbsql" where
  "undo_trans d = d\<lparr>inTrans := False, onError := OE_Default\<rparr>"

definition vdbe_reset :: "('f, 'r, 'l) venv \<Rightarrow> ('f, 'r) vdbe \<Rightarrow> cstring option \<Rightarrow>
    (int \<times> cstring option \<times> ('f, 'r) vdbe) option" where
  "vdbe_reset E vm err =
     (if magic vm \<noteq> MAGIC_RUN \<and> magic vm \<noteq> MAGIC_HALT
      then Some (DBSQL_MISUSE, Some (errtext E DBSQL_MISUSE), vm)
      else
        do { let err = (if zErrMsg vm \<noteq> None \<and> err = None then zErrMsg vm else err);
             vm \<leftarrow> cleanup vm;
             let vm = (if rc vm \<noteq> DBSQL_SUCCESS
                          \<and> (errorAction vm = OE_Abort \<or> errorAction vm = OE_Rollback \<or> undoTransOnError vm)
                       then vm\<lparr>db := undo_trans (db vm)\<rparr> else vm);
             Some (rc vm, err, vm\<lparr>magic := MAGIC_INIT\<rparr>) })"

definition vdbe_delete :: "('f, 'r) vdbe \<Rightarrow> ('f, 'r) vdbe option" where
  "vdbe_delete vm =
     do { vm \<leftarrow> cleanup vm;
          Some (vm\<lparr>magic := MAGIC_DEAD, db := (db vm)\<lparr>pVdbe := pVdbe (db vm) - 1\<rparr>\<rparr>) }"

definition vdbe_finalize :: "('f, 'r, 'l) venv \<Rightarrow> (dbsql \<Rightarrow> dbsql) \<Rightarrow> ('f, 'r) vdbe \<Rightarrow>
    cstring option \<Rightarrow> (int \<times> cstring option \<times> ('f, 'r) vdbe) option" where
  "vdbe_finalize E close vm err =
     (if magic vm \<noteq> MAGIC_RUN \<and> magic vm \<noteq> MAGIC_HALT
      then Some (DBSQL_MISUSE, Some (errtext E DBSQL_MISUSE), vm)
      else
        do { (r, err, vm) \<leftarrow> vdbe_reset E vm err;
             vm \<leftarrow> vdbe_delete vm;
             Some (r, err, if want_to_close (db vm) \<and> pVdbe (db vm) = 0 then vm\<lparr>db := close (db vm)\<rparr> else vm) })"

section \<open>An environment for examples\<close>

text \<open>Exact arithmetic, assertions off, no callback and no cursors.\<close>

definition test_env :: "('f, rat, rat) venv" where
  "test_env =
     \<lparr>fp = rat_fpu, errtext = dbsql_strerror (\<lambda>_. None) (\<lambda>_. None), opname = show_int,
      ptrtext = (\<lambda>_. ''ptr''), host_le = True, diagnostic = False, debug = True,
      xCallback = None, xFunc = (\<lambda>f az d. (null_mem rat_fpu, False, d)),
      xStep = (\<lambda>f cnt ctx az. (ctx @ concat (map (\<lambda>a. case a of None \<Rightarrow> [] | Some t \<Rightarrow> t) az), False)),
      xFinalize = (\<lambda>f. Some (\<lambda>cnt ctx. str_mem rat_fpu MEM_Dyn (ctx @ [NUL]))), xProgress = None,
      nProgressOps = 0, storage_op = (\<lambda>op s. None)\<rparr>"

definition d0 :: dbsql where
  "d0 = \<lparr>dbmagic = STATUS_OPEN, interrupt = False, want_to_close = False, pVdbe = 0, inTrans = False,
         onError = 99\<rparr>"

lemma test_env_simps [simp]:
  "fp test_env = rat_fpu" "host_le test_env" "\<not> diagnostic test_env" "debug test_env"
  "xCallback test_env = None" "xProgress test_env = None"
  by (simp_all add: test_env_def)

end
