(* ===== verification/StackProps.thy ===== *)
theory StackProps
  imports Exec
begin

text \<open>
  What the stack instructions compute: three-valued logic, comparison, arithmetic, concatenation,
  subroutines, variables and memory cells.
\<close>

section \<open>Three-valued logic\<close>

text \<open>The truth value of a cell; NULL is unknown.\<close>

definition truth :: "('r, 'l) fpu \<Rightarrow> 'r mem \<Rightarrow> bool option" where
  "truth F m = (if is_null m then None else Some (mi (entity_to_int F m) \<noteq> 0))"

fun kleene_and :: "bool option \<Rightarrow> bool option \<Rightarrow> bool option" where
  "kleene_and (Some False) _ = Some False"
| "kleene_and _ (Some False) = Some False"
| "kleene_and (Some True) (Some True) = Some True"
| "kleene_and _ _ = None"

fun kleene_not :: "bool option \<Rightarrow> bool option" where
  "kleene_not None = None"
| "kleene_not (Some b) = Some (\<not> b)"

definition kleene_or :: "bool option \<Rightarrow> bool option \<Rightarrow> bool option" where
  "kleene_or a b = kleene_not (kleene_and (kleene_not a) (kleene_not b))"

definition truth_cell :: "('r, 'l) fpu \<Rightarrow> bool option \<Rightarrow> 'r mem" where
  "truth_cell F v = (case v of None \<Rightarrow> null_mem F | Some b \<Rightarrow> int_mem F (if b then 1 else 0))"

lemma truth_code_truth:
  "truth_code F m = (case truth F m of None \<Rightarrow> 2 | Some True \<Rightarrow> 0 | Some False \<Rightarrow> 1)"
  by (simp add: truth_code_def truth_def)

text \<open>C28: AND and OR follow Kleene's three-valued logic with NULL as unknown, whatever the
  representation of the two operands, and the tables are symmetric in them.\<close>

theorem logic_is_kleene:
  assumes "stack s = tos # nos # rest"
  shows "(opcode op = OP_And \<longrightarrow> op_logic E op s =
            ok (s\<lparr>stack := truth_cell (fp E) (kleene_and (truth (fp E) nos) (truth (fp E) tos)) # rest\<rparr>))
       \<and> (opcode op = OP_Or \<longrightarrow> op_logic E op s =
            ok (s\<lparr>stack := truth_cell (fp E) (kleene_or (truth (fp E) nos) (truth (fp E) tos)) # rest\<rparr>))"
  using assms
  by (cases "truth (fp E) tos"; cases "truth (fp E) nos")
    (auto simp: op_logic_def Let_def truth_code_truth and_logic_def or_logic_def kleene_or_def
      truth_cell_def split: bool.splits)

theorem logic_is_kleene_witness:
  "\<exists>E :: (unit, rat, rat) venv. fp E = rat_fpu \<and>
    op_logic E \<lparr>opcode = OP_And, p1 = 0, p2 = 0, p3 = None, p3type = 0\<rparr>
      ((vdbe_new d0)\<lparr>stack := [null_mem rat_fpu, int_mem rat_fpu 0]\<rparr>) =
    ok ((vdbe_new d0)\<lparr>stack := [int_mem rat_fpu 0]\<rparr>)"
proof -
  let ?E = "test_env :: (unit, rat, rat) venv"
  let ?op = "\<lparr>opcode = OP_And, p1 = 0, p2 = 0, p3 = None, p3type = 0\<rparr> :: unit vdbe_op"
  let ?s = "(vdbe_new d0)\<lparr>stack := [null_mem rat_fpu, int_mem rat_fpu 0]\<rparr>"
  have "op_logic ?E ?op ?s = ok (?s\<lparr>stack := [truth_cell rat_fpu (Some False)]\<rparr>)"
    using logic_is_kleene [of ?s "null_mem rat_fpu" "int_mem rat_fpu 0" "[]" ?op ?E]
    by (simp add: truth_def is_null_def null_mem_def int_mem_def entity_to_int_def)
  then show ?thesis by (intro exI [of _ ?E]) (simp add: truth_cell_def)
qed

section \<open>Comparison\<close>

text \<open>The difference of two 32 bit integers as the machine computes it.\<close>

definition wrapped_diff :: "int \<Rightarrow> int \<Rightarrow> int" where
  "wrapped_diff a b =
     (let d = a - b in if d < - (2 ^ 31) then d + 2 ^ 32 else if d \<ge> 2 ^ 31 then d - 2 ^ 32 else d)"

lemma sint_bounds: "- (2 ^ 31) \<le> sint (x :: i32)" "sint (x :: i32) < 2 ^ 31"
  using sint_ge [of x] sint_lt [of x] by simp_all

lemma sint_diff: "sint (x - y :: i32) = wrapped_diff (sint x) (sint y)"
proof -
  have w: "x - y = word_of_int (sint x - sint y)" by (simp add: word_of_int_minus)
  consider "sint x - sint y < - (2 ^ 31)" | "sint x - sint y \<ge> 2 ^ 31"
    | "- (2 ^ 31) \<le> sint x - sint y" "sint x - sint y < 2 ^ 31" by linarith
  then show ?thesis
  proof cases
    case 1
    have "word_of_int (sint x - sint y) = (word_of_int (sint x - sint y + 2 ^ 32) :: i32)"
      by (simp add: of_int_add)
    then have e: "x - y = word_of_int (sint x - sint y + 2 ^ 32)" by (simp only: w)
    have "sint (x - y) = sint x - sint y + 2 ^ 32"
      unfolding e using 1 sint_bounds [of x] sint_bounds [of y] by (intro sint_of_int_i32) simp_all
    with 1 show ?thesis by (simp add: wrapped_diff_def)
  next
    case 2
    have "word_of_int (sint x - sint y) = (word_of_int (sint x - sint y - 2 ^ 32) :: i32)"
      by simp
    then have e: "x - y = word_of_int (sint x - sint y - 2 ^ 32)" by (simp only: w)
    have "sint (x - y) = sint x - sint y - 2 ^ 32"
      unfolding e using 2 sint_bounds [of x] sint_bounds [of y] by (intro sint_of_int_i32) simp_all
    with 2 show ?thesis by (simp add: wrapped_diff_def)
  next
    case 3
    then show ?thesis unfolding w by (subst sint_of_int_i32) (simp_all add: wrapped_diff_def)
  qed
qed



section \<open>Division\<close>

lemma quotient_fits:
  assumes "a \<noteq> 0" and "\<not> (a = -1 \<and> b = - (2 ^ 31))" and "- (2 ^ 31) \<le> b" and "(b :: int) < 2 ^ 31"
  shows "- (2 ^ 31) \<le> b sdiv a \<and> b sdiv a < 2 ^ 31"
proof -
  have r: "- \<bar>b\<bar> \<le> b sdiv a" "b sdiv a \<le> \<bar>b\<bar>" using sdiv_int_range [of b a] by auto
  have "b sdiv a \<noteq> 2 ^ 31"
  proof
    assume q: "b sdiv a = 2 ^ 31"
    then have "b = - (2 ^ 31)" using r assms(3,4) by linarith
    then show False using q int_sdiv_negated_is_minus1 [of b a] assms(2) by simp
  qed
  then show ?thesis using r assms(3,4) by linarith
qed

lemma remainder_fits:
  assumes "a \<noteq> 0" and "- (2 ^ 31) \<le> a" and "(a :: int) < 2 ^ 31"
  shows "- (2 ^ 31) \<le> b smod a \<and> b smod a < 2 ^ 31"
  using smod_int_range [OF assms(1), of b] assms(2,3) by auto



section \<open>Integer literals\<close>

text \<open>
  An integer literal is pushed with its text.  The instructions that change the integer in place
  do not drop the text, and the text is what a callback and a text comparison use.
\<close>

definition literal_cell :: "('r, 'l) fpu \<Rightarrow> int \<Rightarrow> cstring \<Rightarrow> 'r mem" where
  "literal_cell F v t =
     (int_mem F (word_of_int v))\<lparr>mz := t @ [NUL], mflags := {MEM_Int, MEM_Str, MEM_Static}\<rparr>"

lemma op_Integer_literal:
  assumes "length (stack s) < nStack s" and "p3 op = Some (P3_text t)"
  shows "op_Integer E op s = ok (s\<lparr>stack := literal_cell (fp E) (p1 op) t # stack s\<rparr>)"
  using assms by (simp add: op_Integer_def p3_text_def push_def next_op_def literal_cell_def)

text \<open>C40: NOT, BitNot and AddImm on an integer literal change the integer and keep the text of the
  literal, so the value delivered to the application is the old one: when assertions are
  compiled out, NOT 5 is delivered as 5.\<close>

theorem literal_text_is_stale:
  assumes "\<not> diagnostic E" and "stack s = literal_cell (fp E) v t # rest" and "nul_free t"
  shows "op_Not E op s =
        ok (s\<lparr>stack := (literal_cell (fp E) v t)\<lparr>mi := (if (word_of_int v :: i32) = 0 then 1 else 0)\<rparr> # rest\<rparr>)
    \<and> op_BitNot E op s = ok (s\<lparr>stack := (literal_cell (fp E) v t)\<lparr>mi := NOT (word_of_int v)\<rparr> # rest\<rparr>)
    \<and> op_AddImm E op s =
        ok (s\<lparr>stack := (literal_cell (fp E) v t)\<lparr>mi := word_of_int v + word_of_int (p1 op)\<rparr> # rest\<rparr>)
    \<and> (\<forall>i. column_text (fp E) ((literal_cell (fp E) v t)\<lparr>mi := i\<rparr>) = Some t)"
  using assms
  by (simp add: op_Not_def op_BitNot_def op_AddImm_def literal_cell_def int_mem_def mem0_def is_null_def
      entity_to_int_def check_def column_text_def entity_as_string_def)

theorem literal_text_is_stale_witness:
  "op_Not (test_env :: (unit, rat, rat) venv) \<lparr>opcode = OP_Not, p1 = 0, p2 = 0, p3 = None, p3type = 0\<rparr>
      ((vdbe_new d0)\<lparr>stack := [literal_cell rat_fpu 5 ''5'']\<rparr>) =
        ok ((vdbe_new d0)\<lparr>stack := [(literal_cell rat_fpu 5 ''5'')\<lparr>mi := 0\<rparr>]\<rparr>)
    \<and> column_text rat_fpu ((literal_cell rat_fpu 5 ''5'')\<lparr>mi := 0\<rparr>) = Some ''5''"
  using literal_text_is_stale [of "test_env :: (unit, rat, rat) venv"
      "(vdbe_new d0)\<lparr>stack := [literal_cell rat_fpu 5 ''5'']\<rparr>" 5 "''5''" "[]"
      "\<lparr>opcode = OP_Not, p1 = 0, p2 = 0, p3 = None, p3type = 0\<rparr>"]
  by simp

section \<open>Subroutines\<close>

text \<open>A subroutine returns to the instruction after its call, and leaves the return stack as it
  was, whatever happened in between as long as its own calls are returned from; the stack holds
  100 addresses, and the call or return that does not fit is an internal error.\<close>

theorem gosub_return:
  "(length (returnStack s) < 100 \<longrightarrow>
     (\<exists>s1. op_Gosub op s = ok s1 \<and> lpc s1 + 1 = p2 op \<and> length (returnStack s1) \<le> 100
       \<and> (\<forall>s2. returnStack s2 = returnStack s1 \<longrightarrow>
             (\<exists>s3. op_Return op' s2 = ok s3 \<and> lpc s3 + 1 = lpc s + 1
                \<and> returnStack s3 = returnStack s \<and> stack s3 = stack s2))))
   \<and> (length (returnStack s) \<ge> 100 \<longrightarrow>
       (\<exists>s1. op_Gosub op s = Some (Return DBSQL_ERROR s1) \<and> rc s1 = DBSQL_INTERNAL))
   \<and> (returnStack s = [] \<longrightarrow>
       (\<exists>s1. op_Return op' s = Some (Return DBSQL_ERROR s1) \<and> rc s1 = DBSQL_INTERNAL))"
  by (auto simp: op_Gosub_def op_Return_def ok_def jump_def)

theorem gosub_return_witness:
  "\<exists>s1. op_Gosub \<lparr>opcode = OP_Gosub, p1 = 0, p2 = 7, p3 = None, p3type = 0\<rparr> (vdbe_new d0 :: (unit, rat) vdbe)
      = ok s1 \<and> lpc s1 + 1 = 7"
  using gosub_return [of "vdbe_new d0 :: (unit, rat) vdbe"
      "\<lparr>opcode = OP_Gosub, p1 = 0, p2 = 7, p3 = None, p3type = 0\<rparr>"]
  by (auto simp: vdbe_new_def)

section \<open>Concatenation\<close>

definition cell_text :: "('r, 'l) fpu \<Rightarrow> 'r mem \<Rightarrow> string" where
  "cell_text F m = butlast (mz (entity_as_string F m))"

lemma concat_scan_all:
  "list_all (\<lambda>m. \<not> is_null m) ms \<Longrightarrow> concat_scan F ms = (map (entity_as_string F) ms, True)"
  by (induction ms) auto

lemma concat_scan_null: "list_ex is_null ms \<Longrightarrow> \<not> snd (concat_scan F ms)"
  by (induction ms) (auto split: prod.splits)

lemma nbyte_pos:
  fixes ms :: "'r mem list"
  assumes "ms \<noteq> []" and "list_all (\<lambda>m. mz m \<noteq> []) ms"
  shows "1 - int n + (\<Sum>m \<leftarrow> ms. int (length (mz m)) - 1 + int n) \<ge> 1"
proof -
  have nn: "0 \<le> (\<Sum>m \<leftarrow> ms. int (length (mz m)) - 1 + int n)" if "list_all (\<lambda>m. mz m \<noteq> []) ms" for ms :: "'r mem list"
    using that by (induction ms) (auto simp: Suc_le_eq)
  show ?thesis
  proof (cases ms)
    case (Cons m ms')
    then have "int (length (mz m)) \<ge> 1" using assms(2) by (cases "mz m") auto
    then show ?thesis using nn [of ms'] assms(2) Cons by simp
  qed (use assms in simp)
qed



end
