(* ===== verification/ExecProps.thy ===== *)
theory ExecProps
  imports Exec
begin

text \<open>
  What holds of every instruction and of the loop: the stack and the memory cells stay well formed,
  the program is not changed, and how a run ends.
\<close>

section \<open>Well-formed machines\<close>

definition vm_ok :: "('f, 'r) vdbe \<Rightarrow> bool" where
  "vm_ok s \<longleftrightarrow> list_all mem_ok (stack s) \<and> length (stack s) \<le> nStack s
     \<and> list_all (\<lambda>m. mflags m = {} \<or> mem_ok m) (aMem s) \<and> length (returnStack s) \<le> 100"

lemma mem_ok_cells [simp]:
  "mem_ok (null_mem F)" "mem_ok (int_mem F i)" "mem_ok (real_mem F r)"
  "k \<in> str_kinds \<Longrightarrow> mem_ok (str_mem F k z)"
  using mem_ok_string [where k = k and m = "mem0 F" and z = z]
  by (simp_all add: null_mem_def int_mem_def real_mem_def str_mem_def)

lemma mem_ok_stringify [simp]: "mem_ok m \<Longrightarrow> mem_ok (stringify F m)"
  by (simp add: stringify_def)

lemma list_all_drop [simp]: "list_all P xs \<Longrightarrow> list_all P (drop n xs)"
  by (auto simp: list_all_iff dest: in_set_dropD)

lemma list_all_take [simp]: "list_all P xs \<Longrightarrow> list_all P (take n xs)"
  by (auto simp: list_all_iff dest: in_set_takeD)

lemma vm_ok_push: "push m s = Some s' \<Longrightarrow> vm_ok s \<Longrightarrow> mem_ok m \<Longrightarrow> vm_ok s'"
  by (auto simp: vm_ok_def push_def split: if_splits)

lemma vm_ok_pop: "pop_stack n s = Some s' \<Longrightarrow> vm_ok s \<Longrightarrow> vm_ok s'"
  by (auto simp: vm_ok_def pop_stack_def split: if_splits)

lemma vm_ok_stringify [simp]: "vm_ok s \<Longrightarrow> vm_ok (stringify_top E n s)"
proof -
  have "list_all mem_ok (map (stringify (fp E)) ms)" if "list_all mem_ok ms" for ms
    using that by (auto simp: list_all_iff)
  then show "vm_ok s \<Longrightarrow> vm_ok (stringify_top E n s)"
    by (auto simp: vm_ok_def stringify_top_def min_def simp del: list.pred_map)
qed

lemma vm_ok_jump [simp]: "vm_ok (jump op s) = vm_ok s"
  by (simp add: vm_ok_def jump_def)

text \<open>Updates that touch nothing a well-formed machine constrains.\<close>

lemma vm_ok_fields [simp]:
  "vm_ok (s\<lparr>db := d\<rparr>) = vm_ok s" "vm_ok (s\<lparr>rows := rw\<rparr>) = vm_ok s" "vm_ok (s\<lparr>nCallback := i\<rparr>) = vm_ok s"
  "vm_ok (s\<lparr>nResColumn := i\<rparr>) = vm_ok s" "vm_ok (s\<lparr>azColName := az\<rparr>) = vm_ok s"
  "vm_ok (set_errmsg ts s) = vm_ok s" "vm_ok (s\<lparr>pList := pl\<rparr>) = vm_ok s"
  "vm_ok (s\<lparr>keylistStack := ks\<rparr>) = vm_ok s" "vm_ok (s\<lparr>pSort := ps\<rparr>) = vm_ok s"
  "vm_ok (s\<lparr>uniqueCnt := u\<rparr>) = vm_ok s" "vm_ok (s\<lparr>lpc := i\<rparr>) = vm_ok s"
  "vm_ok (s\<lparr>nProgress := n\<rparr>) = vm_ok s" "vm_ok (s\<lparr>progressCalls := n\<rparr>) = vm_ok s"
  "vm_ok (s\<lparr>agg := A\<rparr>) = vm_ok s" "vm_ok (s\<lparr>aSet := ss\<rparr>) = vm_ok s" "vm_ok (s\<lparr>brk := a\<rparr>) = vm_ok s"
  by (simp_all add: vm_ok_def set_errmsg_def)

lemma vm_ok_stack:
  "vm_ok s \<Longrightarrow> list_all mem_ok ms \<Longrightarrow> length ms \<le> length (stack s) \<Longrightarrow> vm_ok (s\<lparr>stack := ms\<rparr>)"
  by (auto simp: vm_ok_def)

lemma vm_ok_top:
  "vm_ok s \<Longrightarrow> stack s = m # ms \<Longrightarrow> mem_ok m \<and> list_all mem_ok ms"
  by (simp add: vm_ok_def)

lemma ok_Break: "ok s = Some (Break r s') \<longleftrightarrow> r = DBSQL_SUCCESS \<and> s' = s"
  by (auto simp: ok_def)

lemma next_Break: "next_op x = Some (Break r s') \<longleftrightarrow> r = DBSQL_SUCCESS \<and> x = Some s'"
  by (auto simp: next_op_def ok_def split: option.splits)

lemmas break_simps = ok_Break next_Break check_interrupt_def Option.bind_eq_Some_conv

text \<open>A property of an instruction: it leaves the switch with a well-formed machine.\<close>

definition keeps :: "(('f, 'r) vdbe \<Rightarrow> ('f, 'r) op_result) \<Rightarrow> bool" where
  "keeps f \<longleftrightarrow> (\<forall>s r s'. vm_ok s \<longrightarrow> f s = Some (Break r s') \<longrightarrow> vm_ok s')"

lemma keepsI: "(\<And>s r s'. vm_ok s \<Longrightarrow> f s = Some (Break r s') \<Longrightarrow> vm_ok s') \<Longrightarrow> keeps f"
  by (auto simp: keeps_def)

section \<open>The stack instructions\<close>

lemma keeps_jumps: "keeps (op_Goto op)" "keeps (op_Gosub op)" "keeps (op_Return op)" "keeps (op_Halt op)"
  by (auto simp: keeps_def op_Goto_def op_Gosub_def op_Return_def op_Halt_def break_simps jump_def vm_ok_def
      Let_def split: if_splits list.splits option.splits)

lemma keeps_pushes: "keeps (op_Integer E op)" "keeps (op_String E op)" "keeps (op_Variable E op)"
proof -
  have "mem_ok ((int_mem (fp E) i)\<lparr>mz := z, mflags := {MEM_Int, MEM_Str, MEM_Static}\<rparr>)" for i z
    using card1_insert [of MEM_Static "{MEM_Int, MEM_Str}"]
    by (auto simp: mem_ok_def insert_commute)
  then show "keeps (op_Integer E op)"
    by (auto simp: keeps_def op_Integer_def break_simps Let_def intro: vm_ok_push split: option.splits)
  show "keeps (op_String E op)"
    by (auto simp: keeps_def op_String_def break_simps intro: vm_ok_push split: option.splits)
  show "keeps (op_Variable E op)"
    by (auto simp: keeps_def op_Variable_def break_simps Let_def intro: vm_ok_push)
qed

lemma mem_ok_dup:
  assumes "mem_ok m" and "MEM_Str \<in> mflags m"
  shows "mem_ok (m\<lparr>mflags := insert MEM_Dyn (mflags m - {MEM_Static, MEM_Ephem, MEM_Short})\<rparr>)"
    and "mem_ok (m\<lparr>mflags := insert MEM_Ephem (mflags m) - {MEM_Dyn, MEM_Static, MEM_Short}\<rparr>)"
proof -
  have "card (insert MEM_Dyn (mflags m - str_kinds) \<inter> str_kinds) = 1"
    by (intro card1_insert) auto
  moreover have "insert MEM_Dyn (mflags m - {MEM_Static, MEM_Ephem, MEM_Short}) = insert MEM_Dyn (mflags m - str_kinds)"
    by (auto simp: str_kinds_def)
  ultimately show "mem_ok (m\<lparr>mflags := insert MEM_Dyn (mflags m - {MEM_Static, MEM_Ephem, MEM_Short})\<rparr>)"
    using assms by (auto simp: mem_ok_def)
  have "card (insert MEM_Ephem (mflags m - str_kinds) \<inter> str_kinds) = 1"
    by (intro card1_insert) auto
  moreover have "insert MEM_Ephem (mflags m) - {MEM_Dyn, MEM_Static, MEM_Short} = insert MEM_Ephem (mflags m - str_kinds)"
    by (auto simp: str_kinds_def)
  ultimately show "mem_ok (m\<lparr>mflags := insert MEM_Ephem (mflags m) - {MEM_Dyn, MEM_Static, MEM_Short}\<rparr>)"
    using assms by (auto simp: mem_ok_def)
qed

lemma nth_mem_ok: "list_all mem_ok ms \<Longrightarrow> i < length ms \<Longrightarrow> mem_ok (ms ! i)"
  by (simp add: list_all_length)

lemma keeps_Pop: "keeps (op_Pop op)"
  by (auto simp: keeps_def op_Pop_def break_simps intro: vm_ok_pop split: if_splits)

lemma keeps_Dup: "keeps (op_Dup op)"
proof (rule keepsI)
  fix s :: "('a, 'b) vdbe" and r s'
  assume s: "vm_ok s" and f: "op_Dup op s = Some (Break r s')"
  let ?m = "stack s ! nat (p1 op)"
  have i: "nat (p1 op) < length (stack s)" using f by (auto simp: op_Dup_def split: if_splits)
  then have m: "mem_ok ?m" using s nth_mem_ok by (auto simp: vm_ok_def)
  have e: "mem_ok (?m\<lparr>mflags := insert MEM_Ephem (mflags ?m - {MEM_Dyn})\<rparr>)"
    if "MEM_Str \<in> mflags ?m" "MEM_Dyn \<in> mflags ?m \<or> MEM_Ephem \<in> mflags ?m"
  proof -
    have c: "card (mflags ?m \<inter> str_kinds) = 1" using m that(1) by (auto simp: mem_ok_def split: if_splits)
    obtain k where k: "mflags ?m \<inter> str_kinds = {k}" using c by (auto simp: card_1_singleton_iff)
    have "k = MEM_Dyn \<or> k = MEM_Ephem" using that(2) k by (metis IntI singletonD str_kinds_simps(2,3))
    then have "mflags ?m \<inter> str_kinds \<subseteq> {MEM_Dyn, MEM_Ephem}" using k by auto
    then have "insert MEM_Ephem (mflags ?m - {MEM_Dyn}) =
        insert MEM_Ephem (mflags ?m) - {MEM_Dyn, MEM_Static, MEM_Short}"
      by auto
    then show ?thesis using mem_ok_dup(2) [OF m that(1)] by simp
  qed
  show "vm_ok s'"
    using f s m e mem_ok_dup [OF m]
    by (auto simp: op_Dup_def Let_def break_simps intro: vm_ok_push split: if_splits)
qed

lemma keeps_Pull: "keeps (op_Pull op)"
proof (rule keepsI)
  fix s :: "('a, 'b) vdbe" and r s'
  assume s: "vm_ok s" and f: "op_Pull op s = Some (Break r s')"
  let ?n = "nat (p1 op)"
  have i: "?n < length (stack s)" using f by (auto simp: op_Pull_def Let_def split: if_splits)
  have l: "list_all mem_ok (stack s)" using s by (simp add: vm_ok_def)
  then have "list_all mem_ok (map entity_ephem_to_dyn (take ?n (stack s)))"
    using list_all_take [OF l, of ?n] by (auto simp: list_all_iff)
  then have "list_all mem_ok ((stack s ! ?n) # map entity_ephem_to_dyn (take ?n (stack s)) @ drop (?n + 1) (stack s))"
    using l i nth_mem_ok by auto
  then show "vm_ok s'"
    using f s i by (auto simp: op_Pull_def Let_def break_simps intro: vm_ok_stack split: if_splits)
qed

lemma list_all_update: "list_all P xs \<Longrightarrow> P x \<Longrightarrow> list_all P (xs[i := x])"
  by (auto simp: list_all_iff dest: set_update_subset_insert [THEN subsetD])

lemma keeps_Push: "keeps (op_Push op)"
proof (rule keepsI)
  fix s :: "('a, 'b) vdbe" and r s'
  assume s: "vm_ok s" and f: "op_Push op s = Some (Break r s')"
  obtain m ms where st: "stack s = m # ms" using f by (cases "stack s") (auto simp: op_Push_def split: if_splits)
  let ?new = "(stack s)[nat (p1 op) := entity_ephem_to_dyn m]"
  have "list_all mem_ok ?new" using s st by (intro list_all_update) (auto simp: vm_ok_def)
  then have "list_all mem_ok (tl ?new)" by (cases ?new) auto
  moreover have "length (tl ?new) \<le> length (stack s)" by simp
  moreover have "s' = s\<lparr>stack := tl ?new\<rparr>"
    using f st by (auto simp: op_Push_def break_simps simp del: list_update.simps split: if_splits)
  ultimately show "vm_ok s'" using vm_ok_stack [OF s] by simp
qed

lemma call_back_ok: "call_back cb rw s = Inl (r, s') \<Longrightarrow> vm_ok s \<Longrightarrow> vm_ok s'"
  by (auto simp: call_back_def Let_def split: prod.splits bool.splits)

lemma keeps_callbacks: "keeps (op_ColumnName op)" "keeps (op_Callback E op)" "keeps (op_NullCallback E op)"
proof -
  show "keeps (op_ColumnName op)"
    by (auto simp: keeps_def op_ColumnName_def break_simps vm_ok_def split: if_splits)
  show "keeps (op_Callback E op)"
    by (auto simp: keeps_def op_Callback_def Let_def break_simps dest!: call_back_ok intro: vm_ok_pop
        split: if_splits option.splits sum.splits prod.splits)
  show "keeps (op_NullCallback E op)"
    by (auto simp: keeps_def op_NullCallback_def Let_def break_simps dest!: call_back_ok
        split: if_splits option.splits sum.splits prod.splits)
qed

lemma concat_scan_ok: "list_all mem_ok ms \<Longrightarrow> list_all mem_ok (fst (concat_scan F ms)) \<and> length (fst (concat_scan F ms)) = length ms"
  by (induction ms) (auto split: prod.splits)

lemma keeps_Concat: "keeps (op_Concat E op)"
proof (rule keepsI)
  fix s :: "('a, 'b) vdbe" and r s'
  assume s: "vm_ok s" and f: "op_Concat E op s = Some (Break r s')"
  define n where "n = nat (p1 op)"
  obtain terms good where cs: "concat_scan (fp E) (rev (take n (stack s))) = (terms, good)" by fastforce
  have n: "n \<le> length (stack s)"
    using f by (auto simp: op_Concat_def Let_def n_def Option.bind_eq_Some_conv split: if_splits)
  have "list_all mem_ok terms \<and> length terms = n"
    using concat_scan_ok [of "rev (take n (stack s))" "fp E"] cs s n by (simp add: vm_ok_def)
  then have "vm_ok (s\<lparr>stack := rev terms @ drop n (stack s)\<rparr>)"
    using s n by (intro vm_ok_stack) (auto simp: vm_ok_def)
  then show "vm_ok s'"
    using f cs by (auto simp: op_Concat_def Let_def n_def break_simps intro: vm_ok_push vm_ok_pop split: if_splits)
qed

lemma keeps_arith: "keeps (op_arith E op)"
proof (rule keepsI)
  fix s :: "('a, 'b) vdbe" and r s'
  assume s: "vm_ok s" and f: "op_arith E op s = Some (Break r s')"
  obtain tos nos rest where st: "stack s = tos # nos # rest"
    using f by (auto simp: op_arith_def split: list.splits)
  then have m: "mem_ok tos" "mem_ok nos" "list_all mem_ok rest" using s by (auto simp: vm_ok_def)
  show "vm_ok s'"
    using f s st m
    by (auto simp: op_arith_def Let_def break_simps intro!: vm_ok_stack split: if_splits option.splits)
qed

lemma keeps_bits: "keeps (op_bits E op)"
proof (rule keepsI)
  fix s :: "('a, 'b) vdbe" and r s'
  assume s: "vm_ok s" and f: "op_bits E op s = Some (Break r s')"
  obtain tos nos rest where st: "stack s = tos # nos # rest"
    using f by (auto simp: op_bits_def split: list.splits)
  then have m: "mem_ok tos" "mem_ok nos" "list_all mem_ok rest" using s by (auto simp: vm_ok_def)
  show "vm_ok s'"
    using f s st m
    by (auto simp: op_bits_def Let_def break_simps intro!: vm_ok_stack split: if_splits option.splits)
qed

lemma keeps_Function:
  assumes "\<And>f az d. mem_ok (fst (xFunc E f az d))"
  shows "keeps (op_Function E op)"
proof (rule keepsI)
  fix s :: "('a, 'b) vdbe" and r s'
  assume s: "vm_ok s" and f: "op_Function E op s = Some (Break r s')"
  define s1 where "s1 = stringify_top E (nat (p1 op)) s"
  obtain g where g: "p3 op = Some (P3_object g)" "\<not> length (stack s) < nat (p1 op)"
    using f by (auto simp: op_Function_def Let_def split: if_splits option.splits p3val.splits)
  obtain b d0 where so: "safety_off (db s1) = (b, d0)" by fastforce
  obtain res e d1 where x: "xFunc E g (top_args (nat (p1 op)) s1) d0 = (res, e, d1)" by (metis prod_cases3)
  obtain c d2 where sn: "safety_on d1 = (c, d2)" by fastforce
  have "\<not> b" "\<not> c"
    using f g so x sn by (auto simp: op_Function_def Let_def s1_def [symmetric] split: bool.splits)
  then obtain s2 s3 where p: "pop_stack (p1 op) (s1\<lparr>db := d2\<rparr>) = Some s2" "push res s2 = Some s3"
    and s': "s' = s3 \<or> (\<exists>ts. s' = set_errmsg ts s3)"
    using f g so x sn
    by (cases e) (auto simp: op_Function_def Let_def s1_def [symmetric] Option.bind_eq_Some_conv)
  have "mem_ok res" using assms [of g "top_args (nat (p1 op)) s1" d0] x by simp
  moreover have "vm_ok s2" using s by (intro vm_ok_pop [OF p(1)]) (simp add: s1_def)
  ultimately have "vm_ok s3" using vm_ok_push [OF p(2)] by blast
  then show "vm_ok s'" using s' by auto
qed

lemma mem_ok_sign: "mem_ok m \<Longrightarrow> mem_ok (sign_op F n m)"
  by (simp add: sign_op_def Let_def is_null_def)

lemma keeps_unary: "keeps (op_AddImm E op)" "keeps (op_ForceInt E op)"
  "keeps (op_sign E op)" "keeps (op_Not E op)" "keeps (op_BitNot E op)" "keeps (op_If E op)"
proof -
  note D = keeps_def break_simps Let_def
  show "keeps (op_AddImm E op)"
    by (auto simp: D op_AddImm_def intro!: vm_ok_stack dest: vm_ok_top split: list.splits)
  show "keeps (op_ForceInt E op)"
    by (auto simp: D op_ForceInt_def intro!: vm_ok_stack dest: vm_ok_top split: list.splits if_splits)
  show "keeps (op_sign E op)"
    by (auto simp: D op_sign_def intro!: vm_ok_stack mem_ok_sign dest: vm_ok_top split: list.splits)
  show "keeps (op_Not E op)"
    by (auto simp: D op_Not_def intro!: vm_ok_stack dest: vm_ok_top split: list.splits if_splits)
  show "keeps (op_BitNot E op)"
    by (auto simp: D op_BitNot_def intro!: vm_ok_stack dest: vm_ok_top split: list.splits if_splits)
  show "keeps (op_If E op)"
    by (auto simp: D op_If_def intro!: vm_ok_stack dest: vm_ok_top split: list.splits if_splits)
qed

lemma mem_ok_mismatch:
  assumes "mem_ok m" shows "mem_ok (mismatch_cell F m)"
proof -
  have "MEM_Str \<in> mflags m \<Longrightarrow> MEM_Null \<notin> mflags m" using assms by (auto simp: mem_ok_def)
  then show ?thesis using assms by (simp add: mismatch_cell_def)
qed

lemma keeps_MustBeInt: "keeps (op_MustBeInt E op)"
proof (rule keepsI)
  fix s :: "('a, 'b) vdbe" and r s'
  assume s: "vm_ok s" and f: "op_MustBeInt E op s = Some (Break r s')"
  obtain tos rest where st: "stack s = tos # rest"
    using f by (auto simp: op_MustBeInt_def split: list.splits)
  then have m: "mem_ok (mismatch_cell (fp E) tos)" "mem_ok tos" "list_all mem_ok rest"
    using s mem_ok_mismatch by (auto simp: vm_ok_def)
  show "vm_ok s'"
    using f s st m
    by (auto simp: op_MustBeInt_def Let_def break_simps intro!: vm_ok_stack split: if_splits option.splits)
qed

lemma keeps_binary: "keeps (compare_op E c opc op)" "keeps (op_logic E op)"
proof -
  show "keeps (compare_op E c opc op)"
    by (auto simp: keeps_def break_simps Let_def compare_op_def intro!: vm_ok_stack dest: vm_ok_top
        split: list.splits if_splits)
  show "keeps (op_logic E op)"
    by (auto simp: keeps_def break_simps Let_def op_logic_def intro!: vm_ok_stack dest: vm_ok_top
        split: list.splits if_splits)
qed

lemma keeps_null_tests: "keeps (op_IsNull op)" "keeps (op_NotNull op)"
  by (auto simp: keeps_def break_simps Let_def op_IsNull_def op_NotNull_def intro: vm_ok_pop split: if_splits)

section \<open>The other instructions\<close>

lemma vm_ok_pop_push:
  "pop_stack n s1 = Some s2 \<Longrightarrow> push m s2 = Some s' \<Longrightarrow> vm_ok s1 \<Longrightarrow> mem_ok m \<Longrightarrow> vm_ok s'"
  using vm_ok_push [of m s2 s'] vm_ok_pop [of n s1 s2] by blast

lemma keeps_records: "keeps (op_MakeRecord E op)" "keeps (op_SortMakeRec E op)" "keeps (op_SortMakeKey E op)"
proof -
  show "keeps (op_MakeRecord E op)"
    by (rule keepsI) (auto simp: op_MakeRecord_def Let_def break_simps intro: vm_ok_pop_push split: if_splits)
  show "keeps (op_SortMakeRec E op)"
    by (rule keepsI) (auto simp: op_SortMakeRec_def Let_def break_simps intro: vm_ok_pop_push split: if_splits)
  show "keeps (op_SortMakeKey E op)"
    by (rule keepsI) (auto simp: op_SortMakeKey_def Let_def break_simps intro: vm_ok_pop_push
        split: if_splits option.splits p3val.splits)
qed

definition storage_keeps :: "('f, 'r, 'l) venv \<Rightarrow> bool" where
  "storage_keeps E \<longleftrightarrow> (\<forall>op s r s'. vm_ok s \<longrightarrow> storage_op E op s = Some (r, s') \<longrightarrow> vm_ok s')"

lemma keeps_Column: "storage_keeps E \<Longrightarrow> keeps (op_Column E op)"
  by (rule keepsI) (auto simp: op_Column_def Let_def break_simps storage_keeps_def intro: vm_ok_push
      split: if_splits option.splits column.splits prod.splits)

lemma keeps_pops: "keeps (op_IncrKey E op)" "keeps (op_IdxIsNull op)" "keeps (op_ListWrite E op)"
  "keeps (op_SortPut E op)"
proof -
  note D = keeps_def break_simps Let_def
  show "keeps (op_IncrKey E op)"
    by (auto simp: D op_IncrKey_def intro!: vm_ok_stack dest: vm_ok_top split: list.splits if_splits)
  show "keeps (op_IdxIsNull op)"
    by (auto simp: D op_IdxIsNull_def intro!: vm_ok_stack dest: vm_ok_top split: list.splits if_splits)
  show "keeps (op_ListWrite E op)"
    by (auto simp: D op_ListWrite_def vm_ok_def split: list.splits if_splits)
  show "keeps (op_SortPut E op)"
    by (auto simp: D op_SortPut_def vm_ok_def split: list.splits if_splits)
qed

lemma keeps_lists: "keeps (op_ListRead E op)" "keeps (op_ListReset op)" "keeps (op_ListPush op)"
  "keeps (op_ListPop op)" "keeps (op_Sort E op)" "keeps (op_SortReset op)"
proof -
  show "keeps (op_ListRead E op)"
    by (auto simp: keeps_def break_simps op_ListRead_def intro: vm_ok_push
        split: if_splits option.splits prod.splits)
  show "keeps (op_ListReset op)" "keeps (op_ListPush op)" "keeps (op_ListPop op)" "keeps (op_Sort E op)"
      "keeps (op_SortReset op)"
    by (auto simp: keeps_def break_simps op_ListReset_def op_ListPush_def op_ListPop_def op_Sort_def
        op_SortReset_def vm_ok_def split: list.splits)
qed

lemma keeps_SortNext: "keeps (op_SortNext E op)"
  by (auto simp: keeps_def break_simps op_SortNext_def intro: vm_ok_push split: if_splits list.splits)

lemma keeps_SortCallback: "keeps (op_SortCallback E op)"
proof (rule keepsI)
  fix s :: "('a, 'b) vdbe" and r s'
  assume s: "vm_ok s" and f: "op_SortCallback E op s = Some (Break r s')"
  obtain tos rest where st: "stack s = tos # rest"
    using f by (auto simp: op_SortCallback_def split: list.splits)
  obtain cb s1 where cb: "call_back cb (p1 op, Some (margs tos), azColName s) s = Inl (r, s1)"
    and s': "s' = s1\<lparr>nCallback := nCallback s1 + 1, stack := rest\<rparr>"
    using f st by (auto simp: op_SortCallback_def Option.bind_eq_Some_conv
        split: option.splits sum.splits prod.splits)
  have "stack s1 = stack s" using cb by (auto simp: call_back_def Let_def split: prod.splits bool.splits)
  then show "vm_ok s'"
    using call_back_ok [OF cb s] st s' by (auto simp: vm_ok_def)
qed

lemma untyped_mem0 [simp]: "mflags (mem0 F) = {}"
  by (simp add: mem0_def)

lemma keeps_MemStore: "keeps (op_MemStore E op)"
proof (rule keepsI)
  fix s :: "('a, 'b) vdbe" and r s'
  assume s: "vm_ok s" and f: "op_MemStore E op s = Some (Break r s')"
  obtain tos rest where st: "stack s = tos # rest"
    using f by (auto simp: op_MemStore_def split: list.splits)
  let ?P = "\<lambda>m :: 'b mem. mflags m = {} \<or> mem_ok m"
  have m: "mem_ok (entity_ephem_to_dyn tos)" using s st by (auto simp: vm_ok_def)
  have "list_all ?P (grow_mem (fp E) i (aMem s))" for i
    using s by (auto simp: grow_mem_def vm_ok_def list_all_iff)
  then have "list_all ?P ((grow_mem (fp E) i (aMem s))[i := entity_ephem_to_dyn tos])" for i
    using m by (intro list_all_update) auto
  then show "vm_ok s'"
    using f s st m by (auto simp: op_MemStore_def Let_def break_simps vm_ok_def split: if_splits)
qed

lemma keeps_MemIncr: "keeps (op_MemIncr E op)"
proof (rule keepsI)
  fix s :: "('a, 'b) vdbe" and r s'
  assume s: "vm_ok s" and f: "op_MemIncr E op s = Some (Break r s')"
  let ?P = "\<lambda>m :: 'b mem. mflags m = {} \<or> mem_ok m" and ?m = "aMem s ! nat (p1 op)"
  have "list_all ?P (aMem s)" using s by (simp add: vm_ok_def)
  moreover have "nat (p1 op) < length (aMem s)" using f by (auto simp: op_MemIncr_def split: if_splits)
  ultimately have "list_all ?P ((aMem s)[nat (p1 op) := ?m\<lparr>mi := mi ?m + 1\<rparr>])"
    by (intro list_all_update) (auto simp: list_all_length)
  then show "vm_ok s'"
    using f s by (auto simp: op_MemIncr_def Let_def break_simps vm_ok_def jump_def split: if_splits)
qed

text \<open>A memory cell may only be loaded after it was stored.\<close>

definition loads_typed :: "'f vdbe_op \<Rightarrow> ('f, 'r) vdbe \<Rightarrow> bool" where
  "loads_typed op s \<longleftrightarrow>
     (opcode op = OP_MemLoad \<longrightarrow> 0 \<le> p1 op \<longrightarrow> nat (p1 op) < length (aMem s) \<longrightarrow>
        mflags (aMem s ! nat (p1 op)) \<noteq> {})
     \<and> (opcode op = OP_AggGet \<longrightarrow> (\<forall>x \<in> set (agg_elems (agg s)). nat (p2 op) < length (agg_mem x) \<longrightarrow>
          mem_ok (agg_mem x ! nat (p2 op))))"

lemma MemLoad_ok:
  assumes s: "vm_ok s" and f: "op_MemLoad op s = Some (Break r s')" and t: "loads_typed op s" "opcode op = OP_MemLoad"
  shows "vm_ok s'"
proof -
  let ?m = "aMem s ! nat (p1 op)"
  have i: "0 \<le> p1 op" "nat (p1 op) < length (aMem s)" using f by (auto simp: op_MemLoad_def split: if_splits)
  then have "mem_ok ?m" using s t by (auto simp: vm_ok_def loads_typed_def list_all_length)
  then show ?thesis
    using f s i mem_ok_dup(2) [of ?m]
    by (auto simp: op_MemLoad_def Let_def break_simps intro: vm_ok_push split: if_splits)
qed

text \<open>The hash tables and the aggregates are outside what a well-formed machine constrains.\<close>

definition same_cells :: "('f, 'r) vdbe \<Rightarrow> ('f, 'r) vdbe \<Rightarrow> bool" where
  "same_cells s t \<longleftrightarrow> t\<lparr>agg := agg s, aSet := aSet s, brk := brk s\<rparr> = s"

lemma same_cells_updates [simp]:
  "same_cells s s" "same_cells s (t\<lparr>agg := A\<rparr>) = same_cells s t" "same_cells s (t\<lparr>aSet := ss\<rparr>) = same_cells s t"
  "same_cells s (t\<lparr>brk := b\<rparr>) = same_cells s t" "same_cells s (set_cell i k m t) = same_cells s t"
  by (simp_all add: same_cells_def set_cell_def Let_def)

lemma same_cells_fields:
  assumes "same_cells s t"
  shows "vm_ok t = vm_ok s" "stack t = stack s" "lpc t = lpc s"
proof -
  define u where "u = t\<lparr>agg := agg s, aSet := aSet s, brk := brk s\<rparr>"
  have "u = s" using assms unfolding same_cells_def u_def .
  moreover have "vm_ok u = vm_ok t" "stack u = stack t" "lpc u = lpc t" by (simp_all add: u_def)
  ultimately show "vm_ok t = vm_ok s" "stack t = stack s" "lpc t = lpc s" by simp_all
qed

lemma same_cells_tables:
  "agg_insert E key s = Some t \<Longrightarrow> same_cells s t"
  "set_add i key s = Some t \<Longrightarrow> same_cells s t"
proof -
  show "agg_insert E key s = Some t \<Longrightarrow> same_cells s t"
    by (simp only: agg_insert_def Let_def Option.bind_eq_Some_conv, elim exE conjE)
      (clarsimp simp: Option.bind_eq_Some_conv split: if_splits)
  show "set_add i key s = Some t \<Longrightarrow> same_cells s t"
    by (auto simp: set_add_def Let_def Option.bind_eq_Some_conv split: prod.splits)
qed

lemma same_cells_focus: "agg_in_focus E s = Some (i, t) \<Longrightarrow> same_cells s t"
  by (auto simp: agg_in_focus_def Option.bind_eq_Some_conv dest: same_cells_tables
      split: option.splits if_splits)

lemma vm_ok_rest:
  assumes "vm_ok s" "stack s = m # ms"
  shows "vm_ok (s\<lparr>stack := ms\<rparr>)" "vm_ok (s\<lparr>stack := drop n ms\<rparr>)"
  using assms by (auto simp: vm_ok_def)

lemma vm_ok_set_cell [simp]:
  "vm_ok ((set_cell i k c s)\<lparr>stack := ms\<rparr>) = vm_ok (s\<lparr>stack := ms\<rparr>)"
  by (simp add: vm_ok_def set_cell_def Let_def)

lemma keeps_aggregates: "keeps (op_AggReset E op)" "keeps (op_AggInit op)" "keeps (op_AggNext E op)"
  by (auto simp: keeps_def op_AggReset_def op_AggInit_def op_AggNext_def Let_def
      break_simps split: if_splits option.splits p3val.splits)

lemma keeps_AggFunc: "keeps (op_AggFunc E op)"
proof (rule keepsI)
  fix s :: "('a, 'b) vdbe" and r s'
  assume s: "vm_ok s" and f: "op_AggFunc E op s = Some (Break r s')"
  then obtain m ms where st: "stack s = m # ms" by (cases "stack s") (auto simp: op_AggFunc_def)
  then obtain i c where "s' = (set_cell i (sint (mi m)) c s)\<lparr>stack := drop (nat (p2 op)) ms\<rparr>"
    using f by (auto simp: op_AggFunc_def Let_def Option.bind_eq_Some_conv case_prod_beta split: if_splits)
  then show "vm_ok s'" using vm_ok_rest(2) [OF s st] by simp
qed

lemma keeps_AggFocus: "keeps (op_AggFocus E op)"
proof (rule keepsI)
  fix s :: "('a, 'b) vdbe" and r s'
  assume s: "vm_ok s" and f: "op_AggFocus E op s = Some (Break r s')"
  then obtain m ms where st: "stack s = m # ms" by (cases "stack s") (auto simp: op_AggFocus_def)
  from f st obtain t where t: "same_cells s t" "s' = t\<lparr>stack := ms\<rparr> \<or> s' = jump op (t\<lparr>stack := ms\<rparr>)"
    by (simp add: op_AggFocus_def Let_def Option.bind_eq_Some_conv split: option.splits)
      (elim exE conjE; force simp: break_simps dest: same_cells_tables)
  then show "vm_ok s'" using s st vm_ok_rest(1) [of t m ms] same_cells_fields [of s t] by auto
qed

lemma keeps_AggSet: "keeps (op_AggSet E op)"
proof (rule keepsI)
  fix s :: "('a, 'b) vdbe" and r s'
  assume s: "vm_ok s" and f: "op_AggSet E op s = Some (Break r s')"
  then obtain i t where t: "agg_in_focus E s = Some (i, t)"
    by (auto simp: op_AggSet_def Option.bind_eq_Some_conv)
  then obtain m ms where st: "stack t = m # ms" using f by (cases "stack t") (auto simp: op_AggSet_def)
  have "s' = (set_cell i (p2 op) (entity_ephem_to_dyn m) t)\<lparr>stack := ms\<rparr>"
    using f t st by (auto simp: op_AggSet_def break_simps)
  moreover have "vm_ok (t\<lparr>stack := ms\<rparr>)"
    using s st vm_ok_rest(1) [of t m ms] same_cells_fields(1) [OF same_cells_focus [OF t]] by simp
  ultimately show "vm_ok s'" by simp
qed

lemma keeps_sets: "keeps (op_SetFound E op)" "keeps (op_SetNotFound E op)"
  by (auto simp: keeps_def op_SetFound_def op_SetNotFound_def Let_def break_simps vm_ok_rest
      split: if_splits option.splits list.splits)

lemma keeps_SetInsert: "keeps (op_SetInsert E op)"
proof (rule keepsI)
  fix s :: "('a, 'b) vdbe" and r s'
  assume s: "vm_ok s" and f: "op_SetInsert E op s = Some (Break r s')"
  obtain u where u: "same_cells s u" "\<exists>i k. set_add i k u = Some s' \<or>
      (\<exists>t m ms. set_add i k u = Some t \<and> stack u = m # ms \<and> s' = t\<lparr>stack := ms\<rparr>)"
    using f by (simp add: op_SetInsert_def Let_def Option.bind_eq_Some_conv split: if_splits)
      (elim exE conjE; force simp: break_simps split: option.splits list.splits p3val.splits)
  show "vm_ok s'"
    using u(2)
  proof (elim exE disjE conjE)
    fix i k assume "set_add i k u = Some s'"
    then show ?thesis using s same_cells_fields(1) [OF u(1)] same_cells_fields(1) [OF same_cells_tables(2)] by metis
  next
    fix i k t m ms assume *: "set_add i k u = Some t" "stack u = m # ms" "s' = t\<lparr>stack := ms\<rparr>"
    have "vm_ok t" "stack t = m # ms"
      using s * same_cells_fields(1,2) [OF u(1)] same_cells_fields(1,2) [OF same_cells_tables(2) [OF *(1)]] by simp_all
    then show ?thesis using vm_ok_rest(1) * by metis
  qed
qed

lemma keeps_members: "keeps (op_SetFirst E op)" "keeps (op_SetNext E op)"
  by (auto simp: keeps_def op_SetFirst_def op_SetNext_def push_member_def Let_def break_simps
      elim!: vm_ok_push split: if_splits option.splits)

text \<open>A cell in focus was there before, or is the NULL cell of a new element.\<close>

lemma insert_elems:
  "agg_insert E key s = Some t \<Longrightarrow> agg_elems (agg t) = agg_elems (agg s) \<or>
    (\<exists>n. agg_elems (agg t) = agg_elems (agg s) @ [\<lparr>agg_key = key, agg_mem = replicate n (null_cell (fp E))\<rparr>])"
  by (simp only: agg_insert_def Let_def Option.bind_eq_Some_conv, elim exE conjE)
    (clarsimp simp: Option.bind_eq_Some_conv split: if_splits)

lemma focus_cells:
  assumes "agg_in_focus E s = Some (i, u)" and "agg_cell u i k = Some m"
  shows "mem_ok m \<or> (\<exists>x \<in> set (agg_elems (agg s)). nat k < length (agg_mem x) \<and> agg_mem x ! nat k = m)"
proof -
  have "agg_elems (agg u) = agg_elems (agg s) \<or>
      (\<exists>key n. agg_elems (agg u) = agg_elems (agg s) @ [\<lparr>agg_key = key, agg_mem = replicate n (null_cell (fp E))\<rparr>])"
    using assms(1)
    by (auto simp: agg_in_focus_def Option.bind_eq_Some_conv dest!: insert_elems split: option.splits if_splits)
  then have "agg_elems (agg u) ! i \<in> set (agg_elems (agg s)) \<or>
      (\<exists>n. agg_mem (agg_elems (agg u) ! i) = replicate n (null_cell (fp E)))"
    using assms(2) by (auto simp: agg_cell_def nth_append split: if_splits)
  moreover have "m = agg_mem (agg_elems (agg u) ! i) ! nat k" "nat k < length (agg_mem (agg_elems (agg u) ! i))"
    using assms(2) by (auto simp: agg_cell_def split: if_splits)
  moreover have "mem_ok (null_cell (fp E))" using mem_ok_cells(1) by (simp add: null_cell_def null_mem_def)
  ultimately show ?thesis by auto
qed

lemma AggGet_ok:
  assumes s: "vm_ok s" and f: "op_AggGet E op s = Some (Break r s')" and t: "loads_typed op s" "opcode op = OP_AggGet"
  shows "vm_ok s'"
proof -
  obtain i u m where u: "agg_in_focus E s = Some (i, u)" "agg_cell u i (p2 op) = Some m"
    and p: "push (if MEM_Str \<in> mflags m
       then m\<lparr>mflags := insert MEM_Ephem (mflags m - {MEM_Dyn, MEM_Static, MEM_Short})\<rparr> else m) u = Some s'"
    using f by (auto simp: op_AggGet_def break_simps split: if_splits)
  have m: "mem_ok m" using focus_cells [OF u] t by (auto simp: loads_typed_def)
  have "insert MEM_Ephem (mflags m - {MEM_Dyn, MEM_Static, MEM_Short}) =
      insert MEM_Ephem (mflags m) - {MEM_Dyn, MEM_Static, MEM_Short}" by auto
  then show ?thesis
    using p s m mem_ok_dup(2) [OF m] same_cells_fields(1) [OF same_cells_focus [OF u(1)]]
    by (auto elim!: vm_ok_push split: if_splits)
qed

lemmas keeps_stack_ops =
  keeps_jumps keeps_pushes keeps_Pop keeps_Dup keeps_Pull keeps_Push keeps_callbacks keeps_Concat
  keeps_arith keeps_bits keeps_unary keeps_MustBeInt keeps_binary keeps_null_tests

lemmas keeps_store_ops =
  keeps_records keeps_pops keeps_lists keeps_SortNext keeps_SortCallback keeps_MemStore keeps_MemIncr

lemmas keeps_table_ops =
  keeps_aggregates keeps_AggFunc keeps_AggFocus keeps_AggSet keeps_sets keeps_SetInsert keeps_members

lemma keepsD: "keeps f \<Longrightarrow> f s = Some (Break r s') \<Longrightarrow> vm_ok s \<Longrightarrow> vm_ok s'"
  by (auto simp: keeps_def)

definition env_ok :: "('f, 'r, 'l) venv \<Rightarrow> bool" where
  "env_ok E \<longleftrightarrow> storage_keeps E \<and> (\<forall>f az d. mem_ok (fst (xFunc E f az d)))"

lemma keeps_ok: "keeps ok"
  by (simp add: keeps_def break_simps)

lemma keeps_compare: "keeps (op_compare E op)" "keeps (op_StrCompare E op)"
  using keeps_binary(1) by (simp_all add: keeps_def op_compare_def op_StrCompare_def)

text \<open>Dispatch: every case of the switch is one of the instructions above.\<close>

definition good :: "('f, 'r) op_result \<Rightarrow> bool" where
  "good x \<longleftrightarrow> (\<forall>r s'. x = Some (Break r s') \<longrightarrow> vm_ok s')"

definition all_good :: "('f, 'r) op_result option \<Rightarrow> bool" where
  "all_good R \<longleftrightarrow> (case R of None \<Rightarrow> True | Some x \<Rightarrow> good x)"

lemma all_good_if: "(c \<Longrightarrow> good x) \<Longrightarrow> (\<not> c \<Longrightarrow> all_good R) \<Longrightarrow> all_good (if c then Some x else R)"
  by (simp add: all_good_def)

lemma all_good_None: "all_good None"
  by (simp add: all_good_def)

lemma keeps_good: "keeps f \<Longrightarrow> vm_ok s \<Longrightarrow> good (f s)"
  by (auto simp: keeps_def good_def)

lemma stack_op_good:
  assumes "env_ok E" and "vm_ok s"
  shows "all_good (stack_op E op s)"
proof -
  have "keeps (op_Function E op)" using assms(1) by (intro keeps_Function) (simp add: env_ok_def)
  note F = this [THEN keeps_good]
  show ?thesis
    unfolding stack_op_def Let_def
    by (intro all_good_if all_good_None F keeps_stack_ops [THEN keeps_good] keeps_compare [THEN keeps_good]
        keeps_ok [THEN keeps_good] assms(2))
qed

lemma store_op_good:
  assumes "env_ok E" and "vm_ok s" and "loads_typed op s"
  shows "all_good (store_op E op s)"
proof -
  have "keeps (op_Column E op)" using assms(1) by (intro keeps_Column) (simp add: env_ok_def)
  note C = this [THEN keeps_good]
  have L: "opcode op = OP_MemLoad \<Longrightarrow> good (op_MemLoad op s)"
    using MemLoad_ok [OF assms(2) _ assms(3)] by (auto simp: good_def)
  show ?thesis
    unfolding store_op_def Let_def
    by (intro all_good_if all_good_None C L keeps_store_ops [THEN keeps_good]
        keeps_ok [THEN keeps_good] assms(2)) assumption
qed

lemma table_op_good:
  assumes "vm_ok s" and "loads_typed op s"
  shows "all_good (table_op E op s)"
proof -
  have G: "opcode op = OP_AggGet \<Longrightarrow> good (op_AggGet E op s)"
    using AggGet_ok [OF assms(1) _ assms(2)] by (auto simp: good_def)
  show ?thesis
    unfolding table_op_def Let_def
    by (intro all_good_if all_good_None G keeps_table_ops [THEN keeps_good] assms(1)) assumption
qed



section \<open>How a run ends\<close>

text \<open>What no instruction changes: the program, the space of the stack, and except for Halt the
  state of the machine.\<close>

definition same_code :: "('f, 'r) vdbe \<Rightarrow> ('f, 'r) vdbe \<Rightarrow> bool" where
  "same_code s t \<longleftrightarrow> magic t = magic s \<and> nOp t = nOp s \<and> aOp t = aOp s \<and> nStack t = nStack s"

text \<open>The ways an instruction returns from the interpreter: a row, the end of the program, an error
  halt, or a return stack that overflows or underflows, which alone leaves the machine running.\<close>

definition returns_ok :: "('f, 'r) vdbe \<Rightarrow> int \<Rightarrow> ('f, 'r) vdbe \<Rightarrow> bool" where
  "returns_ok s r t \<longleftrightarrow>
     (r = DBSQL_ROW \<and> magic t = magic s \<and> pc t = lpc s + 1) \<or>
     (r = DBSQL_DONE \<and> magic t = MAGIC_HALT \<and> rc t = DBSQL_SUCCESS) \<or>
     (r = DBSQL_ERROR \<and> magic t = MAGIC_HALT \<and> rc t \<noteq> DBSQL_SUCCESS) \<or>
     (r = DBSQL_ERROR \<and> magic t = magic s \<and> rc t = DBSQL_INTERNAL)"

definition framed :: "('f, 'r) vdbe \<Rightarrow> ('f, 'r) op_result \<Rightarrow> bool" where
  "framed s x \<longleftrightarrow>
     (case x of None \<Rightarrow> True
      | Some (Break r t) \<Rightarrow> same_code s t
      | Some (Abort r t) \<Rightarrow> same_code s t \<and> r \<noteq> 0
      | Some (Interrupt t) \<Rightarrow> same_code s t
      | Some (Return r t) \<Rightarrow> returns_ok s r t)"

lemma same_code_simps [simp]:
  "same_code s s" "same_code s (t\<lparr>stack := m\<rparr>) = same_code s t" "same_code s (t\<lparr>db := d\<rparr>) = same_code s t"
  "same_code s (t\<lparr>rows := rw\<rparr>) = same_code s t" "same_code s (t\<lparr>nCallback := i\<rparr>) = same_code s t"
  "same_code s (t\<lparr>nResColumn := i\<rparr>) = same_code s t" "same_code s (t\<lparr>azColName := az\<rparr>) = same_code s t"
  "same_code s (set_errmsg ts t) = same_code s t" "same_code s (t\<lparr>pList := pl\<rparr>) = same_code s t"
  "same_code s (t\<lparr>keylistStack := ks\<rparr>) = same_code s t" "same_code s (t\<lparr>pSort := ps\<rparr>) = same_code s t"
  "same_code s (t\<lparr>uniqueCnt := u\<rparr>) = same_code s t" "same_code s (t\<lparr>lpc := j\<rparr>) = same_code s t"
  "same_code s (t\<lparr>nProgress := n\<rparr>) = same_code s t" "same_code s (t\<lparr>progressCalls := n\<rparr>) = same_code s t"
  "same_code s (t\<lparr>aMem := ms\<rparr>) = same_code s t" "same_code s (t\<lparr>returnStack := rs\<rparr>) = same_code s t"
  "same_code s (t\<lparr>agg := A\<rparr>) = same_code s t" "same_code s (t\<lparr>aSet := ss\<rparr>) = same_code s t"
  "same_code s (t\<lparr>brk := a\<rparr>) = same_code s t"
  "same_code s (jump op t) = same_code s t" "same_code s (stringify_top E k t) = same_code s t"
  by (simp_all add: same_code_def set_errmsg_def jump_def stringify_top_def)

lemma same_code_push: "push m t = Some t' \<Longrightarrow> same_code s t' = same_code s t"
  by (auto simp: push_def split: if_splits)

lemma same_code_pop: "pop_stack n t = Some t' \<Longrightarrow> same_code s t' = same_code s t"
  by (auto simp: pop_stack_def split: if_splits)

lemma framed_ok [simp]: "framed s (ok t) = same_code s t"
  by (simp add: framed_def ok_def)

lemma framed_None [simp]: "framed s None"
  by (simp add: framed_def)

lemma framed_ends [simp]:
  "framed s (Some (Break r t)) = same_code s t"
  "framed s (Some (Abort r t)) = (same_code s t \<and> r \<noteq> 0)"
  "framed s (Some (Interrupt t)) = same_code s t"
  "framed s (Some (Return r t)) = returns_ok s r t"
  by (simp_all add: framed_def)

lemma framed_next: "(\<And>t'. x = Some t' \<Longrightarrow> same_code s t') \<Longrightarrow> framed s (next_op x)"
  by (cases x) (simp_all add: next_op_def)

lemma framed_bind: "(\<And>v. x = Some v \<Longrightarrow> framed s (f v)) \<Longrightarrow> framed s (x \<bind> f)"
  by (cases x) simp_all

lemma framed_push [simp]: "same_code s t \<Longrightarrow> framed s (next_op (push m t))"
  by (rule framed_next) (simp add: same_code_push)

lemma framed_pop [simp]: "same_code s t \<Longrightarrow> framed s (next_op (pop_stack n t))"
  by (rule framed_next) (simp add: same_code_pop)

lemma framed_interrupt [simp]: "framed s (check_interrupt s k) = (interrupt (db s) \<or> framed s k)"
  by (simp add: check_interrupt_def)

lemma framed_jumps: "framed s (op_Goto op s)" "framed s (op_Gosub op s)" "framed s (op_Return op s)"
  "framed s (op_Halt op s)"
  by (auto simp: op_Goto_def op_Gosub_def op_Return_def op_Halt_def Let_def returns_ok_def set_errmsg_def
      intro!: framed_bind split: list.splits option.splits)

lemma framed_pushes: "framed s (op_Integer E op s)" "framed s (op_String E op s)" "framed s (op_Variable E op s)"
  "framed s (op_Pop op s)" "framed s (op_Dup op s)" "framed s (op_Pull op s)" "framed s (op_Push op s)"
  "framed s (op_ColumnName op s)"
  by (auto simp: op_Integer_def op_String_def op_Variable_def op_Pop_def op_Dup_def op_Pull_def op_Push_def
      op_ColumnName_def Let_def intro!: framed_bind)

lemma call_back_frame:
  "call_back cb rw s = Inl (r, t) \<Longrightarrow> same_code s t" "call_back cb rw s = Inr t \<Longrightarrow> same_code s t"
  by (auto simp: call_back_def Let_def split: prod.splits bool.splits)

lemma same_code_trans: "same_code s t \<Longrightarrow> same_code t u \<Longrightarrow> same_code s u"
  by (simp add: same_code_def)

lemma lpc_stringify [simp]: "lpc (stringify_top E n s) = lpc s" "magic (stringify_top E n s) = magic s"
  by (simp_all add: stringify_top_def)

lemma framed_Callback: "framed s (op_Callback E op s)"
proof -
  define u where "u = stringify_top E (nat (p1 op)) s"
  have u: "same_code s u" "lpc u = lpc s" "magic u = magic s" by (simp_all add: u_def)
  show ?thesis
    unfolding op_Callback_def Let_def u_def [symmetric]
    using u call_back_frame [THEN same_code_trans [OF u(1)]]
    by (auto simp: returns_ok_def same_code_pop intro!: framed_bind
        split: option.splits sum.splits prod.splits)
qed

lemma framed_NullCallback: "framed s (op_NullCallback E op s)"
  by (auto simp: op_NullCallback_def split: option.splits sum.splits prod.splits dest: call_back_frame)

lemma framed_Function: "framed s (op_Function E op s)"
  by (auto simp: op_Function_def Let_def same_code_push same_code_pop intro!: framed_bind
      split: option.splits p3val.splits prod.splits bool.splits)

lemma framed_Concat: "framed s (op_Concat E op s)"
  by (auto simp: op_Concat_def Let_def same_code_pop intro!: framed_bind split: prod.splits if_splits)

lemma framed_binary: "framed s (op_arith E op s)" "framed s (op_bits E op s)" "framed s (compare_op E c opc op s)"
  "framed s (op_logic E op s)"
  by (auto simp: op_arith_def op_bits_def compare_op_def op_logic_def Let_def intro!: framed_bind
      split: list.splits)

lemma framed_compare: "framed s (op_compare E op s)" "framed s (op_StrCompare E op s)"
  by (simp_all add: op_compare_def op_StrCompare_def framed_binary)

lemma framed_unary: "framed s (op_AddImm E op s)" "framed s (op_ForceInt E op s)" "framed s (op_MustBeInt E op s)"
  "framed s (op_sign E op s)" "framed s (op_Not E op s)" "framed s (op_BitNot E op s)" "framed s (op_If E op s)"
  "framed s (op_IsNull op s)" "framed s (op_NotNull op s)"
  by (auto simp: op_AddImm_def op_ForceInt_def op_MustBeInt_def op_sign_def op_Not_def op_BitNot_def op_If_def
      op_IsNull_def op_NotNull_def Let_def intro!: framed_bind split: list.splits option.splits)

definition storage_frames :: "('f, 'r, 'l) venv \<Rightarrow> bool" where
  "storage_frames E \<longleftrightarrow> (\<forall>op s r t. storage_op E op s = Some (r, t) \<longrightarrow> same_code s t)"

lemma framed_records: "framed s (op_MakeRecord E op s)" "framed s (op_SortMakeRec E op s)"
  "framed s (op_SortMakeKey E op s)" "storage_frames E \<Longrightarrow> framed s (op_Column E op s)"
  by (auto simp: op_MakeRecord_def op_SortMakeRec_def op_SortMakeKey_def op_Column_def Let_def
      same_code_pop same_code_push storage_frames_def intro!: framed_bind
      split: option.splits p3val.splits column.splits)

lemma framed_stores: "framed s (op_IncrKey E op s)" "framed s (op_IdxIsNull op s)" "framed s (op_ListWrite E op s)"
  "framed s (op_ListRead E op s)" "framed s (op_ListReset op s)" "framed s (op_ListPush op s)"
  "framed s (op_ListPop op s)" "framed s (op_SortPut E op s)" "framed s (op_Sort E op s)"
  "framed s (op_SortNext E op s)" "framed s (op_SortReset op s)" "framed s (op_MemStore E op s)"
  "framed s (op_MemLoad op s)" "framed s (op_MemIncr E op s)"
  by (auto simp: op_IncrKey_def op_IdxIsNull_def op_ListWrite_def op_ListRead_def op_ListReset_def op_ListPush_def
      op_ListPop_def op_SortPut_def op_Sort_def op_SortNext_def op_SortReset_def op_MemStore_def op_MemLoad_def
      op_MemIncr_def Let_def intro!: framed_bind split: list.splits option.splits)

lemma framed_SortCallback: "framed s (op_SortCallback E op s)"
  by (auto simp: op_SortCallback_def returns_ok_def intro!: framed_bind dest: call_back_frame
      split: list.splits option.splits sum.splits prod.splits)

lemma same_code_tables:
  assumes "same_cells t u"
  shows "same_code s u = same_code s t"
proof -
  define v where "v = u\<lparr>agg := agg t, aSet := aSet t, brk := brk t\<rparr>"
  have "v = t" using assms unfolding same_cells_def v_def .
  moreover have "same_code s v = same_code s u" by (simp add: v_def)
  ultimately show ?thesis by simp
qed

lemma framed_tables: "framed s (op_AggReset E op s)" "framed s (op_AggInit op s)" "framed s (op_AggFunc E op s)"
  "framed s (op_AggFocus E op s)" "framed s (op_AggSet E op s)" "framed s (op_AggGet E op s)"
  "framed s (op_AggNext E op s)" "framed s (op_SetInsert E op s)" "framed s (op_SetFound E op s)"
  "framed s (op_SetNotFound E op s)" "framed s (op_SetFirst E op s)" "framed s (op_SetNext E op s)"
  by (auto simp: op_AggReset_def op_AggInit_def op_AggFunc_def op_AggFocus_def op_AggSet_def op_AggGet_def
      op_AggNext_def op_SetInsert_def op_SetFound_def op_SetNotFound_def op_SetFirst_def op_SetNext_def
      push_member_def set_cell_def Let_def same_code_push same_code_tables [OF same_cells_tables(1)]
      same_code_tables [OF same_cells_tables(2)] same_code_tables [OF same_cells_focus]
      intro!: framed_bind framed_next split: list.splits option.splits p3val.splits prod.splits)

lemmas framed_ops = framed_tables framed_jumps framed_pushes framed_Callback framed_NullCallback framed_Function framed_Concat
  framed_binary framed_compare framed_unary framed_records framed_stores framed_SortCallback

definition all_framed :: "('f, 'r) vdbe \<Rightarrow> ('f, 'r) op_result option \<Rightarrow> bool" where
  "all_framed s R \<longleftrightarrow> (case R of None \<Rightarrow> True | Some x \<Rightarrow> framed s x)"

lemma all_framed_if: "framed s x \<Longrightarrow> all_framed s R \<Longrightarrow> all_framed s (if c then Some x else R)"
  by (simp add: all_framed_def)

lemma all_framed_None: "all_framed s None"
  by (simp add: all_framed_def)

lemma exec_op_framed:
  assumes "storage_frames E" shows "framed s (exec_op E op s)"
proof -
  have k: "framed s (ok s)" by simp
  have "all_framed s (stack_op E op s)"
    unfolding stack_op_def Let_def by (intro all_framed_if all_framed_None framed_ops k)
  moreover have "all_framed s (store_op E op s)"
    unfolding store_op_def Let_def by (intro all_framed_if all_framed_None framed_ops k assms)
  moreover have "all_framed s (table_op E op s)"
    unfolding table_op_def Let_def by (intro all_framed_if all_framed_None framed_ops k)
  ultimately show ?thesis
    using assms
    by (auto simp: exec_op_def all_framed_def unknown_op_def storage_frames_def split: option.splits)
qed

lemma vdbe_halt_ends: "r \<noteq> 0 \<Longrightarrow> vdbe_halt r t = Stop r' u \<Longrightarrow> returns_ok s r' u"
  by (auto simp: vdbe_halt_def returns_ok_def)

lemma vdbe_halt_stops: "vdbe_halt r t \<noteq> Continue u"
  by (simp add: vdbe_halt_def)

lemma halt_labels: "r \<noteq> 0 \<Longrightarrow> abort_due_to_error E r t = Stop r' u \<Longrightarrow> returns_ok s r' u"
  "abort_due_to_interrupt E t = Stop r' u \<Longrightarrow> returns_ok s r' u"
  "abort_due_to_error E r t \<noteq> Continue u" "abort_due_to_interrupt E t \<noteq> Continue u"
  by (auto simp: abort_due_to_error_def abort_due_to_interrupt_def Let_def vdbe_halt_stops
      elim!: vdbe_halt_ends [rotated] split: if_splits)

lemma after_switch_ends:
  "after_switch E r t = Some (Stop r' u) \<Longrightarrow> returns_ok s r' u"
  "after_switch E r t = Some (Continue u) \<Longrightarrow> same_code s u = same_code s t"
  by (auto simp: after_switch_def Let_def vdbe_halt_stops elim!: vdbe_halt_ends [rotated] split: if_splits)

lemma progress_frame: "progress E s = (b, t) \<Longrightarrow> same_code s t \<and> lpc t = lpc s"
  by (auto simp: progress_def split: option.splits if_splits)

lemma returns_frame: "same_code s u \<Longrightarrow> lpc u = lpc s \<Longrightarrow> returns_ok u r t = returns_ok s r t"
  by (auto simp: same_code_def returns_ok_def)

lemma vdbe_step_ends:
  assumes "storage_frames E"
  shows "vdbe_step E s = Some (Stop r t) \<Longrightarrow> \<exists>u. same_code s u \<and> returns_ok u r t"
    and "vdbe_step E s = Some (Continue t) \<Longrightarrow> same_code s t"
proof -
  obtain b u where p: "progress E s = (b, u)" by fastforce
  note pf = progress_frame [OF p]
  have fr: "framed u (exec_op E (aOp u ! nat (lpc u)) u)" by (rule exec_op_framed [OF assms])
  show "\<exists>u. same_code s u \<and> returns_ok u r t" if st: "vdbe_step E s = Some (Stop r t)"
  proof -
    have "returns_ok u r t"
      using st p fr vdbe_halt_ends [of DBSQL_ABORT]
      by (auto simp: vdbe_step_def framed_def halt_labels(1,2) after_switch_ends(1)
          split: if_splits bool.splits option.splits switch_end.splits)
    then show ?thesis using pf by blast
  qed
  show "same_code s t" if st: "vdbe_step E s = Some (Continue t)"
  proof -
    have "same_code u t"
      using st p fr
      by (auto simp: vdbe_step_def framed_def halt_labels(3,4) vdbe_halt_stops after_switch_ends(2)
          split: if_splits bool.splits option.splits switch_end.splits)
    then show ?thesis using pf same_code_trans by blast
  qed
qed



end
