(* ===== verification/StoreProps.thy ===== *)
theory StoreProps
  imports Exec
begin

text \<open>
  The stores of the machine: the lists of record numbers give back what was written, sort keys are
  the ones the sorter orders, and a machine's life from preparation to the binding of variables.
\<close>

section \<open>Lists of record numbers\<close>

definition unread :: "keylist \<Rightarrow> i32 list" where
  "unread k = drop (nRead k) (take (nUsed k) (aKey k))"

definition contents :: "keylist list \<Rightarrow> i32 list" where
  "contents ks = concat (map unread ks)"

definition block_ok :: "keylist \<Rightarrow> bool" where
  "block_ok k \<longleftrightarrow> nKey k = 1000 \<and> length (aKey k) = 1000 \<and> nUsed k \<le> 1000 \<and> nRead k < nUsed k"

definition keylist_ok :: "keylist list \<Rightarrow> bool" where
  "keylist_ok ks \<longleftrightarrow> list_all block_ok ks"

lemma contents_simps [simp]: "contents [] = []" "contents (k # ks) = unread k @ contents ks"
  by (simp_all add: contents_def)

lemma keylist_ok_simps [simp]: "keylist_ok []" "keylist_ok (k # ks) = (block_ok k \<and> keylist_ok ks)"
  by (simp_all add: keylist_ok_def)

text \<open>Writing appends to the first block, or opens a block in front of the others.\<close>

lemma write_block:
  assumes "block_ok k \<or> k = new_keylist" and "nUsed k < 1000"
  shows "block_ok (k\<lparr>aKey := (aKey k)[nUsed k := i], nUsed := nUsed k + 1\<rparr>)
    \<and> unread (k\<lparr>aKey := (aKey k)[nUsed k := i], nUsed := nUsed k + 1\<rparr>) = unread k @ [i]"
proof -
  have l: "length (aKey k) = 1000" "nRead k \<le> nUsed k" "nKey k = 1000"
    using assms(1) by (auto simp: block_ok_def new_keylist_def)
  have "take (Suc (nUsed k)) ((aKey k)[nUsed k := i]) = take (nUsed k) (aKey k) @ [i]"
    using l assms(2) by (simp add: take_Suc_conv_app_nth)
  then show ?thesis using l assms(2) by (simp add: block_ok_def unread_def)
qed

lemma unread_new [simp]: "unread new_keylist = []"
  by (simp add: unread_def new_keylist_def)

lemma write_spec:
  assumes "keylist_ok ks"
  shows "keylist_ok (keylist_write i ks)
    \<and> contents (keylist_write i ks) =
       (case ks of [] \<Rightarrow> [i]
        | k # r \<Rightarrow> if nUsed k < 1000 then unread k @ [i] @ contents r else [i] @ contents ks)"
proof (cases ks)
  case Nil
  then show ?thesis
    using write_block [of new_keylist i] by (simp add: keylist_write_def) (simp add: new_keylist_def)
next
  case (Cons k r)
  then have k: "block_ok k" "nKey k = 1000" "keylist_ok r" using assms by (auto simp: block_ok_def)
  show ?thesis
  proof (cases "nUsed k < 1000")
    case True
    then show ?thesis using Cons k write_block [of k i] by (simp add: keylist_write_def)
  next
    case False
    then show ?thesis
      using Cons k write_block [of new_keylist i]
      by (simp add: keylist_write_def) (simp add: new_keylist_def)
  qed
qed

lemma read_spec:
  assumes "keylist_ok ks" and "contents ks = i # is"
  shows "\<exists>ks'. keylist_read ks = Some (Some (i, ks')) \<and> keylist_ok ks' \<and> contents ks' = is"
proof -
  obtain k r where ks: "ks = k # r" using assms(2) by (cases ks) auto
  have b: "nRead k < nUsed k" "nUsed k \<le> 1000" "length (aKey k) = 1000" "nKey k = 1000" "keylist_ok r"
    using assms(1) ks by (auto simp: block_ok_def)
  have u: "unread k = aKey k ! nRead k # drop (Suc (nRead k)) (take (nUsed k) (aKey k))"
    using b by (simp add: unread_def Cons_nth_drop_Suc [symmetric])
  show ?thesis
  proof (cases "nRead k + 1 \<ge> nUsed k")
    case True
    then show ?thesis using assms ks b u by (auto simp: keylist_read_def Let_def)
  next
    case False
    then show ?thesis
      using assms ks b u by (auto simp: keylist_read_def Let_def block_ok_def unread_def)
  qed
qed

text \<open>Reading until the list is empty.\<close>

fun drain :: "nat \<Rightarrow> keylist list \<Rightarrow> i32 list \<times> keylist list" where
  "drain 0 ks = ([], ks)"
| "drain (Suc n) ks =
     (case keylist_read ks of
        Some (Some (i, ks')) \<Rightarrow> (case drain n ks' of (is, r) \<Rightarrow> (i # is, r))
      | _ \<Rightarrow> ([], ks))"

lemma drain_contents: "keylist_ok ks \<Longrightarrow> drain (length (contents ks)) ks = (contents ks, [])"
proof (induction "contents ks" arbitrary: ks)
  case Nil
  then have "ks = []" by (cases ks) (auto simp: block_ok_def unread_def)
  then show ?case by simp
next
  case (Cons i "is")
  from read_spec [OF Cons.prems Cons.hyps(2) [symmetric]] obtain ks' where
    r: "keylist_read ks = Some (Some (i, ks'))" "keylist_ok ks'" "contents ks' = is" by blast
  then show ?case using Cons.hyps(1) [of ks'] Cons.hyps(2) by (simp flip: Cons.hyps(2))
qed

definition keylist_writes :: "i32 list \<Rightarrow> keylist list" where
  "keylist_writes xs = foldl (\<lambda>ks i. keylist_write i ks) [] xs"

lemma writes_spec:
  "keylist_ok (keylist_writes xs) \<and> mset (contents (keylist_writes xs)) = mset xs
   \<and> (length xs \<le> 1000 \<longrightarrow> contents (keylist_writes xs) = xs
        \<and> (keylist_writes xs = [] \<or> (\<exists>k. keylist_writes xs = [k] \<and> nUsed k = length xs)))"
proof (induction xs rule: rev_induct)
  case Nil
  then show ?case by (simp add: keylist_writes_def)
next
  case (snoc x xs)
  let ?w = "keylist_writes xs"
  have w: "keylist_writes (xs @ [x]) = keylist_write x ?w" by (simp add: keylist_writes_def)
  have m: "mset (contents (keylist_write x ?w)) = mset (contents ?w) + {#x#}"
    using write_spec [of ?w x] snoc by (auto split: list.splits)
  have o: "contents (keylist_write x ?w) = xs @ [x]
      \<and> (\<exists>k. keylist_write x ?w = [k] \<and> nUsed k = length (xs @ [x]))" if "length (xs @ [x]) \<le> 1000"
  proof (cases "?w = []")
    case True
    then show ?thesis using write_spec [of ?w x] snoc that by (auto simp: keylist_write_def new_keylist_def)
  next
    case False
    have "length xs \<le> 1000" using that by simp
    with False obtain k where k: "?w = [k]" "nUsed k = length xs" using snoc by auto
    then have "block_ok k" using snoc by (metis keylist_ok_simps(2))
    then show ?thesis
      using k write_spec [of ?w x] snoc that by (auto simp: keylist_write_def block_ok_def)
  qed
  show ?case using w m o snoc write_spec [of ?w x] by auto
qed

text \<open>C31: reading a list of record numbers until it is empty gives every number that was written
  exactly once and leaves the list empty; up to 1000 numbers, the size of a block, come back
  in the order they were written.\<close>

theorem keylist_returns_all:
  "\<exists>ys. drain (length xs) (keylist_writes xs) = (ys, []) \<and> mset ys = mset xs
     \<and> (length xs \<le> 1000 \<longrightarrow> ys = xs) \<and> keylist_read [] = Some None"
proof -
  note w = writes_spec [of xs]
  have "length (contents (keylist_writes xs)) = length xs" using w by (metis size_mset)
  then have "drain (length xs) (keylist_writes xs) = (contents (keylist_writes xs), [])"
    using drain_contents w by metis
  then show ?thesis using w by (auto simp: keylist_read_def)
qed

theorem keylist_returns_all_witness:
  "fst (drain 3 (keylist_writes [7, 8, 9])) = [7, 8, 9]"
  using keylist_returns_all [of "[7, 8, 9]"] by (auto simp del: drain.simps simp: numeral_3_eq_3)

section \<open>Sort keys\<close>

text \<open>A value of a cell: NULL, or the text a client sees; its string must end where its text ends.\<close>

definition cell_value :: "('r, 'l) fpu \<Rightarrow> 'r mem \<Rightarrow> cstring option" where
  "cell_value F m = (if is_null m then None else Some (butlast (mz (entity_as_string F m))))"

definition terminated :: "('r, 'l) fpu \<Rightarrow> 'r mem \<Rightarrow> bool" where
  "terminated F m \<longleftrightarrow> is_null m \<or>
     (\<exists>t. nul_free t \<and> mz (entity_as_string F m) = t @ [NUL])"

lemma key_text:
  "length xs = length ts \<Longrightarrow>
    concat (map2 (\<lambda>t x. case x of None \<Rightarrow> [CHR ''N'', NUL] | Some z \<Rightarrow> t # butlast z @ [NUL]) ts xs) @ [NUL] =
    key_bytes ts (map (map_option butlast) xs)"
proof (induction ts arbitrary: xs)
  case (Cons t ts)
  then obtain x xs' where "xs = x # xs'" "length xs' = length ts" by (auto simp: length_Suc_conv)
  with Cons.IH [of xs'] show ?case
    by (auto simp: key_bytes_def key_elem_def split: option.splits)
qed (simp add: key_bytes_def)



section \<open>Binding variables\<close>

text \<open>A variable bound to a text is what the instruction that loads it pushes; binding to no value
  gives NULL, and the other variables keep their values.\<close>

theorem bind_then_load:
  assumes "magic vm = MAGIC_RUN" and "pc vm = 0" and "1 \<le> i" and "i \<le> int (length (azVar vm))"
    and "nul_free t" and "length (stack vm) < nStack vm" and "opcode op = OP_Variable" and "p1 op = i"
  shows "\<exists>vm1 vm0. api_bind vm i (Some t) (-1) = Some (DBSQL_SUCCESS, vm1)
    \<and> op_Variable E op vm1 = ok (vm1\<lparr>stack := str_mem (fp E) MEM_Static (t @ [NUL]) # stack vm\<rparr>)
    \<and> column_text (fp E) (str_mem (fp E) MEM_Static (t @ [NUL])) = Some t
    \<and> (\<forall>j. j \<noteq> nat (i - 1) \<longrightarrow> azVar vm1 ! j = azVar vm ! j)
    \<and> api_bind vm i None (-1) = Some (DBSQL_SUCCESS, vm0)
    \<and> op_Variable E op vm0 = ok (vm0\<lparr>stack := null_mem (fp E) # stack vm\<rparr>)"
  using assms
  by (simp add: api_bind_def op_Variable_def Let_def next_op_def push_def column_text_def str_mem_def
      entity_as_string_def nat_less_iff)

theorem bind_then_load_witness:
  "\<exists>vm1. api_bind ((vdbe_new d0 :: (unit, rat) vdbe)\<lparr>magic := MAGIC_RUN, azVar := [None], nStack := 1\<rparr>)
      1 (Some ''x'') (-1) = Some (DBSQL_SUCCESS, vm1)"
proof -
  let ?vm = "(vdbe_new d0 :: (unit, rat) vdbe)\<lparr>magic := MAGIC_RUN, azVar := [None], nStack := 1\<rparr>"
  let ?op = "\<lparr>opcode = OP_Variable, p1 = 1, p2 = 0, p3 = None, p3type = 0\<rparr> :: unit vdbe_op"
  have "magic ?vm = MAGIC_RUN" "pc ?vm = 0" "(1 :: int) \<le> int (length (azVar ?vm))" "nul_free ''x''"
    "length (stack ?vm) < nStack ?vm" "opcode ?op = OP_Variable" "p1 ?op = 1"
    by (simp_all add: vdbe_new_def)
  from bind_then_load [OF this(1,2) _ this(3-7)] show ?thesis by blast
qed

text \<open>Binding is refused as a misuse before the machine is made ready, once it has started and
  after it has halted, and as out of range for a number that is not one of the variables of the
  statement; a refused call changes nothing.\<close>

theorem bind_refused:
  "(magic vm \<noteq> MAGIC_RUN \<or> pc vm \<noteq> 0 \<longrightarrow> api_bind vm i val len = Some (DBSQL_MISUSE, vm))
   \<and> (magic vm = MAGIC_RUN \<longrightarrow> pc vm = 0 \<longrightarrow> i < 1 \<or> i > int (length (azVar vm)) \<longrightarrow>
        api_bind vm i val len = Some (DBSQL_RANGE, vm))"
  by (simp add: api_bind_def)

theorem bind_refused_witness:
  "api_bind (vdbe_new d0 :: (unit, rat) vdbe) 1 None (-1) = Some (DBSQL_MISUSE, vdbe_new d0)
   \<and> api_bind ((vdbe_new d0 :: (unit, rat) vdbe)\<lparr>magic := MAGIC_RUN\<rparr>) 1 None (-1) =
      Some (DBSQL_RANGE, (vdbe_new d0)\<lparr>magic := MAGIC_RUN\<rparr>)"
  using bind_refused [of "vdbe_new d0 :: (unit, rat) vdbe" 1 None "-1"]
    bind_refused [of "(vdbe_new d0 :: (unit, rat) vdbe)\<lparr>magic := MAGIC_RUN\<rparr>" 1 None "-1"]
  by (simp add: vdbe_new_def)

section \<open>Preparing a machine\<close>

text \<open>C38: a machine made ready runs the program the code generator built, closed by a Halt, from its
  start with an empty stack that has room for one cell per instruction.\<close>

theorem ready_machine:
  assumes "prog_wf vm" and "nStack vm = 0" and "0 \<le> num_var"
  shows "\<exists>vm'. vdbe_make_ready num_var False vm = Some vm'
    \<and> (program vm' = program vm \<or> program vm' = program vm @ [\<lparr>opcode = OP_Halt, p1 = 0, p2 = 0, p3 = None, p3type = P3_NOTUSED\<rparr>])
    \<and> program vm' \<noteq> [] \<and> opcode (last (program vm')) = OP_Halt
    \<and> magic vm' = MAGIC_RUN \<and> pc vm' = 0 \<and> stack vm' = [] \<and> nStack vm' = length (program vm')
    \<and> length (azVar vm') = nat num_var"
proof -
  let ?halt = "\<lparr>opcode = OP_Halt, p1 = 0, p2 = 0, p3 = None, p3type = P3_NOTUSED\<rparr>"
  have w: "nOp vm \<le> length (aOp vm)" "magic vm = MAGIC_INIT" using assms(1) by (auto simp: prog_wf_def)
  show ?thesis
  proof (cases "nOp vm = 0 \<or> opcode (aOp vm ! (nOp vm - 1)) \<noteq> OP_Halt")
    case True
    define ops where
      "ops = (if nOp vm \<ge> length (aOp vm) then aOp vm @ replicate (length (aOp vm) + 100) zero_op else aOp vm)"
    have o: "nOp vm < length ops" "take (nOp vm) ops = program vm"
      using w by (auto simp: ops_def program_def)
    have "vdbe_add_op True vm OP_Halt 0 0 = Some (int (nOp vm), vm\<lparr>nOp := nOp vm + 1, aOp := ops[nOp vm := ?halt]\<rparr>)"
      using w o by (auto simp: vdbe_add_op_def Let_def ops_def label_target_def)
    moreover have "take (nOp vm + 1) (ops[nOp vm := ?halt]) = program vm @ [?halt]"
      using o by (simp add: take_Suc_conv_app_nth)
    ultimately show ?thesis
      using True w assms(2,3) o by (auto simp: vdbe_make_ready_def program_def hash_init_def)
  next
    case False
    then have ne: "program vm \<noteq> []" using w by (auto simp: program_def)
    then have "last (program vm) = aOp vm ! (nOp vm - 1)"
      using False w by (simp add: last_conv_nth program_def min_absorb2)
    then show ?thesis
      using ne False w assms(2,3) by (auto simp: vdbe_make_ready_def program_def Let_def min_absorb2 hash_init_def)
  qed
qed

theorem ready_machine_witness:
  "\<exists>vm'. vdbe_make_ready 0 False (vdbe_new d0 :: (unit, rat) vdbe) = Some vm' \<and> opcode (last (program vm')) = OP_Halt"
proof -
  have "prog_wf (vdbe_new d0 :: (unit, rat) vdbe)" "nStack (vdbe_new d0 :: (unit, rat) vdbe) = 0"
    by (simp_all add: prog_wf_def vdbe_new_def)
  from ready_machine [OF this, of 0] show ?thesis by auto
qed

text \<open>the block that holds the stack and the variables is too small as soon as a statement has
  two variables: the size of the length and ownership arrays is not multiplied by their number,
  and binding the variables writes past its end.\<close>

theorem ready_block_too_small: "ready_used n nVar \<le> ready_alloc n nVar \<longleftrightarrow> nVar \<le> 1"
  by (auto simp: ready_used_def ready_alloc_def algebra_simps)

end
