(* ===== verification/HashProps.thy ===== *)
theory HashProps
  imports Hash
begin

text \<open>
  A hash table is a finite map from keys to data: the pointers form one doubly linked list in which
  every bucket is a run, and finding, inserting and removing are lookup, update and deletion.
\<close>

section \<open>Keys\<close>

text \<open>What a caller passes: \<^verbatim>\<open>nKey\<close> bytes, for a string with a NUL at most at their end.\<close>

definition key_ok :: "int \<Rightarrow> string \<Rightarrow> i32 \<Rightarrow> bool" where
  "key_ok c key len =
     (if c = HASH_INT then True
      else if c = HASH_STRING then sint len > 0 \<and> length key = nat (sint len) \<and> nul_free (butlast key)
      else sint len \<ge> 0 \<and> length key = nat (sint len))"

text \<open>The part of a key the comparison sees.\<close>

definition key_norm :: "int \<Rightarrow> string \<Rightarrow> i32 \<Rightarrow> nat list \<times> i32" where
  "key_norm c key len =
     (if c = HASH_INT then ([], len)
      else if c = HASH_STRING then (map lower (cstr key), len)
      else (map char_code key, len))"

definition hash_class :: "int \<Rightarrow> bool" where
  "hash_class c \<longleftrightarrow> c = HASH_INT \<or> c = HASH_STRING \<or> c = HASH_BINARY"

lemma strcasecmp_eq_0:
  "nul_free a \<Longrightarrow> nul_free b \<Longrightarrow> strcasecmp a b = 0 \<longleftrightarrow> map lower a = map lower b"
  by (induction a b rule: strcasecmp.induct) (auto dest: lower_NUL [THEN iffD1])

lemma cstr_butlast:
  "nul_free (butlast k) \<Longrightarrow> k \<noteq> [] \<Longrightarrow> k = cstr k @ (if last k = NUL then [NUL] else [])"
  by (cases k rule: rev_cases) (auto simp: cstr_def nul_free_def takeWhile_append)

lemma sint_unat: "0 \<le> sint (n :: i32) \<Longrightarrow> nat (sint n) = unat n"
  using sint_less [of n] by (simp add: unat_eq_nat_uint uint_sint take_bit_int_eq_self)

text \<open>The comparison of two keys is equality of their normal forms, which is all the hash function
  depends on.\<close>

lemma cmp_norm:
  assumes "hash_class c" "key_ok c k n" "key_ok c k' n'"
  shows "\<exists>cmp. cmp_fn c = Some cmp \<and> (cmp k n k' n' = 0 \<longleftrightarrow> key_norm c k n = key_norm c k' n')"
proof -
  have sub: "sint (n' - n) = 0 \<longleftrightarrow> n = n'" 
  proof
    assume "sint (n' - n) = 0"
    then have "word_of_int (sint (n' - n)) = (0 :: i32)" by simp
    then show "n = n'" by simp
  qed simp
  consider "c = HASH_INT" | "c = HASH_STRING" | "c = HASH_BINARY" using assms(1) by (auto simp: hash_class_def)
  then show ?thesis
  proof cases
    case 2
    have "take (unat n) (cstr x) = cstr x" if "length x = unat n" for x
      using that by (metis cstr_def length_takeWhile_le take_all)
    then show ?thesis
      using assms 2 sub by (auto simp: cmp_fn_def h_str_cmp_def key_norm_def key_ok_def strncasecmp_def
          sint_unat strcasecmp_eq_0)
  next
    case 3
    then show ?thesis
      using assms sub by (auto simp: cmp_fn_def h_bin_cmp_def key_norm_def key_ok_def memcmp_def sint_unat
          inj_map_eq_map inj_def)
  qed (use sub in \<open>auto simp: cmp_fn_def h_int_cmp_def key_norm_def\<close>)
qed

lemma foldl_map_arg: "foldl (\<lambda>h c. f h (g c)) s xs = foldl f s (map g xs)"
  by (induction xs arbitrary: s) auto

lemma hash_norm:
  assumes "hash_class c" "key_ok c k n" "key_ok c k' n'" "key_norm c k n = key_norm c k' n'" "hash_fn c = Some hf"
  shows "hf k n = hf k' n'"
proof -
  consider "c = HASH_INT" | "c = HASH_STRING" | "c = HASH_BINARY" using assms(1) by (auto simp: hash_class_def)
  then show ?thesis
  proof cases
    case 2
    have n: "n = n'" "length k = length k'" "map lower (cstr k) = map lower (cstr k')" "length k > 0"
      using assms 2 by (auto simp: key_norm_def key_ok_def)
    define tl where "tl = (\<lambda>x :: string. if last x = NUL then [NUL] else [])"
    have "k = cstr k @ tl k" "k' = cstr k' @ tl k'"
      using cstr_butlast n assms(2,3) 2 unfolding key_ok_def tl_def by (metis (full_types) length_greater_0_conv numeral_eq_one_iff num.distinct(3))+
    moreover have "length (cstr k) = length (cstr k')" using n(3) by (metis length_map)
    ultimately have "length (tl k) = length (tl k')" using n(2) by (metis add_left_cancel length_append)
    then have "tl k = tl k'" by (simp add: tl_def split: if_splits)
    then have "map lower k = map lower k'"
      using \<open>k = cstr k @ tl k\<close> \<open>k' = cstr k' @ tl k'\<close> n(3) by (metis map_append)
    then show ?thesis
      using n 2 assms foldl_map_arg [of "\<lambda>h v. push_bit 3 h XOR h XOR of_nat v" lower "0 :: i32"]
      by (auto simp: hash_fn_def str_hash_def hash_ignore_case_def key_ok_def)
  next
    case 3
    then have "k = k'" "n = n'" using assms(4) by (auto simp: key_norm_def inj_map_eq_map inj_def)
    then show ?thesis by simp
  qed (use assms in \<open>auto simp: hash_fn_def int_hash_def key_norm_def\<close>)
qed

section \<open>Linked runs in the heap\<close>

definition hd_or :: "'a list \<Rightarrow> 'a option \<Rightarrow> 'a option" where
  "hd_or xs q = (case xs of [] \<Rightarrow> q | x # _ \<Rightarrow> Some x)"

definition last_or :: "'a option \<Rightarrow> 'a list \<Rightarrow> 'a option" where
  "last_or p xs = (if xs = [] then p else Some (last xs))"

lemma hd_last_or [simp]:
  "hd_or [] q = q" "hd_or (x # xs) q = Some x" "hd_or (xs @ ys) q = hd_or xs (hd_or ys q)"
  "last_or p [] = p" "last_or p (xs @ [x]) = Some x" "last_or p (x # xs) = last_or (Some x) xs"
  "last_or p (xs @ ys) = last_or (last_or p xs) ys"
  by (auto simp: hd_or_def last_or_def split: list.split)

text \<open>The addresses \<open>as\<close> are linked both ways, from \<open>p\<close> before the first to \<open>q\<close> after the last.\<close>

primrec run :: "(addr \<rightharpoonup> 'd hash_ele) \<Rightarrow> addr option \<Rightarrow> addr list \<Rightarrow> addr option \<Rightarrow> bool" where
  "run hp p [] q = True"
| "run hp p (a # as) q =
     (\<exists>e. hp a = Some e \<and> eprev e = p \<and> enext e = hd_or as q \<and> run hp (Some a) as q)"

lemma run_append [simp]:
  "run hp p (as @ bs) q \<longleftrightarrow> run hp p as (hd_or bs q) \<and> run hp (last_or p as) bs q"
  by (induction as arbitrary: p) auto

lemma run_other: "a \<notin> set as \<Longrightarrow> run (hp(a := v)) p as q = run hp p as q"
  by (induction as arbitrary: p) auto

lemma run_first:
  "run hp p (a # as) q \<Longrightarrow> a \<notin> set as \<Longrightarrow> hp a = Some e \<Longrightarrow>
    run (hp(a \<mapsto> e\<lparr>eprev := p'\<rparr>)) p' (a # as) q"
  by (simp add: run_other)

lemma run_last:
  "run hp p (as @ [a]) q \<Longrightarrow> a \<notin> set as \<Longrightarrow> hp a = Some e \<Longrightarrow>
    run (hp(a \<mapsto> e\<lparr>enext := q'\<rparr>)) p (as @ [a]) q'"
  by (simp add: run_other)

lemma run_dom: "run hp p as q \<Longrightarrow> set as \<subseteq> dom hp"
  by (induction as arbitrary: p) auto

text \<open>What an operation on the links leaves alone in a node.\<close>

definition node :: "'d hash_ele \<Rightarrow> string \<times> i32 \<times> 'd option" where
  "node e = (ekey e, elen e, edata e)"

definition nodes :: "(addr \<rightharpoonup> 'd hash_ele) \<Rightarrow> addr \<rightharpoonup> string \<times> i32 \<times> 'd option" where
  "nodes hp = map_option node \<circ> hp"

lemma nodes_upd: "hp a = Some e \<Longrightarrow> node e' = node e \<Longrightarrow> nodes (hp(a \<mapsto> e')) = nodes hp"
  by (auto simp: nodes_def)

lemma node_links [simp]: "node (e\<lparr>enext := x\<rparr>) = node e" "node (e\<lparr>eprev := y\<rparr>) = node e"
  by (simp_all add: node_def)

lemma nodes_dom: "dom (nodes hp) = dom hp"
  by (auto simp: nodes_def)

text \<open>Linking \<open>a\<close> between \<open>xs\<close> and \<open>ys\<close>: the result is known but for the heap, which holds the
  longer list and the same contents, and has not changed elsewhere.\<close>

lemma link_spec:
  assumes "run (heap H) None (xs @ ys) None" "hfirst H = hd_or (xs @ ys) None" "distinct (xs @ ys)"
    and "a \<notin> set (xs @ ys)" "a \<in> dom (heap H)" "h < length (ht H)" "ht H ! h = (n, c)"
    and "case c of Some x \<Rightarrow> \<exists>zs. ys = x # zs | None \<Rightarrow> xs = []"
  shows "\<exists>hp. link_elem a h H =
      Some (H\<lparr>heap := hp, hfirst := hd_or (xs @ a # ys) None, ht := (ht H)[h := (n + 1, Some a)]\<rparr>)
    \<and> run hp None (xs @ a # ys) None \<and> nodes hp = nodes (heap H)
    \<and> (\<forall>b. b \<notin> set (xs @ a # ys) \<longrightarrow> hp b = heap H b)"
proof (cases c)
  case None
  obtain e where e: "heap H a = Some e" using assms(5) by blast
  have xs: "xs = []" using assms(8) None by simp
  let ?e = "e\<lparr>enext := hd_or ys None, eprev := None\<rparr>"
  have b: "nth_bucket H h = Some (n, None)" using assms(6,7) None by (simp add: nth_bucket_def)
  have F: "hfirst H = hd_or ys None" using assms(2) xs by simp
  show ?thesis
  proof (cases ys)
    case Nil
    let ?hp = "(heap H)(a \<mapsto> ?e)"
    have "link_elem a h H =
        Some (H\<lparr>heap := ?hp, hfirst := Some a, ht := (ht H)[h := (n + 1, Some a)]\<rparr>)"
      using Nil by (simp add: link_elem_def b upd_def e F)
    moreover have "nodes ?hp = nodes (heap H)" using e by (rule nodes_upd) simp
    moreover have "run ?hp None [a] None" using Nil by simp
    ultimately show ?thesis using xs Nil by (intro exI [of _ ?hp]) simp
  next
    case (Cons f zs)
    then obtain ef where f: "heap H f = Some ef" using assms(1) xs by auto
    have ne: "f \<noteq> a" "a \<noteq> f" using assms(4) Cons by auto
    let ?hp = "(heap H)(a \<mapsto> ?e, f \<mapsto> ef\<lparr>eprev := Some a\<rparr>)"
    have "link_elem a h H =
        Some (H\<lparr>heap := ?hp, hfirst := Some a, ht := (ht H)[h := (n + 1, Some a)]\<rparr>)"
      using Cons by (simp add: link_elem_def b upd_def e F f ne)
    moreover have "nodes ?hp = nodes (heap H)" using e f ne by (simp add: nodes_upd)
    moreover have "run ?hp None (a # ys) None"
      using assms(1,3,4) Cons e f ne xs by (auto simp: run_other)
    ultimately show ?thesis using xs Cons by (intro exI [of _ ?hp]) simp
  qed
next
  case (Some x)
  then obtain zs where ys: "ys = x # zs" using assms(8) by auto
  obtain e ex where e: "heap H a = Some e" and x: "heap H x = Some ex"
    and px: "eprev ex = last_or None xs" using assms(1,5) ys by auto
  have ne: "x \<noteq> a" "a \<noteq> x" using assms(4) ys by auto
  let ?e = "e\<lparr>enext := Some x, eprev := eprev ex\<rparr>"
  have b: "nth_bucket H h = Some (n, Some x)" using assms(6,7) Some by (simp add: nth_bucket_def)
  show ?thesis
  proof (cases xs rule: rev_cases)
    case Nil
    let ?hp = "(heap H)(a \<mapsto> ?e, x \<mapsto> ex\<lparr>eprev := Some a\<rparr>)"
    have "link_elem a h H =
        Some (H\<lparr>heap := ?hp, hfirst := Some a, ht := (ht H)[h := (n + 1, Some a)]\<rparr>)"
      using Nil px by (simp add: link_elem_def b upd_def e x ne)
    moreover have "nodes ?hp = nodes (heap H)" using e x ne by (simp add: nodes_upd)
    moreover have "run ?hp None (a # ys) None"
      using assms(1,3,4) ys e x ne Nil px by (auto simp: run_other)
    ultimately show ?thesis using Nil ys by (intro exI [of _ ?hp]) simp
  next
    case (snoc us p)
    obtain ep where p: "heap H p = Some ep" using assms(1) snoc by auto
    have d: "p \<noteq> a" "p \<noteq> x" "a \<noteq> p" "x \<noteq> p" using assms(3,4) snoc ys by auto
    let ?hp = "(heap H)(a \<mapsto> ?e, p \<mapsto> ep\<lparr>enext := Some a\<rparr>, x \<mapsto> ex\<lparr>eprev := Some a\<rparr>)"
    have "link_elem a h H =
        Some (H\<lparr>heap := ?hp, ht := (ht H)[h := (n + 1, Some a)]\<rparr>)"
      using snoc px by (simp add: link_elem_def b upd_def e x p ne d)
    moreover have "nodes ?hp = nodes (heap H)" using e x p ne d by (simp add: nodes_upd)
    moreover have "run ?hp None (xs @ a # ys) None"
      using assms(1,3,4) ys e x p ne d snoc px by (auto simp: run_other)
    moreover have "H\<lparr>heap := hp, ht := t\<rparr> = H\<lparr>heap := hp, hfirst := hd_or (xs @ a # ys) None, ht := t\<rparr>" for hp t
      using assms(2) snoc by (cases H; cases us) auto
    ultimately show ?thesis using ys snoc d ne by (intro exI [of _ ?hp]) (simp only:, simp)
  qed
qed

section \<open>Buckets\<close>

text \<open>Every bucket is a run of the list: the elements the function \<open>f\<close> sends to it.\<close>

definition bucket_runs :: "(addr \<Rightarrow> nat) \<Rightarrow> addr list \<Rightarrow> bucket list \<Rightarrow> bool" where
  "bucket_runs f es B \<longleftrightarrow> (\<forall>h < length B. \<exists>xs ys zs. es = xs @ ys @ zs \<and> (\<forall>a \<in> set ys. f a = h)
     \<and> (\<forall>a \<in> set xs \<union> set zs. f a \<noteq> h) \<and> B ! h = (length ys, hd_or ys None))"

lemma bucket_runsD:
  assumes "bucket_runs f es B" "h < length B"
  obtains xs ys zs where "es = xs @ ys @ zs" "\<forall>a \<in> set ys. f a = h"
    "\<forall>a \<in> set xs \<union> set zs. f a \<noteq> h" "B ! h = (length ys, hd_or ys None)"
proof -
  from assms have "\<exists>xs ys zs. es = xs @ ys @ zs \<and> (\<forall>a \<in> set ys. f a = h)
     \<and> (\<forall>a \<in> set xs \<union> set zs. f a \<noteq> h) \<and> B ! h = (length ys, hd_or ys None)"
    by (simp add: bucket_runs_def)
  then show ?thesis by (elim exE conjE) (rule that)
qed

lemma bucket_runs_cong:
  assumes "bucket_runs f es B" "\<And>a. a \<in> set es \<Longrightarrow> g a = f a"
  shows "bucket_runs g es B"
  unfolding bucket_runs_def
proof (intro allI impI)
  fix h assume "h < length B"
  with assms(1) obtain xs ys zs where b: "es = xs @ ys @ zs" "\<forall>a \<in> set ys. f a = h"
    "\<forall>a \<in> set xs \<union> set zs. f a \<noteq> h" "B ! h = (length ys, hd_or ys None)" by (rule bucket_runsD)
  then show "\<exists>xs ys zs. es = xs @ ys @ zs \<and> (\<forall>a \<in> set ys. g a = h)
     \<and> (\<forall>a \<in> set xs \<union> set zs. g a \<noteq> h) \<and> B ! h = (length ys, hd_or ys None)"
    using assms(2) [of "_"] by (intro exI [of _ xs] exI [of _ ys] exI [of _ zs]) (simp add: ball_Un)
qed

text \<open>The place where a new element of bucket \<open>h\<close> goes.\<close>

lemma bucket_place:
  assumes "bucket_runs f es B" "h < length B"
  obtains ps qs where "es = ps @ qs" "case snd (B ! h) of Some x \<Rightarrow> f x = h \<and> (\<exists>zs. qs = x # zs) | None \<Rightarrow> ps = []"
    "\<forall>a \<in> set ps. f a \<noteq> h"
proof -
  from assms obtain xs ys zs where b: "es = xs @ ys @ zs" "\<forall>a \<in> set ys. f a = h"
    "\<forall>a \<in> set xs \<union> set zs. f a \<noteq> h" "B ! h = (length ys, hd_or ys None)" by (rule bucket_runsD)
  show thesis
  proof (cases ys)
    case Nil
    then show thesis using b that [of "[]" es] by simp
  next
    case (Cons y ys')
    then show thesis using b that [of xs "ys @ zs"] by simp
  qed
qed

lemma run_split:
  assumes "xs @ ys @ zs = ps @ qs" "qs \<noteq> [] \<longrightarrow> hd qs \<notin> set ys \<or> ps = []"
  shows "(\<exists>us. ps = xs @ ys @ us \<and> zs = us @ qs) \<or> (\<exists>us. xs = ps @ us \<and> qs = us @ ys @ zs)"
proof -
  consider us where "xs = ps @ us" "qs = us @ ys @ zs" | us where "ps = xs @ us" "ys @ zs = us @ qs"
    using assms(1) by (auto simp: append_eq_append_conv2)
  then show ?thesis
  proof cases
    case (2 us)
    then consider vs where "us = ys @ vs" "zs = vs @ qs" | vs where "ys = us @ vs" "qs = vs @ zs"
      by (auto simp: append_eq_append_conv2)
    then show ?thesis
    proof cases
      case (2 vs)
      then show ?thesis
        using assms(2) \<open>ps = xs @ us\<close> by (cases vs) auto
    qed (use 2 in auto)
  qed auto
qed

lemma bucket_link:
  assumes "bucket_runs f (ps @ qs) B" "h < length B" "f a = h"
    and "case snd (B ! h) of Some x \<Rightarrow> f x = h \<and> (\<exists>zs. qs = x # zs) | None \<Rightarrow> ps = []"
    and "\<forall>b \<in> set ps. f b \<noteq> h"
  shows "bucket_runs f (ps @ a # qs) (B[h := (fst (B ! h) + 1, Some a)])"
  unfolding bucket_runs_def
proof (intro allI impI)
  fix k assume k: "k < length (B[h := (fst (B ! h) + 1, Some a)])"
  then obtain xs ys zs where b: "ps @ qs = xs @ ys @ zs" "\<forall>b \<in> set ys. f b = k"
      "\<forall>b \<in> set xs \<union> set zs. f b \<noteq> k" "B ! k = (length ys, hd_or ys None)"
    using bucket_runsD [OF assms(1), of k] by auto
  show "\<exists>xs ys zs. ps @ a # qs = xs @ ys @ zs \<and> (\<forall>b \<in> set ys. f b = k) \<and>
      (\<forall>b \<in> set xs \<union> set zs. f b \<noteq> k) \<and> B[h := (fst (B ! h) + 1, Some a)] ! k = (length ys, hd_or ys None)"
  proof (cases "k = h")
    case True
    have "ps = xs \<and> qs = ys @ zs \<or> ps = [] \<and> ys = []"
    proof (cases ys)
      case Nil
      then show ?thesis using assms(4) b True by simp
    next
      case (Cons y ys')
      then obtain rs where qs: "qs = y # rs" using assms(4) b(4) True by auto
      have "takeWhile (\<lambda>b. f b \<noteq> h) (ps @ qs) = ps"
        using assms(5) b(2) True Cons qs by (simp add: takeWhile_append)
      moreover have "takeWhile (\<lambda>b. f b \<noteq> h) (xs @ ys @ zs) = xs"
        using b(2,3) True Cons by (simp add: takeWhile_append)
      ultimately show ?thesis using b(1) by simp
    qed
    then show ?thesis
    proof
      assume "ps = xs \<and> qs = ys @ zs"
      then show ?thesis
        using b assms True k by (intro exI [of _ xs] exI [of _ "a # ys"] exI [of _ zs]) auto
    next
      assume *: "ps = [] \<and> ys = []"
      then show ?thesis
        using b assms True k by (intro exI [of _ "[]"] exI [of _ "[a]"] exI [of _ qs]) auto
    qed
  next
    case False
    have "qs \<noteq> [] \<longrightarrow> hd qs \<notin> set ys \<or> ps = []"
      using assms(4) b(2) False by (auto split: option.splits)
    from run_split [OF b(1) [symmetric] this] show ?thesis
    proof (elim disjE exE conjE)
      fix us assume "ps = xs @ ys @ us" "zs = us @ qs"
      then show ?thesis
        using b(2-4) False assms(3)
        by (intro exI [of _ xs] exI [of _ ys] exI [of _ "us @ a # qs"]) (simp add: ball_Un)
    next
      fix us assume "xs = ps @ us" "qs = us @ ys @ zs"
      then show ?thesis
        using b(2-4) False assms(3)
        by (intro exI [of _ "ps @ a # us"] exI [of _ ys] exI [of _ zs]) (simp add: ball_Un)
    qed
  qed
qed

lemma bucket_of_less: "0 < n \<Longrightarrow> bucket_of hf n key len < n"
proof -
  assume "0 < n"
  then have w: "word_of_int (int n - 1) = (of_nat (n - 1) :: i32)" by (simp add: of_nat_diff)
  have "unat (hf key len AND of_nat (n - 1) :: i32) \<le> unat (of_nat (n - 1) :: i32)"
    by (simp add: word_and_le1 flip: word_le_nat_alt)
  also have "\<dots> \<le> n - 1" by (simp add: unat_of_nat)
  finally show ?thesis using \<open>0 < n\<close> unfolding bucket_of_def w by linarith
qed

section \<open>Tables\<close>

definition slot :: "(string \<Rightarrow> i32 \<Rightarrow> i32) \<Rightarrow> nat \<Rightarrow> (addr \<rightharpoonup> 'd hash_ele) \<Rightarrow> addr \<Rightarrow> nat" where
  "slot hf n hp a = (case nodes hp a of None \<Rightarrow> 0 | Some (k, l, d) \<Rightarrow> bucket_of hf n k l)"

text \<open>The list of a table, and its buckets.\<close>

definition linked :: "(string \<Rightarrow> i32 \<Rightarrow> i32) \<Rightarrow> 'd hash \<Rightarrow> addr list \<Rightarrow> bool" where
  "linked hf H es \<longleftrightarrow> run (heap H) None es None \<and> hfirst H = hd_or es None \<and> distinct es
     \<and> length (ht H) = htsize H \<and> bucket_runs (slot hf (htsize H) (heap H)) es (ht H)"

definition same_table :: "'d hash \<Rightarrow> 'd hash \<Rightarrow> bool" where
  "same_table H H' \<longleftrightarrow> keyClass H' = keyClass H \<and> copyKey H' = copyKey H \<and> hcount H' = hcount H
     \<and> nodes (heap H') = nodes (heap H)"

lemma same_table_trans: "same_table A B \<Longrightarrow> same_table B C \<Longrightarrow> same_table A C"
  by (simp add: same_table_def)

lemma link_step:
  assumes "linked hf H es" "0 < htsize H" "a \<notin> set es" "heap H a = Some e"
  shows "\<exists>H' es'. link_elem a (bucket_of hf (htsize H) (ekey e) (elen e)) H = Some H' \<and> linked hf H' es'
    \<and> set es' = insert a (set es) \<and> same_table H H' \<and> htsize H' = htsize H
    \<and> (\<forall>b. b \<notin> set es' \<longrightarrow> heap H' b = heap H b)"
proof -
  let ?h = "bucket_of hf (htsize H) (ekey e) (elen e)" and ?f = "slot hf (htsize H) (heap H)"
  have l: "run (heap H) None es None" "hfirst H = hd_or es None" "distinct es"
    "length (ht H) = htsize H" "bucket_runs ?f es (ht H)" using assms(1) by (auto simp: linked_def)
  have h: "?h < length (ht H)" using bucket_of_less assms(2) l(4) by simp
  have f: "?f a = ?h" using assms(4) by (simp add: slot_def nodes_def node_def)
  from bucket_place [OF l(5) h] obtain ps qs where p: "es = ps @ qs"
    "case snd (ht H ! ?h) of Some x \<Rightarrow> ?f x = ?h \<and> (\<exists>zs. qs = x # zs) | None \<Rightarrow> ps = []"
    "\<forall>a \<in> set ps. ?f a \<noteq> ?h" by blast
  obtain n c where b: "ht H ! ?h = (n, c)" by (cases "ht H ! ?h")
  have c: "case c of Some x \<Rightarrow> \<exists>zs. qs = x # zs | None \<Rightarrow> ps = []"
    using p(2) b by (auto split: option.splits)
  from link_spec [OF _ _ _ _ _ h b c, of a] obtain hp where s:
    "link_elem a ?h H = Some (H\<lparr>heap := hp, hfirst := hd_or (ps @ a # qs) None, ht := (ht H)[?h := (n + 1, Some a)]\<rparr>)"
    "run hp None (ps @ a # qs) None" "nodes hp = nodes (heap H)"
    "\<forall>b. b \<notin> set (ps @ a # qs) \<longrightarrow> hp b = heap H b"
    using l assms(3,4) p(1) by blast
  have "bucket_runs ?f (ps @ a # qs) ((ht H)[?h := (n + 1, Some a)])"
    using bucket_link [of ?f ps qs "ht H" ?h a] l(5) p h f b by simp
  moreover have "slot hf (htsize H) hp = ?f" using s(3) by (simp add: slot_def fun_eq_iff)
  ultimately have "linked hf (H\<lparr>heap := hp, hfirst := hd_or (ps @ a # qs) None, ht := (ht H)[?h := (n + 1, Some a)]\<rparr>) (ps @ a # qs)"
    using s(2) l(3,4) p(1) assms(3) by (simp add: linked_def)
  then show ?thesis
    using s p(1) by (intro exI [of _ "H\<lparr>heap := hp, hfirst := hd_or (ps @ a # qs) None,
        ht := (ht H)[?h := (n + 1, Some a)]\<rparr>"] exI [of _ "ps @ a # qs"]) (auto simp: same_table_def)
qed

text \<open>The forward pointers of the part of the old list that is not yet rehashed.\<close>

primrec forward :: "(addr \<rightharpoonup> 'd hash_ele) \<Rightarrow> addr list \<Rightarrow> bool" where
  "forward hp [] = True"
| "forward hp (a # as) = (\<exists>e. hp a = Some e \<and> enext e = hd_or as None \<and> forward hp as)"

lemma forward_cong: "(\<And>a. a \<in> set as \<Longrightarrow> hp' a = hp a) \<Longrightarrow> forward hp' as = forward hp as"
  by (induction as) auto

lemma run_forward: "run hp p as None \<Longrightarrow> forward hp as"
  by (induction as arbitrary: p) auto

lemma rehash_loop_spec:
  assumes "linked hf H es" "0 < htsize H" "forward (heap H) as" "distinct as" "set as \<inter> set es = {}"
  shows "\<exists>H' es'. rehash_loop hf (hd_or as None) H = Some H' \<and> linked hf H' es'
    \<and> set es' = set es \<union> set as \<and> same_table H H' \<and> htsize H' = htsize H
    \<and> (\<forall>b. b \<notin> set es' \<longrightarrow> heap H' b = heap H b)"
  using assms
proof (induction as arbitrary: H es)
  case Nil
  then show ?case by (auto simp: rehash_loop.simps [of hf None] same_table_def)
next
  case (Cons a as)
  then obtain e where e: "heap H a = Some e" "enext e = hd_or as None" "forward (heap H) as" by auto
  from link_step [OF Cons.prems(1,2) _ e(1)] Cons.prems(5) obtain H1 es1 where s:
    "link_elem a (bucket_of hf (htsize H) (ekey e) (elen e)) H = Some H1" "linked hf H1 es1"
    "set es1 = insert a (set es)" "same_table H H1" "htsize H1 = htsize H"
    "\<forall>b. b \<notin> set es1 \<longrightarrow> heap H1 b = heap H b" by auto
  have "forward (heap H1) as"
    using e(3) s(3,6) Cons.prems(4,5) by (subst forward_cong [of as _ "heap H"]) auto
  from Cons.IH [OF s(2) _ this] s(3,5) Cons.prems(2,4,5) obtain H2 es2 where t:
    "rehash_loop hf (hd_or as None) H1 = Some H2" "linked hf H2 es2" "set es2 = set es1 \<union> set as"
    "same_table H1 H2" "htsize H2 = htsize H1" "\<forall>b. b \<notin> set es2 \<longrightarrow> heap H2 b = heap H1 b" by auto
  have "rehash_loop hf (hd_or (a # as) None) H = Some H2"
    using e s(1) t(1) by (simp add: rehash_loop.simps [of hf "Some a"])
  moreover have "\<forall>b. b \<notin> set es2 \<longrightarrow> heap H2 b = heap H b" using t(3,6) s(6) by auto
  ultimately show ?case
    using t(2-5) s(3-5) by (intro exI [of _ H2] exI [of _ es2]) (auto simp: same_table_def)
qed

lemma power2_and: "(2 ^ k :: nat) AND (2 ^ k - Suc 0) = 0"
proof -
  have "(2 ^ k :: nat) AND mask k = take_bit k (2 ^ k)" by (rule take_bit_eq_mask [symmetric])
  then show ?thesis by (simp add: mask_eq_exp_minus_1)
qed

lemma rehash_spec:
  assumes "run (heap H) None es None" "hfirst H = hd_or es None" "distinct es" "hash_fn (keyClass H) = Some hf"
  shows "\<exists>H' es'. rehash True (2 ^ k) H = Some H' \<and> linked hf H' es' \<and> set es' = set es
    \<and> same_table H H' \<and> htsize H' = 2 ^ k \<and> (\<forall>b. b \<notin> set es' \<longrightarrow> heap H' b = heap H b)"
proof -
  let ?H = "H\<lparr>ht := replicate (2 ^ k) (0, None), htsize := 2 ^ k, hfirst := None\<rparr>"
  have "linked hf ?H []" by (auto simp: linked_def bucket_runs_def)
  from rehash_loop_spec [OF this, of es] obtain H' es' where
    "rehash_loop hf (hd_or es None) ?H = Some H'" "linked hf H' es'" "set es' = set es"
    "same_table ?H H'" "htsize H' = 2 ^ k" "\<forall>b. b \<notin> set es' \<longrightarrow> heap H' b = heap H b"
    using assms run_forward [OF assms(1)] by auto
  then show ?thesis
    using assms by (intro exI [of _ H'] exI [of _ es']) (simp add: rehash_def power2_and same_table_def)
qed

section \<open>Removing an element\<close>

lemma unlink_spec:
  assumes "run (heap H) None (ps @ a # qs) None" "hfirst H = hd_or (ps @ a # qs) None"
    and "distinct (ps @ a # qs)" "h < length (ht H)" "ht H ! h = (n, c)"
  shows "\<exists>hp. hash_remove H a h = Some (H\<lparr>heap := hp, hfirst := hd_or (ps @ qs) None,
      ht := (ht H)[h := (n - 1, if n - 1 = 0 then None else if c = Some a then hd_or qs None else c)],
      hcount := hcount H - 1\<rparr>)
    \<and> run hp None (ps @ qs) None \<and> nodes hp = (nodes (heap H))(a := None)"
proof -
  obtain e where e: "heap H a = Some e" "eprev e = last_or None ps" "enext e = hd_or qs None"
    using assms(1) by auto
  have b: "nth_bucket (H\<lparr>hfirst := x\<rparr>) h = Some (n, c)" "nth_bucket (H\<lparr>heap := hp\<rparr>) h = Some (n, c)"
    "nth_bucket (H\<lparr>hfirst := x, heap := hp\<rparr>) h = Some (n, c)" "nth_bucket H h = Some (n, c)" for x hp
    using assms(4,5) by (simp_all add: nth_bucket_def)
  let ?B = "(ht H)[h := (n - 1, if n - 1 = 0 then None else if c = Some a then hd_or qs None else c)]"
  have keep: "hfirst H = hd_or (ps @ qs) None" if "ps \<noteq> []" using assms(2) that by (cases ps) auto
  define h1 where "h1 = (if ps = [] then heap H else
      (heap H)(last ps \<mapsto> (the (heap H (last ps)))\<lparr>enext := hd_or qs None\<rparr>))"
  define h2 where "h2 = (case qs of [] \<Rightarrow> h1 | q # _ \<Rightarrow> h1(q \<mapsto> (the (h1 q))\<lparr>eprev := last_or None ps\<rparr>))"
  have l: "heap H (last ps) = Some (the (heap H (last ps)))" if "ps \<noteq> []"
    using assms(1) that by (cases ps rule: rev_cases) auto
  have r1: "run h1 None ps (hd_or qs None)"
    using assms(1,3) run_last [of "heap H" None "butlast ps" "last ps" "Some a"] l
    by (cases ps rule: rev_cases) (auto simp: h1_def)
  have o1: "h1 q = heap H q" if "q \<notin> set ps" for q
    using that by (auto simp: h1_def)
  have q1: "run h1 (Some a) qs None"
    using assms(1,3) by (cases ps rule: rev_cases) (auto simp: h1_def run_other)
  have n1: "nodes h1 = nodes (heap H)"
    using l by (auto simp: h1_def nodes_upd)
  have r2: "run h2 None (ps @ qs) None"
  proof (cases qs)
    case (Cons q rs)
    then have "h1 q = Some (the (h1 q))" using q1 by auto
    with q1 have "run h2 (last_or None ps) qs None"
      using Cons assms(3) run_first [of h1 "Some a" q rs None "the (h1 q)"] by (simp add: h2_def)
    moreover have "run h2 None ps (hd_or qs None)"
      using r1 Cons assms(3) by (auto simp: h2_def run_other)
    ultimately show ?thesis by simp
  qed (use r1 in \<open>simp add: h2_def\<close>)
  have n2: "nodes h2 = nodes (heap H)"
    using q1 n1 by (auto simp: h2_def nodes_upd split: list.split)
  have a2: "run (h2(a := None)) None (ps @ qs) None"
    using r2 assms(3) by (simp add: run_other)
  have "nodes (h2(a := None)) = (nodes (heap H))(a := None)"
    using n2 by (auto simp: nodes_def fun_eq_iff)
  moreover have "hash_remove H a h = Some (H\<lparr>heap := h2(a := None), hfirst := hd_or (ps @ qs) None,
      ht := ?B, hcount := hcount H - 1\<rparr>)"
  proof -
    define H1 where "H1 = H\<lparr>heap := h1, hfirst := hd_or (ps @ qs) None\<rparr>"
    have same: "H\<lparr>heap := g\<rparr> = H\<lparr>heap := g, hfirst := hd_or (ps @ qs) None\<rparr>" if "ps \<noteq> []" for g
      using keep [OF that] by (cases H) simp
    have "(case eprev e of Some p \<Rightarrow> upd p (\<lambda>x. x\<lparr>enext := enext e\<rparr>) H | None \<Rightarrow> Some (H\<lparr>hfirst := enext e\<rparr>)) = Some H1"
    proof (cases "ps = []")
      case True
      then show ?thesis using e by (cases H) (simp add: h1_def H1_def)
    next
      case False
      then obtain el where "heap H (last ps) = Some el" using l by blast
      then show ?thesis using False e same [OF False, of h1] by (simp add: upd_def last_or_def h1_def H1_def)
    qed
    moreover have "(case enext e of Some q \<Rightarrow> upd q (\<lambda>x. x\<lparr>eprev := eprev e\<rparr>) H1 | None \<Rightarrow> Some H1) = Some (H1\<lparr>heap := h2\<rparr>)"
      using e q1 by (cases qs) (auto simp: upd_def h2_def H1_def)
    moreover have "nth_bucket (H1\<lparr>heap := h2\<rparr>) h = Some (n, c)"
      using assms(4,5) by (simp add: nth_bucket_def H1_def)
    ultimately show ?thesis
      using e by (simp add: hash_remove_def Let_def) (simp add: H1_def)
  qed
  ultimately show ?thesis using a2 by blast
qed

lemma bucket_unlink:
  assumes "bucket_runs f (ps @ a # qs) B" "distinct (ps @ a # qs)" "f a = h" "h < length B" "B ! h = (n, c)"
  shows "bucket_runs f (ps @ qs)
      (B[h := (n - 1, if n - 1 = 0 then None else if c = Some a then hd_or qs None else c)])"
  unfolding bucket_runs_def
proof (intro allI impI)
  fix k assume k: "k < length (B[h := (n - 1, if n - 1 = 0 then None else if c = Some a then hd_or qs None else c)])"
  then obtain xs ys zs where b: "ps @ a # qs = xs @ ys @ zs" "\<forall>b \<in> set ys. f b = k"
      "\<forall>b \<in> set xs \<union> set zs. f b \<noteq> k" "B ! k = (length ys, hd_or ys None)"
    using bucket_runsD [OF assms(1), of k] by auto
  have mem: "a \<in> set xs \<union> set ys \<union> set zs" using arg_cong [OF b(1), of set] by auto
  have split: "us = ps \<and> vs = qs" if "us @ a # vs = ps @ a # qs" for us vs
  proof -
    have "distinct (us @ a # vs)" using assms(2) that by simp
    then have "takeWhile (\<lambda>b. b \<noteq> a) (us @ a # vs) = us" by (subst takeWhile_append2) auto
    moreover have "takeWhile (\<lambda>b. b \<noteq> a) (ps @ a # qs) = ps" using assms(2) by (subst takeWhile_append2) auto
    ultimately show ?thesis using that by simp
  qed
  show "\<exists>xs ys zs. ps @ qs = xs @ ys @ zs \<and> (\<forall>b \<in> set ys. f b = k) \<and> (\<forall>b \<in> set xs \<union> set zs. f b \<noteq> k) \<and>
      B[h := (n - 1, if n - 1 = 0 then None else if c = Some a then hd_or qs None else c)] ! k = (length ys, hd_or ys None)"
  proof (cases "k = h")
    case True
    then have "a \<in> set ys" using mem b(3) assms(3) by blast
    then obtain y1 y2 where y: "ys = y1 @ a # y2" by (meson split_list)
    then have s: "ps = xs @ y1" "qs = y2 @ zs" using split [of "xs @ y1" "y2 @ zs"] b(1) by auto
    have "y1 \<noteq> [] \<Longrightarrow> hd y1 \<noteq> a" using assms(2) s by auto
    then show ?thesis
      using b(2-4) assms(4,5) True y s
      by (intro exI [of _ xs] exI [of _ "y1 @ y2"] exI [of _ zs]) (cases y1; cases y2; auto)
  next
    case False
    then have "a \<in> set xs \<or> a \<in> set zs" using mem b(2) assms(3) by fastforce
    then show ?thesis
    proof
      assume "a \<in> set xs"
      then obtain x1 x2 where x: "xs = x1 @ a # x2" by (meson split_list)
      then have "ps = x1" "qs = x2 @ ys @ zs" using split [of x1 "x2 @ ys @ zs"] b(1) by auto
      then show ?thesis
        using b(2-4) False x by (intro exI [of _ "x1 @ x2"] exI [of _ ys] exI [of _ zs]) (simp add: ball_Un)
    next
      assume "a \<in> set zs"
      then obtain z1 z2 where z: "zs = z1 @ a # z2" by (meson split_list)
      then have "ps = xs @ ys @ z1" "qs = z2" using split [of "xs @ ys @ z1" z2] b(1) by auto
      then show ?thesis
        using b(2-4) False z by (intro exI [of _ xs] exI [of _ ys] exI [of _ "z1 @ z2"]) (simp add: ball_Un)
    qed
  qed
qed

section \<open>A table is a finite map\<close>

definition entry :: "int \<Rightarrow> (addr \<rightharpoonup> 'd hash_ele) \<Rightarrow> addr \<Rightarrow> (nat list \<times> i32) \<times> 'd" where
  "entry c hp a = (case the (nodes hp a) of (k, l, d) \<Rightarrow> (key_norm c k l, the d))"

text \<open>The map a table stands for; the heap of the table holds its elements and nothing else.\<close>

definition table_list :: "'d hash \<Rightarrow> addr list \<Rightarrow> bool" where
  "table_list H es \<longleftrightarrow> (\<exists>hf. hash_fn (keyClass H) = Some hf \<and> linked hf H es)
     \<and> set es = dom (heap H) \<and> hcount H = int (length es)
     \<and> (htsize H = 0 \<and> es = [] \<or> (\<exists>k. htsize H = 2 ^ k))
     \<and> (\<forall>a k l d. nodes (heap H) a = Some (k, l, d) \<longrightarrow> key_ok (keyClass H) k l \<and> d \<noteq> None)
     \<and> inj_on (fst \<circ> entry (keyClass H) (heap H)) (set es)"

definition table_map :: "'d hash \<Rightarrow> (nat list \<times> i32 \<rightharpoonup> 'd) \<Rightarrow> bool" where
  "table_map H m \<longleftrightarrow> (\<forall>x d. m x = Some d \<longleftrightarrow> (\<exists>a \<in> dom (heap H). entry (keyClass H) (heap H) a = (x, d)))"

definition represents :: "'d hash \<Rightarrow> (nat list \<times> i32 \<rightharpoonup> 'd) \<Rightarrow> bool" where
  "represents H m \<longleftrightarrow> (\<exists>es. table_list H es) \<and> table_map H m"

lemma hash_fn_class: "hash_fn c = Some hf \<Longrightarrow> hash_class c"
  by (auto simp: hash_fn_def hash_class_def split: if_splits)

lemma table_mapD:
  "table_map H m \<Longrightarrow> nodes (heap H) a = Some (k, l, Some d) \<Longrightarrow> m (key_norm (keyClass H) k l) = Some d"
proof -
  assume m: "table_map H m" and a: "nodes (heap H) a = Some (k, l, Some d)"
  then have "a \<in> dom (heap H)" by (metis domI nodes_dom)
  moreover have "entry (keyClass H) (heap H) a = (key_norm (keyClass H) k l, d)" using a by (simp add: entry_def)
  ultimately show ?thesis using m unfolding table_map_def by blast
qed

lemma table_map_None:
  assumes "table_map H m"
  shows "m x = None \<longleftrightarrow> (\<forall>a \<in> dom (heap H). fst (entry (keyClass H) (heap H) a) \<noteq> x)"
proof (cases "m x")
  case None
  have "fst (entry (keyClass H) (heap H) a) \<noteq> x" if "a \<in> dom (heap H)" for a
  proof
    assume "fst (entry (keyClass H) (heap H) a) = x"
    then have "entry (keyClass H) (heap H) a = (x, snd (entry (keyClass H) (heap H) a))" by auto
    then have "m x = Some (snd (entry (keyClass H) (heap H) a))"
      using assms that unfolding table_map_def by blast
    then show False using None by simp
  qed
  then show ?thesis using None by blast
next
  case (Some d)
  then obtain a where "a \<in> dom (heap H)" "entry (keyClass H) (heap H) a = (x, d)"
    using assms unfolding table_map_def by blast
  then show ?thesis using Some by (metis fst_conv option.distinct(1))
qed

lemma find_append: "find P (xs @ ys) = (case find P xs of None \<Rightarrow> find P ys | Some x \<Rightarrow> Some x)"
  by (induction xs) auto

lemma find_none: "(\<And>x. x \<in> set xs \<Longrightarrow> \<not> P x) \<Longrightarrow> find P xs = None"
  by (auto simp: find_None_iff)

lemma search_run:
  "run hp p ys q \<Longrightarrow> search_from hp P (length ys) (hd_or ys q) = Some (find (\<lambda>a. P (the (hp a))) ys)"
  by (induction ys arbitrary: p) auto

text \<open>Searching the bucket of a key finds the one element of the table with that key.\<close>

lemma search_spec:
  assumes "table_list H es" "key_ok (keyClass H) key len" "hash_fn (keyClass H) = Some hf" "htsize H \<noteq> 0"
  shows "hash_search H key len (bucket_of hf (htsize H) key len) =
    Some (find (\<lambda>a. fst (entry (keyClass H) (heap H) a) = key_norm (keyClass H) key len) es)"
proof -
  let ?c = "keyClass H" and ?h = "bucket_of hf (htsize H) key len"
  let ?Q = "\<lambda>a. fst (entry ?c (heap H) a) = key_norm ?c key len"
  have L: "linked hf H es" "set es = dom (heap H)"
    "\<And>a k l d. nodes (heap H) a = Some (k, l, d) \<Longrightarrow> key_ok ?c k l"
    using assms(1,3) by (auto simp: table_list_def)
  obtain cmp where cmp: "cmp_fn ?c = Some cmp"
    using hash_fn_class [OF assms(3)] by (auto simp: hash_class_def cmp_fn_def)
  have B: "?h < length (ht H)" "ht H \<noteq> []"
    using bucket_of_less [of "htsize H"] assms(4) L(1) by (auto simp: linked_def)
  from L(1) B(1) obtain xs ys zs where b: "es = xs @ ys @ zs"
    "\<forall>a \<in> set xs \<union> set zs. slot hf (htsize H) (heap H) a \<noteq> ?h" "ht H ! ?h = (length ys, hd_or ys None)"
    unfolding linked_def by (elim conjE bucket_runsD)
  have node: "\<exists>e. heap H a = Some e \<and> key_ok ?c (ekey e) (elen e) \<and>
      entry ?c (heap H) a = (key_norm ?c (ekey e) (elen e), the (edata e)) \<and>
      slot hf (htsize H) (heap H) a = bucket_of hf (htsize H) (ekey e) (elen e)" if a: "a \<in> set es" for a
  proof -
    obtain e where "heap H a = Some e" using a L(2) by blast
    then show ?thesis using L(3) [of a] by (auto simp: nodes_def node_def entry_def slot_def)
  qed
  have out: "\<not> ?Q a" if "a \<in> set xs \<union> set zs" for a
  proof
    assume Q: "?Q a"
    have "a \<in> set es" using that b(1) by auto
    from node [OF this] obtain e where "heap H a = Some e" and e: "key_ok ?c (ekey e) (elen e)"
      "entry ?c (heap H) a = (key_norm ?c (ekey e) (elen e), the (edata e))"
      "slot hf (htsize H) (heap H) a = bucket_of hf (htsize H) (ekey e) (elen e)" by (elim exE conjE) (rule that)
    have "hf (ekey e) (elen e) = hf key len"
      using hash_norm [OF hash_fn_class [OF assms(3)] e(1) assms(2) _ assms(3)] Q e(2) by simp
    then show False using b(2) that e(3) by (auto simp: bucket_of_def)
  qed
  have inn: "(cmp (ekey (the (heap H a))) (elen (the (heap H a))) key len = 0) = ?Q a" if "a \<in> set ys" for a
    using node [of a] that b(1) cmp_norm [OF hash_fn_class [OF assms(3)] _ assms(2)] cmp by fastforce
  have "run (heap H) (last_or None xs) ys (hd_or zs None)" using L(1) b(1) by (simp add: linked_def)
  then have "search_from (heap H) (\<lambda>e. cmp (ekey e) (elen e) key len = 0) (length ys) (hd_or ys None) =
      Some (find (\<lambda>a. cmp (ekey (the (heap H a))) (elen (the (heap H a))) key len = 0) ys)"
    using search_run [of "heap H" _ ys "hd_or zs None"] by (cases ys) auto
  also have "\<dots> = Some (find ?Q ys)" using inn by (simp cong: find_cong)
  also have "find ?Q ys = find ?Q es"
    using out find_none [of xs ?Q] find_none [of zs ?Q] by (simp add: b(1) find_append split: option.split)
  finally show ?thesis using B b(3) cmp by (simp add: hash_search_def nth_bucket_def)
qed

lemma table_sizes: "table_list H es \<Longrightarrow> htsize H = 0 \<longleftrightarrow> ht H = []"
  by (auto simp: table_list_def linked_def)

lemma table_power: "table_list H es \<Longrightarrow> htsize H AND (htsize H - Suc 0) = 0"
  by (auto simp: table_list_def power2_and)

lemma find_in_table:
  assumes "table_list H es" "table_map H m" "key_ok (keyClass H) key len"
  defines "x \<equiv> key_norm (keyClass H) key len"
  defines "r \<equiv> find (\<lambda>a. fst (entry (keyClass H) (heap H) a) = x) es"
  shows "case r of None \<Rightarrow> m x = None
    | Some a \<Rightarrow> a \<in> set es \<and> fst (entry (keyClass H) (heap H) a) = x \<and>
        (\<exists>e. heap H a = Some e \<and> edata e = m x \<and> m x \<noteq> None)"
proof (cases r)
  case None
  then have "\<forall>a \<in> set es. fst (entry (keyClass H) (heap H) a) \<noteq> x" unfolding r_def by (auto simp: find_None_iff)
  then have "m x = None"
    using assms(1) table_map_None [OF assms(2), of x] by (simp add: table_list_def)
  then show ?thesis by (simp add: None)
next
  case (Some a)
  then have a: "a \<in> set es" "fst (entry (keyClass H) (heap H) a) = x"
    unfolding r_def by (auto simp: find_Some_iff)
  then obtain e where e: "heap H a = Some e" using assms(1) unfolding table_list_def by blast
  then have n: "nodes (heap H) a = Some (ekey e, elen e, edata e)" by (simp add: nodes_def node_def)
  then obtain d where d: "edata e = Some d" using assms(1) unfolding table_list_def by blast
  have "m x = Some d"
    using table_mapD [OF assms(2) n [unfolded d]] a(2) n by (simp add: entry_def)
  then show ?thesis using Some a e d by simp
qed

lemma hash_find_spec:
  assumes "represents H m" "key_ok (keyClass H) key len"
  shows "hash_find H key len = Some (m (key_norm (keyClass H) key len))"
proof -
  obtain es where T: "table_list H es" "table_map H m" using assms(1) by (auto simp: represents_def)
  obtain hf where hf: "hash_fn (keyClass H) = Some hf" using T(1) by (auto simp: table_list_def)
  note F = find_in_table [OF T assms(2)]
  show ?thesis
  proof (cases "htsize H = 0")
    case True
    then have "m (key_norm (keyClass H) key len) = None"
      using T(1) F by (auto simp: table_list_def)
    then show ?thesis using True table_sizes [OF T(1)] by (simp add: hash_find_def)
  next
    case False
    then show ?thesis
      using F table_sizes [OF T(1)] search_spec [OF T(1) assms(2) hf False] hf table_power [OF T(1)]
      by (auto simp: hash_find_def split: option.splits)
  qed
qed

section \<open>Insertion\<close>

lemma table_mapI:
  assumes "\<And>a. a \<in> dom (heap H) \<Longrightarrow> m (fst (entry (keyClass H) (heap H) a)) = Some (snd (entry (keyClass H) (heap H) a))"
    and "\<And>x. m x \<noteq> None \<Longrightarrow> \<exists>a \<in> dom (heap H). fst (entry (keyClass H) (heap H) a) = x"
  shows "table_map H m"
  unfolding table_map_def
proof (intro allI iffI)
  fix x d assume m: "m x = Some d"
  then obtain a where a: "a \<in> dom (heap H)" "fst (entry (keyClass H) (heap H) a) = x" using assms(2) by blast
  then show "\<exists>a \<in> dom (heap H). entry (keyClass H) (heap H) a = (x, d)"
    using assms(1) [OF a(1)] m by (metis option.inject prod.collapse)
next
  fix x d assume "\<exists>a \<in> dom (heap H). entry (keyClass H) (heap H) a = (x, d)"
  then show "m x = Some d" using assms(1) by (metis fst_conv snd_conv)
qed

lemma table_map_entry:
  "table_map H m \<Longrightarrow> a \<in> dom (heap H) \<Longrightarrow>
    m (fst (entry (keyClass H) (heap H) a)) = Some (snd (entry (keyClass H) (heap H) a))"
  unfolding table_map_def by (metis prod.collapse)

lemma entry_cong: "nodes hp' a = nodes hp a \<Longrightarrow> entry c hp' a = entry c hp a"
  by (simp add: entry_def)

lemma table_inj:
  assumes "table_list H es" "a \<in> dom (heap H)" "b \<in> dom (heap H)"
    and "fst (entry (keyClass H) (heap H) a) = fst (entry (keyClass H) (heap H) b)"
  shows "a = b"
proof -
  have "inj_on (fst \<circ> entry (keyClass H) (heap H)) (dom (heap H))"
    using assms(1) unfolding table_list_def by metis
  then show ?thesis using assms(2-4) by (simp add: inj_on_def)
qed

lemma linked_data:
  assumes "linked hf H es" "heap H a = Some e"
  shows "linked hf (H\<lparr>heap := (heap H)(a \<mapsto> e\<lparr>edata := d\<rparr>)\<rparr>) es"
proof -
  have "run ((heap H)(a \<mapsto> e\<lparr>edata := d\<rparr>)) p as q = run (heap H) p as q" for p as q
    using assms(2) by (induction as arbitrary: p) auto
  moreover have "slot hf n ((heap H)(a \<mapsto> e\<lparr>edata := d\<rparr>)) = slot hf n (heap H)" for n
    using assms(2) by (auto simp: slot_def nodes_def node_def fun_eq_iff)
  ultimately show ?thesis using assms(1) by (simp add: linked_def)
qed

text \<open>Replacing the data of an element.\<close>

lemma replace_spec:
  assumes "table_list H es" "table_map H m" "a \<in> set es" "heap H a = Some e"
    and "fst (entry (keyClass H) (heap H) a) = x"
  shows "represents (H\<lparr>heap := (heap H)(a \<mapsto> e\<lparr>edata := Some d\<rparr>)\<rparr>) (m(x \<mapsto> d))"
proof -
  let ?hp = "(heap H)(a \<mapsto> e\<lparr>edata := Some d\<rparr>)" and ?c = "keyClass H"
  have k: "fst (entry ?c ?hp b) = fst (entry ?c (heap H) b)" for b
    using assms(4) by (auto simp: entry_def nodes_def node_def split: prod.split)
  have s: "b \<noteq> a \<Longrightarrow> entry ?c ?hp b = entry ?c (heap H) b" for b
    by (rule entry_cong) (simp add: nodes_def)
  have "\<exists>hf. hash_fn ?c = Some hf \<and> linked hf (H\<lparr>heap := ?hp\<rparr>) es"
    using assms(1) linked_data [OF _ assms(4)] by (auto simp: table_list_def)
  moreover have "set es = dom ?hp" using assms(1,4) by (auto simp: table_list_def)
  moreover have "key_ok ?c k l \<and> d' \<noteq> None" if "nodes ?hp b = Some (k, l, d')" for b k l d'
  proof (cases "b = a")
    case True
    have "nodes (heap H) a = Some (ekey e, elen e, edata e)" using assms(4) by (simp add: nodes_def node_def)
    then have "key_ok ?c (ekey e) (elen e)" using assms(1) unfolding table_list_def by blast
    then show ?thesis using that True by (auto simp: nodes_def node_def)
  next
    case False
    then have "nodes (heap H) b = Some (k, l, d')" using that by (simp add: nodes_def)
    then show ?thesis using assms(1) unfolding table_list_def by blast
  qed
  moreover have "inj_on (fst \<circ> entry ?c ?hp) (set es)"
    using assms(1) k by (auto simp: table_list_def inj_on_def)
  ultimately have "table_list (H\<lparr>heap := ?hp\<rparr>) es"
    using assms(1) by (auto simp: table_list_def)
  moreover have "table_map (H\<lparr>heap := ?hp\<rparr>) (m(x \<mapsto> d))"
  proof (rule table_mapI)
    fix b assume "b \<in> dom (heap (H\<lparr>heap := ?hp\<rparr>))"
    then have b: "b \<in> dom (heap H)" using assms(4) by auto
    show "(m(x \<mapsto> d)) (fst (entry (keyClass (H\<lparr>heap := ?hp\<rparr>)) (heap (H\<lparr>heap := ?hp\<rparr>)) b)) =
        Some (snd (entry (keyClass (H\<lparr>heap := ?hp\<rparr>)) (heap (H\<lparr>heap := ?hp\<rparr>)) b))"
    proof (cases "b = a")
      case True
      have "snd (entry ?c ?hp a) = d" by (simp add: entry_def nodes_def node_def)
      then show ?thesis using True assms(5) k by simp
    next
      case False
      have "a \<in> dom (heap H)" using assms(4) by blast
      then have "fst (entry ?c (heap H) b) \<noteq> x"
        using False assms(5) table_inj [OF assms(1) b] by metis
      then show ?thesis using False s table_map_entry [OF assms(2) b] by simp
    qed
  next
    fix y assume y: "(m(x \<mapsto> d)) y \<noteq> None"
    show "\<exists>b \<in> dom (heap (H\<lparr>heap := ?hp\<rparr>)). fst (entry (keyClass (H\<lparr>heap := ?hp\<rparr>)) (heap (H\<lparr>heap := ?hp\<rparr>)) b) = y"
    proof (cases "y = x")
      case True
      then show ?thesis using assms(5) k by auto
    next
      case False
      then obtain b where "b \<in> dom (heap H)" "fst (entry ?c (heap H) b) = y"
        using y table_map_None [OF assms(2), of y] by auto
      then show ?thesis using k by auto
    qed
  qed
  ultimately show ?thesis by (auto simp: represents_def)
qed

text \<open>Deleting an element.\<close>

lemma delete_spec:
  assumes "table_list H es" "table_map H m" "a \<in> set es" "fst (entry (keyClass H) (heap H) a) = x"
    and "hash_fn (keyClass H) = Some hf" "heap H a = Some e" "htsize H \<noteq> 0"
  shows "\<exists>H'. hash_remove H a (bucket_of hf (htsize H) (ekey e) (elen e)) = Some H'
    \<and> represents H' (m(x := None)) \<and> keyClass H' = keyClass H \<and> dom (heap H') \<subseteq> dom (heap H)"
proof -
  let ?h = "bucket_of hf (htsize H) (ekey e) (elen e)" and ?c = "keyClass H"
  obtain ps qs where es: "es = ps @ a # qs" using assms(3) by (meson split_list)
  have L: "run (heap H) None es None" "hfirst H = hd_or es None" "distinct es" "length (ht H) = htsize H"
    "bucket_runs (slot hf (htsize H) (heap H)) es (ht H)"
    using assms(1,5) by (auto simp: table_list_def linked_def)
  have h: "?h < length (ht H)" using bucket_of_less assms(7) L(4) by simp
  have f: "slot hf (htsize H) (heap H) a = ?h" using assms(6) by (simp add: slot_def nodes_def node_def)
  obtain n c where b: "ht H ! ?h = (n, c)" by (cases "ht H ! ?h")
  let ?B = "(ht H)[?h := (n - 1, if n - 1 = 0 then None else if c = Some a then hd_or qs None else c)]"
  from unlink_spec [OF L(1,2,3) [unfolded es] h b] obtain hp where s:
    "hash_remove H a ?h = Some (H\<lparr>heap := hp, hfirst := hd_or (ps @ qs) None, ht := ?B, hcount := hcount H - 1\<rparr>)"
    "run hp None (ps @ qs) None" "nodes hp = (nodes (heap H))(a := None)" by blast
  define H' where "H' = H\<lparr>heap := hp, hfirst := hd_or (ps @ qs) None, ht := ?B, hcount := hcount H - 1\<rparr>"
  have other: "nodes hp b' = nodes (heap H) b'" if "b' \<noteq> a" for b' using s(3) that by simp
  have sl: "slot hf (htsize H) hp b' = slot hf (htsize H) (heap H) b'" if "b' \<in> set (ps @ qs)" for b'
  proof -
    have "b' \<noteq> a" using that es L(3) by auto
    then show ?thesis using other [of b'] by (simp add: slot_def)
  qed
  have dm: "dom hp = dom (heap H) - {a}" using s(3) by (metis dom_fun_upd nodes_dom)
  have se: "set (ps @ qs) = dom hp"
    using assms(1) es L(3) dm by (auto simp: table_list_def)
  have "bucket_runs (slot hf (htsize H) (heap H)) (ps @ qs) ?B"
    using bucket_unlink [of "slot hf (htsize H) (heap H)" ps a qs "ht H" ?h n c] L(3,5) es f h b by simp
  then have "bucket_runs (slot hf (htsize H) hp) (ps @ qs) ?B"
    by (rule bucket_runs_cong) (rule sl)
  then have lk: "linked hf H' (ps @ qs)"
    using s(2) L(3,4) es by (simp add: linked_def H'_def)
  have en: "entry ?c hp b' = entry ?c (heap H) b'" if "b' \<in> dom hp" for b'
    using that dm other by (intro entry_cong) auto
  have inj: "inj_on (fst \<circ> entry ?c hp) (set (ps @ qs))"
    using table_inj [OF assms(1)] en dm se by (auto simp: inj_on_def)
  have ok: "key_ok ?c k l \<and> d \<noteq> None" if "nodes hp b' = Some (k, l, d)" for b' k l d
  proof -
    have "nodes (heap H) b' = Some (k, l, d)" using that s(3) by (auto split: if_splits)
    then show ?thesis using assms(1) unfolding table_list_def by blast
  qed
  have "table_list H' (ps @ qs)"
    using lk se inj ok assms(1,5) es unfolding table_list_def H'_def by (auto 0 3)
  moreover have "table_map H' (m(x := None))"
  proof (rule table_mapI)
    fix b' assume "b' \<in> dom (heap H')"
    then have b': "b' \<in> dom hp" "b' \<in> dom (heap H)" "b' \<noteq> a" using dm by (auto simp: H'_def)
    have "a \<in> dom (heap H)" using assms(6) by blast
    then have "fst (entry ?c (heap H) b') \<noteq> x" using table_inj [OF assms(1) b'(2)] b'(3) assms(4) by metis
    then show "(m(x := None)) (fst (entry (keyClass H') (heap H') b')) = Some (snd (entry (keyClass H') (heap H') b'))"
      using en [OF b'(1)] table_map_entry [OF assms(2) b'(2)] by (simp add: H'_def)
  next
    fix y assume "(m(x := None)) y \<noteq> None"
    then have y: "y \<noteq> x" "m y \<noteq> None" by (auto split: if_splits)
    then obtain b' where b': "b' \<in> dom (heap H)" "fst (entry ?c (heap H) b') = y"
      using table_map_None [OF assms(2), of y] by auto
    then have "b' \<in> dom hp" using dm y assms(4) by auto
    then show "\<exists>b' \<in> dom (heap H'). fst (entry (keyClass H') (heap H') b') = y"
      using en b' by (auto simp: H'_def)
  qed
  moreover have "dom (heap H') \<subseteq> dom (heap H)" unfolding H'_def using dm by simp
  ultimately show ?thesis using s(1) by (auto simp: represents_def H'_def)
qed

text \<open>A new element.\<close>

lemma add_spec:
  assumes "table_list H es" "table_map H m" "m (key_norm (keyClass H) key len) = None"
    and "key_ok (keyClass H) key len" "a \<notin> dom (heap H)" "hash_fn (keyClass H) = Some hf"
    and "linked hf H' es'" "set es' = insert a (set es)" "keyClass H' = keyClass H"
    and "nodes (heap H') = (nodes (heap H))(a \<mapsto> (key, len, Some d))"
    and "hcount H' = hcount H + 1" "htsize H' = 2 ^ k"
  shows "represents H' (m(key_norm (keyClass H) key len \<mapsto> d))"
proof -
  let ?c = "keyClass H" and ?x = "key_norm (keyClass H) key len"
  have dm: "dom (heap H') = insert a (dom (heap H))" using assms(10) by (metis dom_fun_upd nodes_dom option.distinct(1))
  have ea: "entry ?c (heap H') a = (?x, d)" using assms(10) by (simp add: entry_def)
  have eo: "entry ?c (heap H') b = entry ?c (heap H) b" if "b \<in> dom (heap H)" for b
  proof (rule entry_cong)
    have "b \<noteq> a" using that assms(5) by auto
    then show "nodes (heap H') b = nodes (heap H) b" using assms(10) by simp
  qed
  have nx: "fst (entry ?c (heap H) b) \<noteq> ?x" if "b \<in> dom (heap H)" for b
    using assms(3) table_map_None [OF assms(2)] that by blast
  have es: "set es = dom (heap H)" using assms(1) unfolding table_list_def by blast
  have len: "length es' = Suc (length es)"
  proof -
    have "distinct es" "distinct es'" using assms(1,7) by (auto simp: table_list_def linked_def)
    moreover have "finite (dom (heap H))" by (metis es finite_set)
    ultimately show ?thesis using assms(5,8) es distinct_card [of es] distinct_card [of es'] by simp
  qed
  have "inj_on (fst \<circ> entry ?c (heap H')) (insert a (dom (heap H)))"
  proof (rule inj_onI)
    fix b b' assume b: "b \<in> insert a (dom (heap H))" "b' \<in> insert a (dom (heap H))"
      and eq: "(fst \<circ> entry ?c (heap H')) b = (fst \<circ> entry ?c (heap H')) b'"
    show "b = b'"
    proof (cases "b = a \<or> b' = a")
      case True
      then show ?thesis using b eq ea eo nx [of b] nx [of b'] by (auto simp del: domIff iff del: domIff dest: sym)
    next
      case False
      then show ?thesis using b eq eo table_inj [OF assms(1)] by simp
    qed
  qed
  moreover have "key_ok ?c k l \<and> d' \<noteq> None" if "nodes (heap H') b = Some (k, l, d')" for b k l d'
  proof (cases "b = a")
    case True
    then show ?thesis using that assms(4,10) by auto
  next
    case False
    then have "nodes (heap H) b = Some (k, l, d')" using that assms(10) by simp
    then show ?thesis using assms(1) unfolding table_list_def by blast
  qed
  moreover have "hcount H' = int (length es')" using assms(1,11) len by (simp add: table_list_def)
  ultimately have "table_list H' es'"
    using assms(6,7,8,9,12) dm es unfolding table_list_def by auto
  moreover have "table_map H' (m(?x \<mapsto> d))"
  proof (rule table_mapI)
    fix b assume "b \<in> dom (heap H')"
    then consider "b = a" | "b \<in> dom (heap H)" using dm by auto
    then show "(m(?x \<mapsto> d)) (fst (entry (keyClass H') (heap H') b)) = Some (snd (entry (keyClass H') (heap H') b))"
      by cases (use ea eo nx assms(9) table_map_entry [OF assms(2)] in auto)
  next
    fix y assume y: "(m(?x \<mapsto> d)) y \<noteq> None"
    show "\<exists>b \<in> dom (heap H'). fst (entry (keyClass H') (heap H') b) = y"
    proof (cases "y = ?x")
      case True
      then show ?thesis using ea dm assms(9) by auto
    next
      case False
      then have "m y \<noteq> None" using y by simp
      then obtain b where "b \<in> dom (heap H)" "fst (entry ?c (heap H) b) = y"
        using table_map_None [OF assms(2), of y] by auto
      then show ?thesis using eo dm assms(9) by auto
    qed
  qed
  ultimately show ?thesis by (auto simp: represents_def)
qed

text \<open>The table before the new element is linked: large enough, with the new node still loose.\<close>

lemma grow_spec:
  fixes key :: string and len :: i32
  assumes "table_list H es" "hash_fn (keyClass H) = Some hf" "a \<notin> dom (heap H)" "htsize H = 0 \<longrightarrow> t"
    and "N = \<lparr>enext = None, eprev = None, edata = None, ekey = key, elen = len\<rparr>"
  defines "H1 \<equiv> H\<lparr>heap := (heap H)(a \<mapsto> N), hcount := hcount H + 1\<rparr>"
  shows "\<exists>H2 H3 es' k. (if htsize H1 = 0 then rehash t 8 H1 else Some H1) = Some H2 \<and> htsize H2 \<noteq> 0
    \<and> (if hcount H2 > int (htsize H2) then rehash t (htsize H2 * 2) H2 else Some H2) = Some H3
    \<and> linked hf H3 es' \<and> set es' = set es \<and> same_table H1 H3 \<and> htsize H3 = 2 ^ k \<and> heap H3 a = Some N"
proof -
  have L: "linked hf H es" "set es = dom (heap H)" using assms(1,2) by (auto simp: table_list_def)
  have a: "a \<notin> set es" using L(2) assms(3) by simp
  have "slot hf n (heap H1) b = slot hf n (heap H) b" if "b \<in> set es" for n b
    using that a by (auto simp: slot_def nodes_def H1_def)
  then have "bucket_runs (slot hf (htsize H) (heap H1)) es (ht H)"
    using L(1) bucket_runs_cong [of "slot hf (htsize H) (heap H)" es "ht H"] unfolding linked_def by blast
  then have L1: "linked hf H1 es" using L(1) a by (simp add: linked_def H1_def run_other)
  have na: "heap H1 a = Some N" by (simp add: H1_def)
  have grow: "\<exists>H2 es'. rehash True (2 ^ k) H1 = Some H2 \<and> linked hf H2 es' \<and> set es' = set es
      \<and> same_table H1 H2 \<and> htsize H2 = 2 ^ k \<and> heap H2 a = Some N" for k
    using rehash_spec [of H1 es hf k] L1 assms(2) a na by (fastforce simp: linked_def H1_def)
  show ?thesis
  proof (cases "htsize H = 0")
    case True
    then have e: "es = []" "hcount H = 0" using assms(1) by (auto simp: table_list_def)
    from grow [of 3] obtain H2 es' where g: "rehash True 8 H1 = Some H2" "linked hf H2 es'"
      "set es' = set es" "same_table H1 H2" "htsize H2 = 8" "heap H2 a = Some N" by auto
    have "hcount H2 = 1" using g(4) e(2) by (simp add: same_table_def H1_def)
    then show ?thesis
      using True g assms(4) by (intro exI [of _ H2] exI [of _ es'] exI [of _ 3]) (auto simp: H1_def)
  next
    case False
    then obtain k where k: "htsize H = 2 ^ k" using assms(1) by (auto simp: table_list_def)
    have z: "htsize H1 = htsize H" by (simp add: H1_def)
    show ?thesis
    proof (cases "hcount H1 > int (htsize H1) \<and> t")
      case True
      from grow [of "Suc k"] obtain H3 es' where g: "rehash True (2 ^ k * 2) H1 = Some H3" "linked hf H3 es'"
        "set es' = set es" "same_table H1 H3" "htsize H3 = 2 ^ Suc k" "heap H3 a = Some N"
        by (auto simp: mult.commute)
      then show ?thesis
        using True False k z by (intro exI [of _ H1] exI [of _ H3] exI [of _ es'] exI [of _ "Suc k"]) auto
    next
      case F: False
      have "rehash False (2 ^ k * 2) H1 = Some H1"
        using power2_and [of "Suc k"] by (simp add: rehash_def mult.commute)
      then show ?thesis
        using F False k z L1 na
        by (intro exI [of _ H1] exI [of _ H1] exI [of _ es] exI [of _ k]) (auto simp: same_table_def)
    qed
  qed
qed

text \<open>When the allocator cannot satisfy an insertion of a new key.\<close>

definition alloc_fails :: "alloc \<Rightarrow> 'd hash \<Rightarrow> bool" where
  "alloc_fails al H \<longleftrightarrow> a_elem al = None \<or> copyKey H \<and> \<not> a_key al \<or> htsize H = 0 \<and> \<not> a_table al"

definition fresh :: "alloc \<Rightarrow> 'd hash \<Rightarrow> bool" where
  "fresh al H \<longleftrightarrow> (\<forall>a. a_elem al = Some a \<longrightarrow> a \<notin> dom (heap H))"

lemma insert_found:
  assumes "table_list H es" "table_map H m" "key_ok (keyClass H) key len" "m (key_norm (keyClass H) key len) \<noteq> None"
  shows "\<exists>H'. hash_insert al H key len d = Some (m (key_norm (keyClass H) key len), H')
    \<and> represents H' (m(key_norm (keyClass H) key len := d)) \<and> keyClass H' = keyClass H
    \<and> dom (heap H') \<subseteq> dom (heap H)"
proof -
  let ?x = "key_norm (keyClass H) key len"
  obtain hf where hf: "hash_fn (keyClass H) = Some hf" using assms(1) by (auto simp: table_list_def)
  have z: "htsize H \<noteq> 0"
    using find_in_table [OF assms(1-3)] assms(1,4) by (auto simp: table_list_def)
  let ?h = "bucket_of hf (htsize H) key len"
  from find_in_table [OF assms(1-3)] assms(4) obtain a e where f:
    "find (\<lambda>a. fst (entry (keyClass H) (heap H) a) = ?x) es = Some a" "a \<in> set es"
    "fst (entry (keyClass H) (heap H) a) = ?x" "heap H a = Some e" "edata e = m ?x"
    by (auto split: option.splits)
  have s: "hash_search H key len ?h = Some (Some a)"
    using search_spec [OF assms(1,3) hf z] f(1) by simp
  show ?thesis
  proof (cases d)
    case (Some d')
    then show ?thesis
      using hf z table_power [OF assms(1)] s f replace_spec [OF assms(1,2) f(2,4,3)]
      by (auto simp: hash_insert_def Let_def upd_def)
  next
    case None
    have "key_norm (keyClass H) (ekey e) (elen e) = ?x" "key_ok (keyClass H) (ekey e) (elen e)"
    proof -
      have n: "nodes (heap H) a = Some (ekey e, elen e, edata e)" using f(4) by (simp add: nodes_def node_def)
      show "key_ok (keyClass H) (ekey e) (elen e)" using assms(1) n unfolding table_list_def by blast
      show "key_norm (keyClass H) (ekey e) (elen e) = ?x" using n f(3) by (simp add: entry_def)
    qed
    then have "hf (ekey e) (elen e) = hf key len"
      using hash_norm [OF hash_fn_class [OF hf] _ assms(3) _ hf] by blast
    then have b: "bucket_of hf (htsize H) (ekey e) (elen e) = ?h" by (simp add: bucket_of_def)
    from delete_spec [OF assms(1,2) f(2,3) hf f(4) z] obtain H' where
      "hash_remove H a ?h = Some H'" "represents H' (m(?x := None))" "keyClass H' = keyClass H"
      "dom (heap H') \<subseteq> dom (heap H)"
      unfolding b by blast
    then show ?thesis
      using None hf z table_power [OF assms(1)] s f by (simp add: hash_insert_def Let_def)
  qed
qed

lemma search_absent:
  assumes "table_list H es" "table_map H m" "key_ok (keyClass H) key len" "m (key_norm (keyClass H) key len) = None"
    and "hash_fn (keyClass H) = Some hf"
  shows "hash_search H key len (bucket_of hf (htsize H) key len) = Some None"
proof (cases "htsize H = 0")
  case True
  then show ?thesis using table_sizes [OF assms(1)] by (simp add: hash_search_def)
next
  case False
  then show ?thesis
    using search_spec [OF assms(1,3,5) False] find_in_table [OF assms(1-3)] assms(4)
    by (auto split: option.splits)
qed

lemma insert_new:
  assumes "table_list H es" "table_map H m" "key_ok (keyClass H) key len" "m (key_norm (keyClass H) key len) = None"
    and "fresh al H" "\<not> alloc_fails al H"
  shows "\<exists>H'. hash_insert al H key len (Some d) = Some (None, H')
    \<and> represents H' (m(key_norm (keyClass H) key len \<mapsto> d)) \<and> keyClass H' = keyClass H
    \<and> dom (heap H') \<subseteq> dom (heap H) \<union> set_option (a_elem al)"
proof -
  let ?x = "key_norm (keyClass H) key len"
  obtain hf where hf: "hash_fn (keyClass H) = Some hf" using assms(1) by (auto simp: table_list_def)
  obtain a where a: "a_elem al = Some a" "a \<notin> dom (heap H)" "copyKey H \<longrightarrow> a_key al" "htsize H = 0 \<longrightarrow> a_table al"
    using assms(5,6) by (auto simp: fresh_def alloc_fails_def)
  note s = search_absent [OF assms(1-4) hf]
  define N :: "'a hash_ele" where "N = \<lparr>enext = None, eprev = None, edata = None, ekey = key, elen = len\<rparr>"
  define H1 where "H1 = H\<lparr>heap := (heap H)(a \<mapsto> N), hcount := hcount H + 1\<rparr>"
  from grow_spec [OF assms(1) hf a(2,4) N_def, folded H1_def] obtain H2 H3 es' k where g:
    "(if htsize H1 = 0 then rehash (a_table al) 8 H1 else Some H1) = Some H2" "htsize H2 \<noteq> 0"
    "(if hcount H2 > int (htsize H2) then rehash (a_table al) (htsize H2 * 2) H2 else Some H2) = Some H3"
    "linked hf H3 es'" "set es' = set es" "same_table H1 H3" "htsize H3 = 2 ^ k" "heap H3 a = Some N"
    by blast
  have ae: "a \<notin> set es'" using a(2) g(5) assms(1) by (auto simp: table_list_def)
  from link_step [OF g(4) _ ae g(8)] g(7) obtain H4 es4 where l:
    "link_elem a (bucket_of hf (htsize H3) key len) H3 = Some H4" "linked hf H4 es4"
    "set es4 = insert a (set es')" "same_table H3 H4" "htsize H4 = htsize H3" by (auto simp: N_def)
  have n4: "nodes (heap H4) = (nodes (heap H))(a \<mapsto> (key, len, None))"
    using g(6) l(4) by (simp add: same_table_def H1_def nodes_def N_def node_def fun_eq_iff)
  then have "nodes (heap H4) a = Some (key, len, None)" by simp
  then obtain e where e: "heap H4 a = Some e" "ekey e = key" "elen e = len" by (auto simp: nodes_def node_def)
  let ?H5 = "H4\<lparr>heap := (heap H4)(a \<mapsto> e\<lparr>edata := Some d\<rparr>)\<rparr>"
  have "nodes (heap ?H5) = (nodes (heap H4))(a \<mapsto> (key, len, Some d))"
    using e by (simp add: nodes_def node_def fun_eq_iff)
  with n4 have n5: "nodes (heap ?H5) = (nodes (heap H))(a \<mapsto> (key, len, Some d))" by simp
  have "represents ?H5 (m(?x \<mapsto> d))"
    by (rule add_spec [OF assms(1,2,4,3) a(2) hf linked_data [OF l(2) e(1)] _ _ n5])
      (use l(3,4,5) g(5,6,7) in \<open>simp_all add: same_table_def H1_def\<close>)
  moreover have "dom (heap ?H5) \<subseteq> dom (heap H) \<union> set_option (a_elem al)"
    using n5 a(1) by (metis dom_fun_upd nodes_dom Un_iff insertE option.distinct(1) option.set_intros subsetI)
  moreover have "keyClass ?H5 = keyClass H" using l(4) g(6) by (simp add: same_table_def H1_def)
  moreover have "hash_insert al H key len (Some d) = Some (None, ?H5)"
    using hf s a table_power [OF assms(1)] g(2) l(1) e(1) g(7) power2_and [of k]
      g(1,3) [unfolded H1_def N_def]
    by (simp add: hash_insert_def Let_def upd_def)
  ultimately show ?thesis by blast
qed

lemma insert_fails:
  assumes "table_list H es" "table_map H m" "key_ok (keyClass H) key len" "m (key_norm (keyClass H) key len) = None"
    and "fresh al H" "d = None \<or> alloc_fails al H"
  shows "\<exists>H'. hash_insert al H key len d = Some (d, H') \<and> represents H' m \<and> keyClass H' = keyClass H
    \<and> dom (heap H') \<subseteq> dom (heap H)"
proof -
  obtain hf where hf: "hash_fn (keyClass H) = Some hf" using assms(1) by (auto simp: table_list_def)
  note s = search_absent [OF assms(1-4) hf]
  have r: "represents H m" using assms(1,2) by (auto simp: represents_def)
  show ?thesis
  proof (cases "d = None \<or> a_elem al = None \<or> copyKey H \<and> \<not> a_key al")
    case True
    then show ?thesis
      using hf s r table_power [OF assms(1)]
      by (auto simp: hash_insert_def Let_def split: option.split)
  next
    case False
    then obtain a d' where a: "a_elem al = Some a" "htsize H = 0" "\<not> a_table al" "d = Some d'"
      using assms(6) by (auto simp: alloc_fails_def)
    have "hcount H = 0" "a \<notin> dom (heap H)" using assms(1,5) a by (auto simp: table_list_def fresh_def)
    then have "H\<lparr>hcount := 0, heap := (heap H)(a := None)\<rparr> = H"
      by (cases H) (auto simp: fun_eq_iff)
    then show ?thesis
      using hf s r a False by (simp add: hash_insert_def Let_def rehash_def and_nat_def)
  qed
qed

lemma hash_insert_spec:
  assumes "represents H m" "key_ok (keyClass H) key len" "fresh al H"
  defines "x \<equiv> key_norm (keyClass H) key len"
  shows "\<exists>r H'. hash_insert al H key len d = Some (r, H') \<and> keyClass H' = keyClass H
    \<and> dom (heap H') \<subseteq> dom (heap H) \<union> set_option (a_elem al)
    \<and> (if d \<noteq> None \<and> m x = None \<and> alloc_fails al H then r = d \<and> represents H' m
       else r = m x \<and> represents H' (m(x := d)))"
proof -
  obtain es where T: "table_list H es" "table_map H m" using assms(1) by (auto simp: represents_def)
  consider "m x \<noteq> None" | "m x = None" "d = None \<or> alloc_fails al H" | d' where "m x = None" "d = Some d'" "\<not> alloc_fails al H"
    by (cases d) auto
  then show ?thesis
  proof cases
    case 1
    then show ?thesis using insert_found [OF T assms(2), of al d] by (fastforce simp: x_def)
  next
    case 2
    then have "m(x := None) = m" by (auto simp: fun_eq_iff)
    with 2 show ?thesis using insert_fails [OF T assms(2) _ assms(3), of d] by (fastforce simp: x_def)
  next
    case (3 d')
    then show ?thesis using insert_new [OF T assms(2) _ assms(3), of d'] by (fastforce simp: x_def)
  qed
qed

section \<open>Creation, traversal and destruction\<close>

lemma hash_init_spec:
  "hash_class c \<Longrightarrow> \<exists>H. hash_init c copy = Some H \<and> represents H Map.empty \<and> keyClass H = c \<and> heap H = Map.empty"
  by (auto simp: hash_class_def hash_init_def represents_def table_list_def table_map_def hash_fn_def
      linked_def bucket_runs_def nodes_def)

text \<open>The loop \<^verbatim>\<open>for(p=__hash_first(&h); p; p=__hash_next(p))\<close>, with the elements it visits.\<close>

partial_function (option) hash_walk :: "(addr \<rightharpoonup> 'd hash_ele) \<Rightarrow> addr option \<Rightarrow> addr list option" where
  "hash_walk hp p =
     (case p of None \<Rightarrow> Some []
      | Some a \<Rightarrow> do { e \<leftarrow> hp a; as \<leftarrow> hash_walk hp (enext e); Some (a # as) })"

lemma walk_forward: "forward hp as \<Longrightarrow> hash_walk hp (hd_or as None) = Some as"
proof (induction as)
  case Nil
  then show ?case by (simp add: hash_walk.simps [of hp None])
next
  case (Cons a as)
  then show ?case by (auto simp: hash_walk.simps [of hp "Some a"])
qed

lemma free_forward:
  "forward hp as \<Longrightarrow> distinct as \<Longrightarrow> free_elems (hd_or as None) hp = Some (hp |` (- set as))"
proof (induction as arbitrary: hp)
  case Nil
  then show ?case by (simp add: free_elems.simps [of None])
next
  case (Cons a as)
  then have "forward (hp(a := None)) as" by (subst forward_cong [of as _ hp]) auto
  then have "free_elems (hd_or as None) (hp(a := None)) = Some ((hp(a := None)) |` (- set as))"
    using Cons.IH Cons.prems(2) by (metis distinct.simps(2))
  moreover have "(hp(a := None)) |` (- set as) = hp |` (- insert a (set as))"
    by (auto simp: restrict_map_def fun_eq_iff)
  ultimately show ?case using Cons.prems by (auto simp: free_elems.simps [of "Some a"])
qed

lemma table_forward: "table_list H es \<Longrightarrow> forward (heap H) es \<and> hfirst H = hd_or es None \<and> distinct es"
  by (auto simp: table_list_def linked_def run_forward)

lemma hash_clear_spec:
  assumes "represents H m"
  shows "\<exists>H'. hash_clear H = Some H' \<and> represents H' Map.empty \<and> heap H' = Map.empty \<and> keyClass H' = keyClass H"
proof -
  obtain es where T: "table_list H es" using assms by (auto simp: represents_def)
  have "free_elems (hfirst H) (heap H) = Some (heap H |` (- set es))"
    using free_forward table_forward [OF T] by metis
  moreover have "heap H |` (- set es) = Map.empty"
    using T by (auto simp: table_list_def restrict_map_def fun_eq_iff)
  ultimately show ?thesis
    using T by (auto simp: hash_clear_def represents_def table_list_def table_map_def linked_def
        bucket_runs_def nodes_def)
qed

lemma hash_walk_spec:
  assumes "represents H m"
  shows "\<exists>es. hash_walk (heap H) (hfirst H) = Some es \<and> distinct es \<and> set es = dom (heap H)
    \<and> hcount H = int (length es)
    \<and> bij_betw (\<lambda>a. fst (entry (keyClass H) (heap H) a)) (set es) (dom m)"
proof -
  obtain es where T: "table_list H es" "table_map H m" using assms by (auto simp: represents_def)
  have "(\<lambda>a. fst (entry (keyClass H) (heap H) a)) ` dom (heap H) = dom m"
  proof (intro equalityI subsetI)
    fix x assume "x \<in> (\<lambda>a. fst (entry (keyClass H) (heap H) a)) ` dom (heap H)"
    then show "x \<in> dom m" using table_map_entry [OF T(2)] by blast
  next
    fix x assume "x \<in> dom m"
    then show "x \<in> (\<lambda>a. fst (entry (keyClass H) (heap H) a)) ` dom (heap H)"
      using table_map_None [OF T(2), of x] by (auto simp: image_iff)
  qed
  moreover have "inj_on (\<lambda>a. fst (entry (keyClass H) (heap H) a)) (dom (heap H))"
    using table_inj [OF T(1)] by (auto intro: inj_onI)
  moreover have "hash_walk (heap H) (hfirst H) = Some es" "distinct es"
    using walk_forward table_forward [OF T(1)] by metis+
  moreover have "set es = dom (heap H)" "hcount H = int (length es)"
    using T(1) by (simp_all add: table_list_def)
  ultimately show ?thesis by (intro exI [of _ es]) (simp add: bij_betw_def)
qed

section \<open>The contract of a table\<close>

text \<open>
  What the users of a table rely on, whatever its structure: \<open>rep h m\<close> says that \<open>h\<close> holds the
  map \<open>m\<close>, keys with the same \<open>norm\<close> are the same key, and \<open>room\<close> that the allocator can serve an
  insertion.
\<close>

locale table =
  fixes rep :: "'h \<Rightarrow> ('k \<rightharpoonup> 'd) \<Rightarrow> bool" and lookup :: "'h \<Rightarrow> 'q \<Rightarrow> 'd option option"
    and store :: "'a \<Rightarrow> 'h \<Rightarrow> 'q \<Rightarrow> 'd option \<Rightarrow> ('d option \<times> 'h) option"
    and norm :: "'q \<Rightarrow> 'k" and proper :: "'q \<Rightarrow> bool" and room :: "'a \<Rightarrow> 'h \<Rightarrow> bool"
  assumes lookup_rep: "rep h m \<Longrightarrow> proper q \<Longrightarrow> lookup h q = Some (m (norm q))"
    and store_rep: "rep h m \<Longrightarrow> proper q \<Longrightarrow> room a h \<Longrightarrow>
      \<exists>h'. store a h q d = Some (m (norm q), h') \<and> rep h' (m(norm q := d))"
begin

lemma lookup_stored:
  assumes "rep h m" "proper q" "proper q'" "room a h" "store a h q d = Some (r, h')"
  shows "lookup h' q' = Some (if norm q' = norm q then d else m (norm q'))"
  using store_rep [OF assms(1,2,4), of d] assms lookup_rep [of h' _ q'] by auto

lemma stored_twice:
  assumes "rep h m" "proper q" "room a h" "store a h q d = Some (r, h')" "room a' h'" "store a' h' q d' = Some (r', h'')"
  shows "r = m (norm q) \<and> r' = d \<and> rep h'' (m(norm q := d'))"
  using store_rep [OF assms(1-3), of d] store_rep [of h' "m(norm q := d)" q a' d'] assms by auto

lemma lookup_unique: "rep h m \<Longrightarrow> rep h m' \<Longrightarrow> proper q \<Longrightarrow> m (norm q) = m' (norm q)"
  using lookup_rep [of h m q] lookup_rep [of h m' q] by simp

end

definition key_class_rep :: "int \<Rightarrow> 'd hash \<Rightarrow> (nat list \<times> i32 \<rightharpoonup> 'd) \<Rightarrow> bool" where
  "key_class_rep c H m \<longleftrightarrow> keyClass H = c \<and> represents H m"

lemma key_class_table:
  "key_class_rep c H m \<Longrightarrow> key_ok c k l \<Longrightarrow> hash_find H k l = Some (m (key_norm c k l))"
  "key_class_rep c H m \<Longrightarrow> key_ok c k l \<Longrightarrow> fresh al H \<Longrightarrow> \<not> alloc_fails al H \<Longrightarrow>
    \<exists>H'. hash_insert al H k l d = Some (m (key_norm c k l), H') \<and> key_class_rep c H' (m(key_norm c k l := d))"
  using hash_find_spec [of H m k l] hash_insert_spec [of H m k l al d] by (auto simp: key_class_rep_def)

text \<open>The tables of the machine have byte strings as keys, the schema tables have names.\<close>

interpretation binary: table "key_class_rep HASH_BINARY" "\<lambda>H (k, l). hash_find H k l" "\<lambda>al H (k, l). hash_insert al H k l"
  "\<lambda>(k, l). key_norm HASH_BINARY k l" "\<lambda>(k, l). key_ok HASH_BINARY k l" "\<lambda>al H. fresh al H \<and> \<not> alloc_fails al H"
  by unfold_locales (auto simp: key_class_table)

interpretation names: table "key_class_rep HASH_STRING" "\<lambda>H (k, l). hash_find H k l" "\<lambda>al H (k, l). hash_insert al H k l"
  "\<lambda>(k, l). key_norm HASH_STRING k l" "\<lambda>(k, l). key_ok HASH_STRING k l" "\<lambda>al H. fresh al H \<and> \<not> alloc_fails al H"
  by unfold_locales (auto simp: key_class_table)

section \<open>Properties\<close>

text \<open>C16: a hash table is a finite map.  Finding a key gives its data; inserting returns the data the
  key had, stores the new data, and with null data removes the key; all other keys keep theirs,
  through every resizing of the table.  When memory for a new key runs out the new data is
  returned and the table holds what it held.\<close>

theorem hash_refines_map:
  assumes "represents H m" "key_ok (keyClass H) key len" "fresh al H"
  shows "hash_find H key len = Some (m (key_norm (keyClass H) key len))
    \<and> (\<exists>r H'. hash_insert al H key len d = Some (r, H') \<and> keyClass H' = keyClass H
        \<and> (if d \<noteq> None \<and> m (key_norm (keyClass H) key len) = None \<and> alloc_fails al H
           then r = d \<and> represents H' m
           else r = m (key_norm (keyClass H) key len) \<and> represents H' (m(key_norm (keyClass H) key len := d))))"
  using hash_find_spec [OF assms(1,2)] hash_insert_spec [OF assms, of d] by blast

theorem hash_refines_map_witness:
  "\<exists>H H'. hash_init HASH_STRING True = Some H
    \<and> hash_insert \<lparr>a_elem = Some 7, a_key = True, a_table = True\<rparr> H [CHR ''a'', NUL] 2 (Some (5 :: nat)) = Some (None, H')
    \<and> represents H' [key_norm HASH_STRING [CHR ''A'', NUL] 2 \<mapsto> 5]"
proof -
  obtain H :: "nat hash" where H: "hash_init HASH_STRING True = Some H" "represents H Map.empty"
    "keyClass H = HASH_STRING" "heap H = Map.empty"
    using hash_init_spec [of HASH_STRING True] by (auto simp: hash_class_def)
  let ?al = "\<lparr>a_elem = Some 7, a_key = True, a_table = True\<rparr>"
  have k: "key_ok (keyClass H) [CHR ''a'', NUL] 2" using H(3) by (simp add: key_ok_def)
  have f: "fresh ?al H" "\<not> alloc_fails ?al H" using H(4) by (auto simp: fresh_def alloc_fails_def)
  have n: "key_norm HASH_STRING [CHR ''a'', NUL] 2 = key_norm HASH_STRING [CHR ''A'', NUL] 2"
    by (simp add: key_norm_def cstr_def lower_eq char_code_def)
  show ?thesis
    using hash_refines_map [OF H(2) k f(1), of "Some 5"] H(1,3) f(2) n by auto
qed

text \<open>C24: the two loops over a table end.  The traversal from \<^verbatim>\<open>__hash_first\<close> by \<^verbatim>\<open>__hash_next\<close> visits
  every element once, as many as the count says, one for every key; clearing frees every element
  once, leaves none allocated, and gives an empty table of the same kind.\<close>

theorem hash_loops_end:
  assumes "represents H m"
  shows "(\<exists>es. hash_walk (heap H) (hfirst H) = Some es \<and> distinct es \<and> set es = dom (heap H)
      \<and> hcount H = int (length es) \<and> bij_betw (\<lambda>a. fst (entry (keyClass H) (heap H) a)) (set es) (dom m))
    \<and> (\<exists>H'. hash_clear H = Some H' \<and> heap H' = Map.empty \<and> represents H' Map.empty \<and> keyClass H' = keyClass H)"
  using hash_walk_spec [OF assms] hash_clear_spec [OF assms] by blast

theorem hash_loops_end_witness:
  "\<exists>H H'. hash_init HASH_BINARY False = Some (H :: nat hash) \<and> hash_clear H = Some H' \<and> heap H' = Map.empty"
proof -
  obtain H :: "nat hash" where H: "hash_init HASH_BINARY False = Some H" "represents H Map.empty"
    using hash_init_spec [of HASH_BINARY False] by (auto simp: hash_class_def)
  then show ?thesis using hash_loops_end [OF H(2)] by blast
qed

end
