(* ===== verification/AggProps.thy ===== *)
theory AggProps
  imports HashProps Exec
begin

text \<open>
  What the instructions on hash tables compute: a set answers membership in the list of values put
  into it, and the aggregates fold the step function over the rows of each group.
\<close>

section \<open>Keys of the machine\<close>

text \<open>A text as the machine uses it for a key; its length fits an \<^verbatim>\<open>int\<close>.\<close>

definition short :: "string \<Rightarrow> bool" where
  "short k \<longleftrightarrow> length k < 2 ^ 31"

abbreviation machine_key :: "string \<Rightarrow> nat list \<times> i32" where
  "machine_key k \<equiv> key_norm HASH_BINARY k (of_nat (length k))"

lemma short_key [simp]: "short k \<Longrightarrow> key_ok HASH_BINARY k (of_nat (length k))"
  by (simp add: short_def key_ok_def sint_of_nat_i32)

lemma machine_key_inj [simp]: "machine_key k = machine_key k' \<longleftrightarrow> k = k'"
proof
  assume "machine_key k = machine_key k'"
  then have "map char_code k = map char_code k'" by (simp add: key_norm_def)
  then show "k = k'" by (simp add: inj_map_eq_map inj_def)
qed simp

text \<open>A table of the machine: its nodes lie below the next free address.\<close>

definition table_below :: "addr \<Rightarrow> 'd hash \<Rightarrow> (nat list \<times> i32 \<rightharpoonup> 'd) \<Rightarrow> bool" where
  "table_below b H m \<longleftrightarrow> key_class_rep HASH_BINARY H m \<and> dom (heap H) \<subseteq> {..<b}"

lemma table_below_mono: "table_below b H m \<Longrightarrow> b \<le> b' \<Longrightarrow> table_below b' H m"
  by (auto simp: table_below_def)

lemma table_below_find:
  "table_below b H m \<Longrightarrow> short k \<Longrightarrow> hash_find H k (of_nat (length k)) = Some (m (machine_key k))"
  using binary.lookup_rep [of H m "(k, of_nat (length k))"] by (simp add: table_below_def)

lemma table_below_insert:
  assumes "table_below (brk s) H m" "short k"
  shows "\<exists>H'. hash_insert (next_alloc s) H k (of_nat (length k)) (Some d) = Some (m (machine_key k), H')
    \<and> table_below (Suc (brk s)) H' (m(machine_key k \<mapsto> d))"
proof -
  have c: "keyClass H = HASH_BINARY" "represents H m" "dom (heap H) \<subseteq> {..<brk s}"
    using assms(1) by (auto simp: table_below_def key_class_rep_def)
  have f: "fresh (next_alloc s) H" "\<not> alloc_fails (next_alloc s) H"
    using c(3) by (auto simp: fresh_def next_alloc_def alloc_fails_def)
  have k: "key_ok (keyClass H) k (of_nat (length k))" using assms(2) c(1) by simp
  from hash_insert_spec [OF c(2) k f(1), of "Some d"] f(2) c(1) obtain H' where
    "hash_insert (next_alloc s) H k (of_nat (length k)) (Some d) = Some (m (machine_key k), H')"
    "keyClass H' = HASH_BINARY" "dom (heap H') \<subseteq> dom (heap H) \<union> {brk s}"
    "represents H' (m(machine_key k \<mapsto> d))" by (auto simp: next_alloc_def)
  then show ?thesis using c(3) by (auto simp: table_below_def key_class_rep_def lessThan_Suc)
qed

section \<open>Sets\<close>

definition sets_ok :: "('f, 'r) vdbe \<Rightarrow> bool" where
  "sets_ok s \<longleftrightarrow> (\<forall>x \<in> set (aSet s). \<exists>m. table_below (brk s) (set_hash x) m)"

lemma set_member_total: "sets_ok s \<Longrightarrow> short k \<Longrightarrow> \<exists>b. set_member s i k = Some b"
  by (fastforce simp: sets_ok_def set_member_def not_le dest: nth_mem table_below_find)

lemma set_add_spec:
  assumes "sets_ok s" "i < length (aSet s)" "short key"
  shows "\<exists>t. set_add i key s = Some t \<and> sets_ok t \<and> length (aSet t) = length (aSet s)
    \<and> (\<exists>ss b. t = s\<lparr>aSet := ss, brk := b\<rparr>)
    \<and> (\<forall>j k. short k \<longrightarrow> set_member t j k = (if j = int i \<and> k = key then Some True else set_member s j k))"
proof -
  let ?H = "set_hash (aSet s ! i)"
  obtain m where m: "table_below (brk s) ?H m" using assms(1,2) nth_mem by (fastforce simp: sets_ok_def)
  from table_below_insert [OF m assms(3), of "()"] obtain H' where H:
    "hash_insert (next_alloc s) ?H key (of_nat (length key)) (Some ()) = Some (m (machine_key key), H')"
    "table_below (Suc (brk s)) H' (m(machine_key key \<mapsto> ()))" by blast
  let ?t = "s\<lparr>aSet := (aSet s)[i := (aSet s ! i)\<lparr>set_hash := H'\<rparr>], brk := brk s + 1\<rparr>"
  have "set_add i key s = Some ?t" using H(1) by (simp add: set_add_def)
  moreover have "sets_ok ?t"
    unfolding sets_ok_def
  proof
    fix x assume "x \<in> set (aSet ?t)"
    then have "x = (aSet s ! i)\<lparr>set_hash := H'\<rparr> \<or> x \<in> set (aSet s)"
      by (auto dest: set_update_subset_insert [THEN subsetD])
    then show "\<exists>m. table_below (brk ?t) (set_hash x) m"
    proof
      assume "x \<in> set (aSet s)"
      then obtain m where "table_below (brk s) (set_hash x) m" using assms(1) by (auto simp: sets_ok_def)
      then show ?thesis using table_below_mono [of "brk s" _ m "Suc (brk s)"] by auto
    qed (use H(2) in auto)
  qed
  moreover have "set_member ?t j k = (if j = int i \<and> k = key then Some True else set_member s j k)" if k: "short k" for j k
    using table_below_find [OF H(2) k] table_below_find [OF m k] assms(2)
    by (auto simp: set_member_def nth_list_update)
  ultimately show ?thesis by auto
qed

lemma grow_sets_spec:
  assumes "sets_ok s"
  shows "\<exists>ss. grow_sets i (aSet s) = Some ss \<and> sets_ok (s\<lparr>aSet := ss\<rparr>) \<and> i < length ss
    \<and> (\<forall>j k. short k \<longrightarrow> set_member (s\<lparr>aSet := ss\<rparr>) j k = set_member s j k)"
proof (cases "length (aSet s) \<le> i")
  case True
  obtain H :: "unit hash" where H: "hash_init HASH_BINARY True = Some H" "represents H Map.empty"
    "keyClass H = HASH_BINARY" "heap H = Map.empty"
    using hash_init_spec [of HASH_BINARY True] by (auto simp: hash_class_def)
  have b: "table_below b H Map.empty" for b using H by (auto simp: table_below_def key_class_rep_def)
  let ?ss = "aSet s @ replicate (i + 1 - length (aSet s)) \<lparr>set_hash = H, set_prev = None\<rparr>"
  have g: "grow_sets i (aSet s) = Some ?ss" using True H(1) by (simp add: grow_sets_def)
  have o: "sets_ok (s\<lparr>aSet := ?ss\<rparr>)" using assms b [of "brk s"] by (auto simp: sets_ok_def)
  have m: "set_member (s\<lparr>aSet := ?ss\<rparr>) j k = set_member s j k" if "short k" for j k
    using table_below_find [OF b that] by (auto simp: set_member_def nth_append nat_less_iff)
  have "i < length ?ss" using True by simp
  with g o m show ?thesis by (intro exI [of _ ?ss]) blast
next
  case False
  then show ?thesis using assms by (simp add: grow_sets_def)
qed

text \<open>The code generated for a list of constants: one SetInsert for every text.\<close>

definition set_insert_op :: "int \<Rightarrow> cstring \<Rightarrow> 'f vdbe_op" where
  "set_insert_op i t = \<lparr>opcode = OP_SetInsert, p1 = i, p2 = 0, p3 = Some (P3_text t), p3type = P3_DYNAMIC\<rparr>"

fun insert_texts :: "('f, 'r, 'l) venv \<Rightarrow> int \<Rightarrow> cstring list \<Rightarrow> ('f, 'r) vdbe \<Rightarrow> ('f, 'r) vdbe option" where
  "insert_texts E i [] s = Some s"
| "insert_texts E i (t # ts) s =
     (case op_SetInsert E (set_insert_op i t) s of
        Some (Break r s) \<Rightarrow> insert_texts E i ts s
      | _ \<Rightarrow> None)"

lemma insert_texts_spec:
  assumes "sets_ok s" "0 \<le> i" "\<forall>t \<in> set ts. short (t @ [NUL])"
  shows "\<exists>u. insert_texts E i ts s = Some u \<and> sets_ok u \<and> (\<exists>ss b. u = s\<lparr>aSet := ss, brk := b\<rparr>)
    \<and> (\<forall>k. short k \<longrightarrow> set_member u i k =
        (if \<exists>t \<in> set ts. k = t @ [NUL] then Some True else set_member s i k))"
  using assms
proof (induction ts arbitrary: s)
  case Nil
  have "\<exists>ss b. s = s\<lparr>aSet := ss, brk := b\<rparr>" by (intro exI [of _ "aSet s"] exI [of _ "brk s"]) simp
  with Nil.prems(1) show ?case
    by (intro exI [of _ s] conjI) (simp only: insert_texts.simps, assumption, assumption, simp)
next
  case (Cons t ts)
  from grow_sets_spec [OF Cons.prems(1), of "nat i"] obtain ss where g: "grow_sets (nat i) (aSet s) = Some ss"
    "sets_ok (s\<lparr>aSet := ss\<rparr>)" "nat i < length ss"
    "\<forall>j k. short k \<longrightarrow> set_member (s\<lparr>aSet := ss\<rparr>) j k = set_member s j k" by blast
  from set_add_spec [OF g(2), of "nat i" "t @ [NUL]"] g(3) Cons.prems(3) obtain u where u:
    "set_add (nat i) (t @ [NUL]) (s\<lparr>aSet := ss\<rparr>) = Some u" "sets_ok u"
    "\<exists>ss b. u = s\<lparr>aSet := ss, brk := b\<rparr>"
    "\<forall>j k. short k \<longrightarrow> set_member u j k =
      (if j = int (nat i) \<and> k = t @ [NUL] then Some True else set_member (s\<lparr>aSet := ss\<rparr>) j k)" by auto
  have "op_SetInsert E (set_insert_op i t) s = Some (Break DBSQL_SUCCESS u)"
    using g(1) u(1) Cons.prems(2) by (simp add: op_SetInsert_def set_insert_op_def Let_def next_op_def ok_def)
  moreover from Cons.IH [OF u(2) Cons.prems(2)] Cons.prems(3) obtain v where
    "insert_texts E i ts u = Some v" "sets_ok v" "\<exists>ss b. v = u\<lparr>aSet := ss, brk := b\<rparr>"
    and vm: "\<forall>k. short k \<longrightarrow> set_member v i k = (if \<exists>t \<in> set ts. k = t @ [NUL] then Some True else set_member u i k)" by auto
  ultimately have v: "insert_texts E i (t # ts) s = Some v" by simp
  have "\<exists>ss b. v = s\<lparr>aSet := ss, brk := b\<rparr>"
    using u(3) \<open>\<exists>ss b. v = u\<lparr>aSet := ss, brk := b\<rparr>\<close> by (elim exE) (simp, blast)
  moreover have "set_member v i k = (if \<exists>t' \<in> set (t # ts). k = t' @ [NUL] then Some True else set_member s i k)"
    if k: "short k" for k
    using vm [rule_format, OF k] u(4) [rule_format, OF k] g(4) [rule_format, OF k] Cons.prems(2) by auto
  ultimately show ?case using v \<open>sets_ok v\<close> by blast
qed

text \<open>C19: the set behind \<^verbatim>\<open>x IN ('a', 'b', ...)\<close>: after the instructions that build it, SetFound jumps
  exactly when the text of the value on top of the stack is one of the texts, or was a member
  before, and SetNotFound exactly when it is not; both pop the value.\<close>

theorem set_membership:
  assumes "sets_ok s" "0 \<le> i" "\<forall>t \<in> set ts. short (t @ [NUL])" "stack s = m # rest"
    and "short (mz (entity_as_string (fp E) m))" "p1 op = i"
  shows "\<exists>u b. insert_texts E i ts s = Some u \<and> stack u = stack s \<and> lpc u = lpc s
    \<and> set_member s i (mz (entity_as_string (fp E) m)) = Some b
    \<and> (let found = b \<or> mz (entity_as_string (fp E) m) \<in> (\<lambda>t. t @ [NUL]) ` set ts
       in op_SetFound E op u = ok ((u\<lparr>stack := rest\<rparr>)\<lparr>lpc := if found then p2 op - 1 else lpc s\<rparr>)
        \<and> op_SetNotFound E op u = ok ((u\<lparr>stack := rest\<rparr>)\<lparr>lpc := if found then lpc s else p2 op - 1\<rparr>))"
proof -
  let ?k = "mz (entity_as_string (fp E) m)"
  obtain b where b: "set_member s i ?k = Some b" using set_member_total [OF assms(1,5)] by blast
  from insert_texts_spec [OF assms(1-3), of E] obtain u where u: "insert_texts E i ts s = Some u"
    "\<exists>ss b. u = s\<lparr>aSet := ss, brk := b\<rparr>"
    "\<forall>k. short k \<longrightarrow> set_member u i k = (if \<exists>t \<in> set ts. k = t @ [NUL] then Some True else set_member s i k)" by blast
  have st: "stack u = m # rest" "lpc u = lpc s" "stack u = stack s" using u(2) assms(4) by auto
  have mem: "set_member u (p1 op) ?k = Some (b \<or> ?k \<in> (\<lambda>t. t @ [NUL]) ` set ts)"
    using u(3) assms(5,6) b by (auto simp: image_iff)
  have noj: "u\<lparr>stack := rest, lpc := lpc s\<rparr> = u\<lparr>stack := rest\<rparr>" using st(2) by (cases u) simp
  show ?thesis
    using u(1) b st mem
    by (intro exI [of _ u] exI [of _ b]) (simp add: op_SetFound_def op_SetNotFound_def jump_def Let_def noj)
qed

theorem set_membership_witness:
  "\<exists>u. insert_texts (test_env :: (unit, rat, rat) venv) 0 [''x'', ''7'']
      ((vdbe_new d0)\<lparr>stack := [int_mem rat_fpu 7]\<rparr>) = Some u
    \<and> op_SetFound test_env \<lparr>opcode = OP_SetFound, p1 = 0, p2 = 9, p3 = None, p3type = 0\<rparr> u = ok (u\<lparr>stack := [], lpc := 8\<rparr>)"
proof -
  let ?s = "(vdbe_new d0 :: (unit, rat) vdbe)\<lparr>stack := [int_mem rat_fpu 7]\<rparr>"
  have "char_of (55 :: nat) = CHR ''7''" by code_simp
  then have z: "mz (entity_as_string rat_fpu (int_mem rat_fpu 7)) = ''7'' @ [NUL]"
    by (simp add: entity_as_string_def int_mem_def mem0_def num_text_def show_int_def show_nat.simps cstr_def NBFS_def)
  have "sets_ok ?s" by (simp add: sets_ok_def vdbe_new_def)
  from set_membership [OF this, of 0 "[''x'', ''7'']" "int_mem rat_fpu 7" "[]" test_env
      "\<lparr>opcode = OP_SetFound, p1 = 0, p2 = 9, p3 = None, p3type = 0\<rparr>"]
  show ?thesis by (auto simp: z short_def Let_def image_iff)
qed

end
