(* ===== verification/AggFold.thy ===== *)
theory AggFold
  imports AggProps
begin

text \<open>
  GROUP BY on the aggregates of the machine: the rows a query feeds into them, the fold each group
  holds afterwards, and the loop that reads the groups back.
\<close>

section \<open>The table of groups\<close>

definition group_keys :: "('f, 'r) vdbe \<Rightarrow> string list" where
  "group_keys s = map agg_key (agg_elems (agg s))"

text \<open>The key of every element leads to its place, and every element has all cells.\<close>

definition groups_map :: "('f, 'r) vdbe \<Rightarrow> (nat list \<times> i32 \<rightharpoonup> nat) \<Rightarrow> bool" where
  "groups_map s m \<longleftrightarrow> table_below (brk s) (agg_hash (agg s)) m \<and> dom m = machine_key ` set (group_keys s)
     \<and> (\<forall>i < length (group_keys s). m (machine_key (group_keys s ! i)) = Some i)"

definition groups_ok :: "('f, 'r) vdbe \<Rightarrow> bool" where
  "groups_ok s \<longleftrightarrow> (\<exists>m. groups_map s m) \<and> length (apFunc (agg s)) = nat (agg_nMem (agg s))
     \<and> (\<forall>x \<in> set (agg_elems (agg s)). length (agg_mem x) = nat (agg_nMem (agg s)))"

text \<open>The count and the context of an aggregate function in a cell.\<close>

definition tally :: "'r mem \<Rightarrow> i32 \<times> string" where
  "tally m = (mi m, mz m)"

definition cell_tally :: "('f, 'r) vdbe \<Rightarrow> string \<Rightarrow> nat \<Rightarrow> i32 \<times> string" where
  "cell_tally s k c =
     (case find (\<lambda>x. agg_key x = k) (agg_elems (agg s)) of
        None \<Rightarrow> (0, []) | Some x \<Rightarrow> tally (agg_mem x ! c))"

lemma groups_stack [simp]:
  "groups_ok (s\<lparr>stack := st\<rparr>) = groups_ok s" "group_keys (s\<lparr>stack := st\<rparr>) = group_keys s"
  "cell_tally (s\<lparr>stack := st\<rparr>) k c = cell_tally s k c"
  by (simp_all add: groups_ok_def groups_map_def group_keys_def cell_tally_def)

lemma find_nth:
  "distinct (map f xs) \<Longrightarrow> i < length xs \<Longrightarrow> find (\<lambda>x. f x = f (xs ! i)) xs = Some (xs ! i)"
  by (induction xs arbitrary: i) (auto simp: nth_Cons' split: if_splits)

lemma groups_distinct: "groups_map s m \<Longrightarrow> distinct (group_keys s)"
  unfolding groups_map_def distinct_conv_nth by (metis option.inject)

lemma cell_tally_nth:
  "groups_ok s \<Longrightarrow> i < length (agg_elems (agg s)) \<Longrightarrow>
    cell_tally s (agg_key (agg_elems (agg s) ! i)) c = tally (agg_mem (agg_elems (agg s) ! i) ! c)"
  using groups_distinct [of s] find_nth [of agg_key "agg_elems (agg s)" i]
  by (auto simp: groups_ok_def cell_tally_def group_keys_def)

lemma cell_tally_absent: "k \<notin> set (group_keys s) \<Longrightarrow> cell_tally s k c = (0, [])"
  using find_None_iff [of "\<lambda>x. agg_key x = k" "agg_elems (agg s)"] by (auto simp: cell_tally_def group_keys_def)

lemma groups_find:
  assumes "groups_ok s" "short k"
  obtains (old) i where "hash_find (agg_hash (agg s)) k (of_nat (length k)) = Some (Some i)"
      "i < length (agg_elems (agg s))" "agg_key (agg_elems (agg s) ! i) = k"
  | (new) "hash_find (agg_hash (agg s)) k (of_nat (length k)) = Some None" "k \<notin> set (group_keys s)"
proof -
  from assms(1) obtain m where m: "groups_map s m" by (auto simp: groups_ok_def)
  then have f: "hash_find (agg_hash (agg s)) k (of_nat (length k)) = Some (m (machine_key k))"
    using assms(2) table_below_find by (auto simp: groups_map_def)
  show ?thesis
  proof (cases "k \<in> set (group_keys s)")
    case True
    then obtain i where i: "i < length (group_keys s)" "group_keys s ! i = k" by (auto simp: in_set_conv_nth)
    then have "m (machine_key k) = Some i" using m by (auto simp: groups_map_def)
    then show ?thesis using old i f by (simp add: group_keys_def)
  next
    case False
    then have "machine_key k \<notin> dom m" using m by (auto simp: groups_map_def)
    then show ?thesis using new False f by (simp add: domIff)
  qed
qed

section \<open>One row\<close>

text \<open>AggFocus makes the group of the key current, a new one with null cells when there is none.\<close>

lemma agg_insert_spec:
  assumes "groups_ok s" "short k" "k \<notin> set (group_keys s)"
  shows "\<exists>t. agg_insert E k s = Some t \<and> groups_ok t \<and> (\<exists>A b. t = s\<lparr>agg := A, brk := b\<rparr>)
    \<and> pCurrent (agg t) = Some (length (agg_elems (agg s)))
    \<and> agg_elems (agg t) = agg_elems (agg s) @
        [\<lparr>agg_key = k, agg_mem = replicate (nat (agg_nMem (agg s))) (null_cell (fp E))\<rparr>]
    \<and> agg_nMem (agg t) = agg_nMem (agg s) \<and> pSearch (agg t) = pSearch (agg s) \<and> apFunc (agg t) = apFunc (agg s)"
proof -
  let ?n = "length (agg_elems (agg s))" and ?A = "agg s"
  let ?e = "\<lparr>agg_key = k, agg_mem = replicate (nat (agg_nMem ?A)) (null_cell (fp E))\<rparr>"
  from assms(1) obtain m where m: "groups_map s m" by (auto simp: groups_ok_def)
  then have "machine_key k \<notin> dom m" using assms(3) by (auto simp: groups_map_def)
  then have none: "m (machine_key k) = None" by (simp add: domIff)
  from m have b: "table_below (brk s) (agg_hash ?A) m" by (simp add: groups_map_def)
  from table_below_insert [OF b assms(2), of ?n] none obtain H where H:
    "hash_insert (next_alloc s) (agg_hash ?A) k (of_nat (length k)) (Some ?n) = Some (None, H)"
    "table_below (Suc (brk s)) H (m(machine_key k \<mapsto> ?n))" by auto
  let ?t = "s\<lparr>agg := ?A\<lparr>agg_hash := H, agg_elems := agg_elems ?A @ [?e], pCurrent := Some ?n\<rparr>, brk := brk s + 1\<rparr>"
  have "agg_insert E k s = Some ?t" using H(1) by (simp add: agg_insert_def Let_def)
  moreover have "groups_map ?t (m(machine_key k \<mapsto> ?n))"
    using m H(2) assms(3) nth_mem [of _ "group_keys s"]
    by (auto simp: groups_map_def group_keys_def nth_append less_Suc_eq)
  then have "groups_ok ?t" using assms(1) unfolding groups_ok_def by auto
  ultimately show ?thesis by (intro exI [of _ ?t]) auto
qed

lemma null_cell_tally [simp]: "tally (null_cell F) = (0, [])"
  by (simp add: tally_def null_cell_def mem0_def)

definition key_of :: "('f, 'r, 'l) venv \<Rightarrow> 'r mem \<Rightarrow> string" where
  "key_of E m = mz (entity_as_string (fp E) m)"

definition add_key :: "string list \<Rightarrow> string \<Rightarrow> string list" where
  "add_key ks k = (if k \<in> set ks then ks else ks @ [k])"

text \<open>The parts of a state an aggregation does not touch.\<close>

definition same_frame :: "('f, 'r) vdbe \<Rightarrow> ('f, 'r) vdbe \<Rightarrow> bool" where
  "same_frame s t \<longleftrightarrow> agg_nMem (agg t) = agg_nMem (agg s) \<and> pSearch (agg t) = pSearch (agg s)
     \<and> apFunc (agg t) = apFunc (agg s) \<and> (\<exists>A b l st. t = s\<lparr>agg := A, brk := b, lpc := l, stack := st\<rparr>)"

lemma same_frame_refl: "same_frame s s"
  unfolding same_frame_def
  by (intro conjI exI [of _ "agg s"] exI [of _ "brk s"] exI [of _ "lpc s"] exI [of _ "stack s"]) simp_all

lemma same_frame_trans: "same_frame s t \<Longrightarrow> same_frame t u \<Longrightarrow> same_frame s u"
  unfolding same_frame_def by (elim exE conjE) (simp, blast)

lemma same_frame_stack: "same_frame s t \<Longrightarrow> same_frame s (t\<lparr>stack := st\<rparr>)" "same_frame (s\<lparr>stack := st\<rparr>) t \<Longrightarrow> same_frame s t"
  unfolding same_frame_def by (elim exE conjE, simp, blast)+

text \<open>The instruction takes a group that is there without changing it, and jumps over the code that
  fills a new one.\<close>

lemma AggFocus_spec:
  assumes "groups_ok s" "short (key_of E km)" "stack s = km # rest"
  shows "\<exists>t. op_AggFocus E op s = ok t \<and> groups_ok t \<and> stack t = rest \<and> same_frame s t
    \<and> (\<exists>i < length (agg_elems (agg t)). pCurrent (agg t) = Some i \<and> agg_key (agg_elems (agg t) ! i) = key_of E km)
    \<and> group_keys t = add_key (group_keys s) (key_of E km)
    \<and> (\<forall>k c. c < nat (agg_nMem (agg s)) \<longrightarrow> cell_tally t k c = cell_tally s k c)
    \<and> lpc t = (if key_of E km \<in> set (group_keys s) then p2 op - 1 else lpc s)"
  using assms(1,2)
proof (cases rule: groups_find)
  case (old i)
  let ?t = "jump op (s\<lparr>agg := (agg s)\<lparr>pCurrent := Some i\<rparr>, stack := rest\<rparr>)"
  have k: "key_of E km \<in> set (group_keys s)" using nth_mem [OF old(2)] by (simp add: group_keys_def flip: old(3))
  have "op_AggFocus E op s = ok ?t" using old(1) assms(3) by (simp add: op_AggFocus_def key_of_def Let_def)
  moreover have "groups_ok ?t"
    using assms(1) by (auto simp: groups_ok_def groups_map_def group_keys_def jump_def)
  moreover have "same_frame s ?t"
    unfolding same_frame_def jump_def
    by (intro conjI exI [of _ "(agg s)\<lparr>pCurrent := Some i\<rparr>"] exI [of _ "brk s"] exI [of _ "p2 op - 1"] exI [of _ rest])
      (cases s; simp)+
  ultimately show ?thesis
    using old k by (intro exI [of _ ?t]) (simp add: jump_def group_keys_def cell_tally_def add_key_def)
next
  case new
  from agg_insert_spec [OF assms(1,2) new(2), of E] obtain u A b where u:
    "agg_insert E (key_of E km) s = Some u" "groups_ok u" "u = s\<lparr>agg := A, brk := b\<rparr>"
    "pCurrent (agg u) = Some (length (agg_elems (agg s)))"
    "agg_elems (agg u) = agg_elems (agg s) @
      [\<lparr>agg_key = key_of E km, agg_mem = replicate (nat (agg_nMem (agg s))) (null_cell (fp E))\<rparr>]"
    "agg_nMem (agg u) = agg_nMem (agg s)" "pSearch (agg u) = pSearch (agg s)" "apFunc (agg u) = apFunc (agg s)" by blast
  let ?t = "u\<lparr>stack := rest\<rparr>"
  have "op_AggFocus E op s = ok ?t"
    using new(1) u(1) assms(3) by (simp add: op_AggFocus_def key_of_def Let_def)
  moreover have "groups_ok ?t" using u(2) by (auto simp: groups_ok_def groups_map_def group_keys_def)
  moreover have "same_frame s ?t"
    using u(3,6-8) unfolding same_frame_def
    by (intro conjI exI [of _ A] exI [of _ b] exI [of _ "lpc s"] exI [of _ rest]) (cases s; simp)+
  moreover have "group_keys ?t = add_key (group_keys s) (key_of E km)"
    using u(5) new(2) by (simp add: group_keys_def add_key_def)
  moreover have "cell_tally ?t k c = cell_tally s k c" if "c < nat (agg_nMem (agg s))" for k c
    using u(5) that by (simp add: cell_tally_def find_append split: option.split)
  moreover have "lpc ?t = lpc s" using u(3) by simp
  ultimately show ?thesis using u(4,5) new(2) by (intro exI [of _ ?t]) simp
qed

text \<open>AggFunc calls the step function on one cell of the current group.\<close>

definition args_of :: "('f, 'r, 'l) venv \<Rightarrow> 'r mem list \<Rightarrow> cstring option list" where
  "args_of E az = map arg_of (map (stringify (fp E)) az)"

definition agg_step :: "('f, 'r, 'l) venv \<Rightarrow> i32 \<times> string \<Rightarrow> 'f \<times> cstring option list \<Rightarrow> i32 \<times> string" where
  "agg_step E x q = (case x of (n, ctx) \<Rightarrow> case q of (f, az) \<Rightarrow> (n + 1, fst (xStep E f (n + 1) ctx az)))"

definition agg_func_op :: "'f \<Rightarrow> 'r mem list \<Rightarrow> 'f vdbe_op" where
  "agg_func_op f az = \<lparr>opcode = OP_AggFunc, p1 = 0, p2 = int (length az), p3 = Some (P3_object f), p3type = P3_POINTER\<rparr>"

lemma find_update:
  assumes "distinct (map f xs)" "i < length xs" "f y = f (xs ! i)"
  shows "find (\<lambda>x. f x = k) (xs[i := y]) = (if f y = k then Some y else find (\<lambda>x. f x = k) xs)"
  using assms
proof (induction xs arbitrary: i)
  case (Cons a xs)
  show ?case
  proof (cases i)
    case (Suc j)
    then have "f a \<noteq> f y" using Cons.prems nth_mem [of j xs] by auto
    then show ?thesis using Cons.IH [of j] Cons.prems Suc by auto
  qed (use Cons.prems in simp)
qed simp

lemma set_cell_spec:
  assumes "groups_ok s" "i < length (agg_elems (agg s))" "0 \<le> c" "nat c < nat (agg_nMem (agg s))"
  shows "groups_ok (set_cell i c m s)" "group_keys (set_cell i c m s) = group_keys s"
    "cell_tally (set_cell i c m s) k d =
      (if k = agg_key (agg_elems (agg s) ! i) \<and> d = nat c then tally m else cell_tally s k d)"
    "same_frame s (set_cell i c m s)"
proof -
  let ?es = "agg_elems (agg s)"
  let ?x = "(?es ! i)\<lparr>agg_mem := (agg_mem (?es ! i))[nat c := m]\<rparr>"
  let ?A = "(agg s)\<lparr>agg_elems := ?es[i := ?x]\<rparr>"
  have e: "set_cell i c m s = s\<lparr>agg := ?A\<rparr>" by (simp add: set_cell_def Let_def)
  show g: "group_keys (set_cell i c m s) = group_keys s"
    using assms(2) by (simp add: e group_keys_def map_update list_update_same_conv)
  show "groups_ok (set_cell i c m s)"
    using assms(1,2) g
    by (auto simp: groups_ok_def groups_map_def e dest!: set_update_subset_insert [THEN subsetD])
  have len: "length (agg_mem (?es ! i)) = nat (agg_nMem (agg s))" using assms(1,2) by (simp add: groups_ok_def)
  have d: "distinct (map agg_key ?es)" using assms(1) groups_distinct by (auto simp: groups_ok_def group_keys_def)
  show "cell_tally (set_cell i c m s) k d =
      (if k = agg_key (?es ! i) \<and> d = nat c then tally m else cell_tally s k d)"
    using find_update [OF d assms(2), of ?x k] find_nth [OF d assms(2)] assms(3,4) len
    by (auto simp: e cell_tally_def)
  show "same_frame s (set_cell i c m s)"
    unfolding same_frame_def e
    by (intro conjI exI [of _ ?A] exI [of _ "brk s"] exI [of _ "lpc s"] exI [of _ "stack s"]) (cases s; simp)+
qed

lemma AggFunc_spec:
  assumes "groups_ok s" "pCurrent (agg s) = Some i" "i < length (agg_elems (agg s))"
    and "stack s = int_mem (fp E) (of_nat c) # rev az @ rest" "c < nat (agg_nMem (agg s))" "agg_nMem (agg s) < 2 ^ 31"
    and "\<forall>n ctx as. \<not> snd (xStep E f n ctx as)"
  defines "k \<equiv> agg_key (agg_elems (agg s) ! i)"
  shows "\<exists>t. op_AggFunc E (agg_func_op f az) s = ok t \<and> groups_ok t \<and> stack t = rest \<and> same_frame s t
    \<and> pCurrent (agg t) = Some i \<and> group_keys t = group_keys s
    \<and> (\<forall>k' d. cell_tally t k' d =
         (if k' = k \<and> d = c then agg_step E (cell_tally s k c) (f, args_of E az) else cell_tally s k' d))"
proof -
  have c: "sint (mi (int_mem (fp E) (of_nat c))) = int c"
    using assms(5,6) by (simp add: int_mem_def sint_of_nat_i32)
  let ?m = "agg_mem (agg_elems (agg s) ! i) ! c"
  let ?x = "xStep E f (mi ?m + 1) (mz ?m) (args_of E az)"
  let ?m' = "?m\<lparr>mi := mi ?m + 1, mz := fst ?x, mflags := {MEM_AggCtx}\<rparr>"
  let ?t = "(set_cell i (int c) ?m' s)\<lparr>stack := rest\<rparr>"
  have m: "agg_cell s i (int c) = Some ?m"
    using assms(1,3,5) by (auto simp: agg_cell_def groups_ok_def)
  have "op_AggFunc E (agg_func_op f az) s = ok ?t"
    using assms(2,4,7) c m
    by (simp add: op_AggFunc_def agg_func_op_def args_of_def int_mem_def check_def Let_def ok_def split_def)
  moreover note S = set_cell_spec [OF assms(1,3), of "int c" ?m']
  have "cell_tally ?t k' d =
      (if k' = k \<and> d = c then agg_step E (cell_tally s k c) (f, args_of E az) else cell_tally s k' d)" for k' d
    using S(3) [of k' d] assms(5) cell_tally_nth [OF assms(1,3), of c]
    by (auto simp: k_def tally_def agg_step_def)
  moreover have "groups_ok ?t" "group_keys ?t = group_keys s" using S(1,2) assms(5) by auto
  moreover have "same_frame s ?t" using S(4) assms(5) same_frame_stack(1) by auto
  moreover have "pCurrent (agg ?t) = Some i" using assms(2) by (simp add: set_cell_def Let_def)
  ultimately show ?thesis by (intro exI [of _ ?t]) simp
qed

section \<open>All rows\<close>

text \<open>The calls of one row, each with the cell, the function and the arguments, and the rows of a
  query, each with the value of its key.  An error of a step function ends the query.\<close>

fun agg_calls :: "('f, 'r, 'l) venv \<Rightarrow> (nat \<times> 'f \<times> 'r mem list) list \<Rightarrow> ('f, 'r) vdbe \<Rightarrow> ('f, 'r) vdbe option" where
  "agg_calls E [] s = Some s"
| "agg_calls E ((c, f, az) # calls) s =
     (case op_AggFunc E (agg_func_op f az) (s\<lparr>stack := int_mem (fp E) (of_nat c) # rev az @ stack s\<rparr>) of
        Some (Break r s) \<Rightarrow> if r = DBSQL_SUCCESS then agg_calls E calls s else None
      | _ \<Rightarrow> None)"

fun agg_rows :: "('f, 'r, 'l) venv \<Rightarrow> 'f vdbe_op \<Rightarrow> ('r mem \<times> (nat \<times> 'f \<times> 'r mem list) list) list
    \<Rightarrow> ('f, 'r) vdbe \<Rightarrow> ('f, 'r) vdbe option" where
  "agg_rows E op [] s = Some s"
| "agg_rows E op ((km, calls) # qs) s =
     (case op_AggFocus E op (s\<lparr>stack := km # stack s\<rparr>) of
        Some (Break r s) \<Rightarrow> do { s \<leftarrow> agg_calls E calls s; agg_rows E op qs s }
      | _ \<Rightarrow> None)"

definition cell_calls :: "('f, 'r, 'l) venv \<Rightarrow> nat \<Rightarrow> (nat \<times> 'f \<times> 'r mem list) list \<Rightarrow> ('f \<times> cstring option list) list" where
  "cell_calls E c calls = [(f, args_of E az). (c', f, az) \<leftarrow> calls, c' = c]"

definition group_calls :: "('f, 'r, 'l) venv \<Rightarrow> string \<Rightarrow> nat \<Rightarrow> ('r mem \<times> (nat \<times> 'f \<times> 'r mem list) list) list
    \<Rightarrow> ('f \<times> cstring option list) list" where
  "group_calls E k c qs = concat [cell_calls E c calls. (km, calls) \<leftarrow> qs, key_of E km = k]"

definition good_calls :: "('f, 'r, 'l) venv \<Rightarrow> int \<Rightarrow> (nat \<times> 'f \<times> 'r mem list) list \<Rightarrow> bool" where
  "good_calls E n calls \<longleftrightarrow> (\<forall>(c, f, az) \<in> set calls. c < nat n \<and> (\<forall>i ctx as. \<not> snd (xStep E f i ctx as)))"

lemma agg_calls_spec:
  assumes "groups_ok s" "pCurrent (agg s) = Some i" "i < length (agg_elems (agg s))"
    and "agg_nMem (agg s) < 2 ^ 31" "good_calls E (agg_nMem (agg s)) calls" "agg_key (agg_elems (agg s) ! i) = k"
  shows "\<exists>t. agg_calls E calls s = Some t \<and> groups_ok t \<and> stack t = stack s \<and> same_frame s t
    \<and> group_keys t = group_keys s
    \<and> (\<forall>k' c. cell_tally t k' c =
         (if k' = k then foldl (agg_step E) (cell_tally s k c) (cell_calls E c calls) else cell_tally s k' c))"
  using assms
proof (induction calls arbitrary: s)
  case Nil
  then show ?case by (intro exI [of _ s]) (simp add: same_frame_refl cell_calls_def)
next
  case (Cons q calls)
  obtain c f az where q: "q = (c, f, az)" by (cases q)
  let ?s = "s\<lparr>stack := int_mem (fp E) (of_nat c) # rev az @ stack s\<rparr>"
  have o: "groups_ok ?s" using Cons.prems(1) by simp
  from AggFunc_spec [OF o, of i E c az "stack s" f] Cons.prems q obtain u where u:
    "op_AggFunc E (agg_func_op f az) ?s = ok u" "groups_ok u" "stack u = stack s" "same_frame ?s u"
    "pCurrent (agg u) = Some i" "group_keys u = group_keys s"
    "\<forall>k' d. cell_tally u k' d =
         (if k' = k \<and> d = c then agg_step E (cell_tally s k c) (f, args_of E az) else cell_tally s k' d)"
    by (auto simp: good_calls_def)
  have l: "i < length (agg_elems (agg u))" "agg_key (agg_elems (agg u) ! i) = k"
    using u(6) Cons.prems(3,6) by (metis group_keys_def length_map, metis group_keys_def length_map nth_map)
  have n: "agg_nMem (agg u) = agg_nMem (agg s)" using u(4) by (simp add: same_frame_def)
  from Cons.IH [OF u(2,5) l(1) _ _ l(2)] n Cons.prems(4,5) obtain t where t:
    "agg_calls E calls u = Some t" "groups_ok t" "stack t = stack u" "same_frame u t" "group_keys t = group_keys u"
    "\<forall>k' c. cell_tally t k' c =
       (if k' = k then foldl (agg_step E) (cell_tally u k c) (cell_calls E c calls) else cell_tally u k' c)"
    by (auto simp: good_calls_def)
  have "same_frame s t" using u(4) t(4) same_frame_stack(2) same_frame_trans by blast
  then show ?case using t u(1,3,6,7) q by (intro exI [of _ t]) (simp add: ok_def cell_calls_def)
qed

lemma agg_rows_spec:
  assumes "groups_ok s" "agg_nMem (agg s) < 2 ^ 31"
    and "\<forall>(km, calls) \<in> set qs. short (key_of E km) \<and> good_calls E (agg_nMem (agg s)) calls"
  shows "\<exists>t. agg_rows E op qs s = Some t \<and> groups_ok t \<and> stack t = stack s \<and> same_frame s t
    \<and> group_keys t = foldl add_key (group_keys s) (map (\<lambda>q. key_of E (fst q)) qs)
    \<and> (\<forall>k c. c < nat (agg_nMem (agg s)) \<longrightarrow>
         cell_tally t k c = foldl (agg_step E) (cell_tally s k c) (group_calls E k c qs))"
  using assms
proof (induction qs arbitrary: s)
  case Nil
  then show ?case by (intro exI [of _ s]) (simp add: same_frame_refl group_calls_def)
next
  case (Cons q qs)
  obtain km calls where q: "q = (km, calls)" by (cases q)
  let ?s = "s\<lparr>stack := km # stack s\<rparr>"
  from AggFocus_spec [of ?s E km "stack s" op] Cons.prems(1,3) q obtain u i where u:
    "op_AggFocus E op ?s = ok u" "groups_ok u" "stack u = stack s" "same_frame ?s u"
    "i < length (agg_elems (agg u))" "pCurrent (agg u) = Some i" "agg_key (agg_elems (agg u) ! i) = key_of E km"
    "group_keys u = add_key (group_keys s) (key_of E km)"
    "\<forall>k c. c < nat (agg_nMem (agg s)) \<longrightarrow> cell_tally u k c = cell_tally s k c" by auto
  have n: "agg_nMem (agg u) = agg_nMem (agg s)" using u(4) by (simp add: same_frame_def)
  from agg_calls_spec [OF u(2,6,5) _ _ u(7), of E calls] n Cons.prems(2,3) q obtain v where v:
    "agg_calls E calls u = Some v" "groups_ok v" "stack v = stack u" "same_frame u v" "group_keys v = group_keys u"
    "\<forall>k' c. cell_tally v k' c =
       (if k' = key_of E km then foldl (agg_step E) (cell_tally u k' c) (cell_calls E c calls) else cell_tally u k' c)"
    by auto
  have n': "agg_nMem (agg v) = agg_nMem (agg s)" using v(4) n by (simp add: same_frame_def)
  from Cons.IH [OF v(2)] n' Cons.prems(2,3) obtain t where t:
    "agg_rows E op qs v = Some t" "groups_ok t" "stack t = stack v" "same_frame v t"
    "group_keys t = foldl add_key (group_keys v) (map (\<lambda>q. key_of E (fst q)) qs)"
    "\<forall>k c. c < nat (agg_nMem (agg s)) \<longrightarrow>
       cell_tally t k c = foldl (agg_step E) (cell_tally v k c) (group_calls E k c qs)" by auto
  have "same_frame s t" using u(4) v(4) t(4) same_frame_stack(2) same_frame_trans by blast
  then show ?case
    using t u(1,3,8,9) v(1,3,5,6) q by (intro exI [of _ t]) (simp add: ok_def group_calls_def)
qed

lemma add_keys: "foldl add_key [] ks = rev (remdups (rev ks))"
  by (induction ks rule: rev_induct) (simp_all add: add_key_def)

lemma AggReset_spec:
  assumes "groups_ok s"
  shows "\<exists>t. op_AggReset E op s = ok t \<and> groups_ok t \<and> group_keys t = [] \<and> stack t = stack s
    \<and> agg_nMem (agg t) = p2 op \<and> pSearch (agg t) = None"
proof -
  obtain m where "table_below (brk s) (agg_hash (agg s)) m" using assms by (auto simp: groups_ok_def groups_map_def)
  then obtain H where H: "hash_clear (agg_hash (agg s)) = Some H" "table_below (brk s) H Map.empty"
    using hash_clear_spec [of "agg_hash (agg s)" m] by (auto simp: table_below_def key_class_rep_def)
  let ?A = "(agg s)\<lparr>agg_hash := H, pCurrent := None, pSearch := None, agg_elems := [], agg_nMem := p2 op,
    apFunc := replicate (nat (p2 op)) None\<rparr>"
  have "op_AggReset E op s = ok (s\<lparr>agg := ?A\<rparr>)" using H(1) by (simp add: op_AggReset_def agg_reset_def)
  moreover have "groups_map (s\<lparr>agg := ?A\<rparr>) Map.empty" using H(2) by (simp add: groups_map_def group_keys_def)
  then have "groups_ok (s\<lparr>agg := ?A\<rparr>)" by (auto simp: groups_ok_def)
  ultimately show ?thesis by (intro exI [of _ "s\<lparr>agg := ?A\<rparr>"]) (simp add: group_keys_def)
qed

text \<open>C17: GROUP BY: after AggReset and one AggFocus with the AggFunc calls that follow it for each
  row, the groups are the different keys in the order they first appeared, and every cell holds the
  step function folded over the calls of the rows of its group, in their order, with the number of
  calls.  No row of one group shows in another.\<close>

theorem group_by_folds:
  assumes "groups_ok s" "0 \<le> p2 rop" "p2 rop < 2 ^ 31"
    and "\<forall>(km, calls) \<in> set qs. short (key_of E km) \<and> good_calls E (p2 rop) calls"
  shows "\<exists>s0 t. op_AggReset E rop s = ok s0 \<and> agg_rows E fop qs s0 = Some t \<and> groups_ok t \<and> stack t = stack s
    \<and> group_keys t = rev (remdups (rev (map (\<lambda>q. key_of E (fst q)) qs)))
    \<and> (\<forall>k c. c < nat (p2 rop) \<longrightarrow> cell_tally t k c = foldl (agg_step E) (0, []) (group_calls E k c qs))"
proof -
  obtain s0 where s0: "op_AggReset E rop s = ok s0" "groups_ok s0" "group_keys s0 = []" "stack s0 = stack s"
    "agg_nMem (agg s0) = p2 rop" using AggReset_spec [OF assms(1)] by blast
  have "cell_tally s0 k c = (0, [])" for k c using s0(3) by (simp add: cell_tally_absent)
  with agg_rows_spec [OF s0(2), of qs E fop] s0 assms(2-4) show ?thesis by (auto simp: add_keys)
qed

theorem group_by_folds_witness:
  "\<exists>(s :: (unit, rat) vdbe) s0 t.
     op_AggReset (test_env :: (unit, rat, rat) venv) \<lparr>opcode = OP_AggReset, p1 = 0, p2 = 1, p3 = None, p3type = 0\<rparr> s = ok s0
     \<and> agg_rows (test_env :: (unit, rat, rat) venv) \<lparr>opcode = OP_AggFocus, p1 = 0, p2 = 9, p3 = None, p3type = 0\<rparr>
         [(str_mem rat_fpu MEM_Dyn ''a'', [(0, (), [str_mem rat_fpu MEM_Dyn ''x''])]),
          (str_mem rat_fpu MEM_Dyn ''b'', [(0, (), [str_mem rat_fpu MEM_Dyn ''y''])]),
          (str_mem rat_fpu MEM_Dyn ''a'', [(0, (), [str_mem rat_fpu MEM_Dyn ''z''])])] s0 = Some t
     \<and> group_keys t = [''a'', ''b''] \<and> cell_tally t ''a'' 0 = (2, ''xz'')"
proof -
  let ?E = "test_env :: (unit, rat, rat) venv"
  obtain H :: "nat hash" where H: "hash_init HASH_BINARY True = Some H" "represents H Map.empty"
    "keyClass H = HASH_BINARY" "heap H = Map.empty"
    using hash_init_spec [of HASH_BINARY True] by (auto simp: hash_class_def)
  let ?s = "(vdbe_new d0 :: (unit, rat) vdbe)\<lparr>agg := (agg (vdbe_new d0))\<lparr>agg_hash := H\<rparr>\<rparr>"
  have "groups_map ?s Map.empty"
    using H by (simp add: groups_map_def group_keys_def table_below_def key_class_rep_def vdbe_new_def)
  then have o: "groups_ok ?s" by (auto simp: groups_ok_def vdbe_new_def)
  have k [simp]: "mz (entity_as_string rat_fpu (str_mem rat_fpu MEM_Dyn t)) = t" for t
    by (simp add: entity_as_string_def str_mem_def)
  define qs :: "(rat mem \<times> (nat \<times> unit \<times> rat mem list) list) list" where "qs = [(str_mem rat_fpu MEM_Dyn ''a'', [(0, (), [str_mem rat_fpu MEM_Dyn ''x''])]),
          (str_mem rat_fpu MEM_Dyn ''b'', [(0, (), [str_mem rat_fpu MEM_Dyn ''y''])]),
          (str_mem rat_fpu MEM_Dyn ''a'', [(0, (), [str_mem rat_fpu MEM_Dyn ''z''])])]"
  let ?rop = "\<lparr>opcode = OP_AggReset, p1 = 0, p2 = 1, p3 = None, p3type = 0\<rparr> :: unit vdbe_op"
  have W: "\<forall>(km, calls) \<in> set qs. short (key_of ?E km) \<and> good_calls ?E (p2 ?rop) calls"
    by (simp add: qs_def short_def key_of_def good_calls_def test_env_def)
  have R: "0 \<le> p2 ?rop" "p2 ?rop < 2 ^ 31" by simp_all
  from group_by_folds [OF o R W, of "\<lparr>opcode = OP_AggFocus, p1 = 0, p2 = 9, p3 = None, p3type = 0\<rparr>"] obtain s0 t where
    t: "op_AggReset ?E \<lparr>opcode = OP_AggReset, p1 = 0, p2 = 1, p3 = None, p3type = 0\<rparr> ?s = ok s0"
    "agg_rows ?E \<lparr>opcode = OP_AggFocus, p1 = 0, p2 = 9, p3 = None, p3type = 0\<rparr> qs s0 = Some t"
    "group_keys t = rev (remdups (rev (map (\<lambda>q. key_of ?E (fst q)) qs)))"
    "\<forall>k c. c < nat (p2 ?rop) \<longrightarrow> cell_tally t k c = foldl (agg_step ?E) (0, []) (group_calls ?E k c qs)"
    by blast
  have "group_calls ?E ''a'' 0 qs = [((), [Some ''x'']), ((), [Some ''z''])]"
    by (simp add: qs_def group_calls_def cell_calls_def key_of_def args_of_def stringify_def arg_of_def str_mem_def
        is_null_def entity_as_string_def cstr_def test_env_def)
  then have "cell_tally t ''a'' 0 = (2, ''xz'')" using t(4) by (simp add: agg_step_def test_env_def)
  moreover have "group_keys t = [''a'', ''b'']" using t(3) by (simp add: qs_def key_of_def test_env_def)
  ultimately show ?thesis using t(1,2) unfolding qs_def by blast
qed

section \<open>Reading the groups\<close>

text \<open>The loop of AggNext; it ends when the instruction jumps, and yields the element that is current
  after each round.\<close>

fun agg_loop :: "('f, 'r, 'l) venv \<Rightarrow> 'f vdbe_op \<Rightarrow> nat \<Rightarrow> ('f, 'r) vdbe \<Rightarrow> ('r agg_elem list \<times> ('f, 'r) vdbe) option" where
  "agg_loop E op 0 s = None"
| "agg_loop E op (Suc n) s =
     (case op_AggNext E op s of
        Some (Break r t) \<Rightarrow>
          if pSearch (agg t) = None then Some ([], t)
          else do { i \<leftarrow> pCurrent (agg t);
                    (xs, u) \<leftarrow> agg_loop E op n t;
                    Some (agg_elems (agg t) ! i # xs, u) }
      | _ \<Rightarrow> None)"

definition finalized :: "('f, 'r, 'l) venv \<Rightarrow> 'f option list \<Rightarrow> 'r agg_elem \<Rightarrow> 'r agg_elem" where
  "finalized E fs x = x\<lparr>agg_mem := map2 (finalize_cell E) fs (agg_mem x)\<rparr>"

text \<open>The element the next round looks at.\<close>

definition next_elem :: "('f, 'r) vdbe \<Rightarrow> addr option option" where
  "next_elem s =
     (case pSearch (agg s) of None \<Rightarrow> Some (hfirst (agg_hash (agg s)))
      | Some a \<Rightarrow> map_option enext (heap (agg_hash (agg s)) a))"

lemma agg_loop_spec:
  assumes "next_elem s = Some (hd_or as None)" "forward (heap (agg_hash (agg s))) as"
    and "\<forall>a \<in> set as. \<exists>e. heap (agg_hash (agg s)) a = Some e \<and> edata e = Some (idx a)
      \<and> idx a < length (agg_elems (agg s))
      \<and> length (agg_mem (agg_elems (agg s) ! idx a)) = length (apFunc (agg s))"
    and "distinct (map idx as)" "\<not> interrupt (db s)"
  shows "\<exists>t. agg_loop E op (Suc (length as)) s
      = Some (map (\<lambda>a. finalized E (apFunc (agg s)) (agg_elems (agg s) ! idx a)) as, t)
    \<and> lpc t = p2 op - 1 \<and> stack t = stack s \<and> pSearch (agg t) = None"
  using assms
proof (induction as arbitrary: s)
  case Nil
  then show ?case
    by (auto simp: op_AggNext_def next_elem_def check_interrupt_def ok_def jump_def Let_def split: option.splits)
next
  case (Cons a as)
  let ?A = "agg s"
  obtain e where e: "heap (agg_hash ?A) a = Some e" "edata e = Some (idx a)" "idx a < length (agg_elems ?A)"
    "length (agg_mem (agg_elems ?A ! idx a)) = length (apFunc ?A)" "enext e = hd_or as None"
    using Cons.prems(2,3) by auto
  let ?es = "(agg_elems ?A)[idx a := finalized E (apFunc ?A) (agg_elems ?A ! idx a)]"
  let ?u = "s\<lparr>agg := ?A\<lparr>pSearch := Some a, pCurrent := Some (idx a), agg_elems := ?es\<rparr>\<rparr>"
  have u: "op_AggNext E op s = ok ?u"
    using Cons.prems(1,5) e
    by (auto simp: op_AggNext_def next_elem_def check_interrupt_def finalized_def Let_def split: option.splits)
  have n: "next_elem ?u = Some (hd_or as None)" using e by (simp add: next_elem_def)
  have i: "idx b \<noteq> idx a" if "b \<in> set as" for b using Cons.prems(4) that by (auto simp: rev_image_eqI)
  have c: "\<forall>b \<in> set as. \<exists>e. heap (agg_hash (agg ?u)) b = Some e \<and> edata e = Some (idx b)
      \<and> idx b < length (agg_elems (agg ?u))
      \<and> length (agg_mem (agg_elems (agg ?u) ! idx b)) = length (apFunc (agg ?u))"
  proof
    fix b assume "b \<in> set as"
    then have "\<exists>e. heap (agg_hash ?A) b = Some e \<and> edata e = Some (idx b) \<and> idx b < length (agg_elems ?A)
      \<and> length (agg_mem (agg_elems ?A ! idx b)) = length (apFunc ?A)" "idx a \<noteq> idx b"
      using Cons.prems(3) i by (simp, metis)
    then show "\<exists>e. heap (agg_hash (agg ?u)) b = Some e \<and> edata e = Some (idx b)
      \<and> idx b < length (agg_elems (agg ?u))
      \<and> length (agg_mem (agg_elems (agg ?u) ! idx b)) = length (apFunc (agg ?u))" by simp
  qed
  from Cons.IH [of ?u, OF n _ c] Cons.prems(2,4,5) obtain t where t:
    "agg_loop E op (Suc (length as)) ?u
      = Some (map (\<lambda>b. finalized E (apFunc ?A) (?es ! idx b)) as, t)"
    "lpc t = p2 op - 1" "stack t = stack s" "pSearch (agg t) = None" by auto
  have "map (\<lambda>b. finalized E (apFunc ?A) (?es ! idx b)) as
      = map (\<lambda>b. finalized E (apFunc ?A) (agg_elems ?A ! idx b)) as"
    using i by (intro map_cong refl) (metis nth_list_update_neq)
  then show ?case
    using u t e(3) by (intro exI [of _ t]) (simp add: ok_def del: agg_loop.simps(2) add: agg_loop.simps(2) [of E op "Suc (length as)" s])
qed

lemma groups_walk:
  assumes "groups_ok s"
  obtains as idx where "forward (heap (agg_hash (agg s))) as" "hfirst (agg_hash (agg s)) = hd_or as None"
    "\<forall>a \<in> set as. \<exists>e. heap (agg_hash (agg s)) a = Some e \<and> edata e = Some (idx a)"
    "mset (map idx as) = mset [0..<length (agg_elems (agg s))]"
proof -
  let ?H = "agg_hash (agg s)" and ?n = "length (agg_elems (agg s))"
  from assms obtain m where m: "groups_map s m" by (auto simp: groups_ok_def)
  then have "represents ?H m" by (simp add: groups_map_def table_below_def key_class_rep_def)
  then obtain as where T: "table_list ?H as" "table_map ?H m" by (auto simp: represents_def)
  note F = table_forward [OF T(1)]
  let ?idx = "\<lambda>a. snd (entry (keyClass ?H) (heap ?H) a)" and ?key = "\<lambda>a. fst (entry (keyClass ?H) (heap ?H) a)"
  have S: "set as = dom (heap ?H)" using T(1) by (simp add: table_list_def)
  have d: "\<exists>e. heap ?H a = Some e \<and> edata e = Some (?idx a)" if "a \<in> set as" for a
  proof -
    have "a \<in> dom (heap ?H)" using that S by simp
    then obtain e where e: "heap ?H a = Some e" by auto
    then have "nodes (heap ?H) a = Some (ekey e, elen e, edata e)" by (simp add: nodes_def node_def)
    moreover from this have "edata e \<noteq> None" using T(1) unfolding table_list_def by blast
    ultimately show ?thesis using e by (auto simp: entry_def)
  qed
  have k: "m (?key a) = Some (?idx a)" if "a \<in> set as" for a using table_map_entry [OF T(2)] that S by simp
  have keyed: "m (machine_key (group_keys s ! i)) = Some i" if "i < ?n" for i
    using m that by (simp add: groups_map_def group_keys_def)
  have range: "i < ?n \<and> x = machine_key (group_keys s ! i)" if "m x = Some i" for x i
  proof -
    have "x \<in> machine_key ` set (group_keys s)" using m domI [of m x i] that by (simp only: groups_map_def)
    then obtain j where "j < ?n" "x = machine_key (group_keys s ! j)"
      by (auto simp: in_set_conv_nth group_keys_def)
    then show ?thesis using keyed that by fastforce
  qed
  have "inj_on ?idx (set as)"
  proof (rule inj_onI)
    fix a b assume ab: "a \<in> set as" "b \<in> set as" "?idx a = ?idx b"
    then have "?key a = ?key b" using k [of a] k [of b] range by metis
    then show "a = b" using table_inj [OF T(1)] ab S by blast
  qed
  then have "distinct (map ?idx as)" using F by (simp add: distinct_map)
  moreover have "set (map ?idx as) = set [0..<?n]"
  proof (intro equalityI subsetI)
    fix i assume "i \<in> set [0..<?n]"
    then have "m (machine_key (group_keys s ! i)) = Some i" using keyed by simp
    then obtain a where "a \<in> dom (heap ?H)" "entry (keyClass ?H) (heap ?H) a = (machine_key (group_keys s ! i), i)"
      using T(2) unfolding table_map_def by blast
    then show "i \<in> set (map ?idx as)" using S by force
  next
    fix i assume "i \<in> set (map ?idx as)"
    then obtain a where a: "a \<in> set as" "i = ?idx a" by auto
    show "i \<in> set [0..<?n]" using range [OF k [OF a(1)]] a(2) by simp
  qed
  ultimately have "mset (map ?idx as) = mset [0..<?n]"
    using set_eq_iff_mset_eq_distinct [OF _ distinct_upt] by blast
  then show ?thesis using that [of as ?idx] F d by blast
qed

text \<open>C18: reading the groups back: the loop of AggNext ends after one round more than there are
  groups, by the jump to its end label, and on the way every group has been current exactly once,
  with its cells replaced by the results of the finalizers.\<close>

theorem AggNext_visits_all:
  assumes "groups_ok s" "pSearch (agg s) = None" "\<not> interrupt (db s)"
  shows "\<exists>xs t. agg_loop E op (Suc (length (group_keys s))) s = Some (xs, t)
    \<and> mset xs = mset (map (finalized E (apFunc (agg s))) (agg_elems (agg s)))
    \<and> lpc t = p2 op - 1 \<and> stack t = stack s"
proof -
  let ?es = "agg_elems (agg s)" and ?f = "finalized E (apFunc (agg s))"
  obtain as idx where w: "forward (heap (agg_hash (agg s))) as" "hfirst (agg_hash (agg s)) = hd_or as None"
    "\<forall>a \<in> set as. \<exists>e. heap (agg_hash (agg s)) a = Some e \<and> edata e = Some (idx a)"
    "mset (map idx as) = mset [0..<length ?es]" using groups_walk [OF assms(1)] by blast
  have d: "distinct (map idx as)" "set (map idx as) = {0..<length ?es}" "length as = length ?es"
    using w(4) mset_eq_imp_distinct_iff [OF w(4)] mset_eq_setD [OF w(4)] mset_eq_length [OF w(4)] by simp_all
  have i: "idx a < length ?es" if "a \<in> set as" for a using d(2) that by auto
  have n: "next_elem s = Some (hd_or as None)" using assms(2) w(2) by (simp add: next_elem_def)
  have c: "\<forall>a \<in> set as. \<exists>e. heap (agg_hash (agg s)) a = Some e \<and> edata e = Some (idx a)
      \<and> idx a < length ?es \<and> length (agg_mem (?es ! idx a)) = length (apFunc (agg s))"
    using w(3) i assms(1) by (simp add: groups_ok_def)
  have "mset (map (\<lambda>a. ?f (?es ! idx a)) as) = image_mset (\<lambda>i. ?f (?es ! i)) (mset (map idx as))"
    by (simp add: image_mset.compositionality comp_def)
  also have "\<dots> = mset (map ?f (map ((!) ?es) [0..<length ?es]))"
    unfolding w(4) by (simp add: image_mset.compositionality comp_def)
  also have "\<dots> = mset (map ?f ?es)" by (simp only: map_nth)
  finally have "mset (map (\<lambda>a. ?f (?es ! idx a)) as) = mset (map ?f ?es)" .
  with agg_loop_spec [OF n w(1) c d(1) assms(3), of E op] d(3) show ?thesis by (auto simp: group_keys_def)
qed

theorem AggNext_visits_all_witness:
  "\<exists>(s :: (unit, rat) vdbe) xs t. group_keys s = [''a'']
     \<and> agg_loop (test_env :: (unit, rat, rat) venv) \<lparr>opcode = OP_AggNext, p1 = 0, p2 = 9, p3 = None, p3type = 0\<rparr> 2 s = Some (xs, t)
     \<and> map agg_key xs = [''a''] \<and> lpc t = 8"
proof -
  obtain H :: "nat hash" where H: "hash_init HASH_BINARY True = Some H" "represents H Map.empty"
    "keyClass H = HASH_BINARY" "heap H = Map.empty"
    using hash_init_spec [of HASH_BINARY True] by (auto simp: hash_class_def)
  let ?s = "(vdbe_new d0 :: (unit, rat) vdbe)\<lparr>agg := (agg (vdbe_new d0))\<lparr>agg_hash := H\<rparr>\<rparr>"
  have "groups_map ?s Map.empty"
    using H by (simp add: groups_map_def group_keys_def table_below_def key_class_rep_def vdbe_new_def)
  then have o: "groups_ok ?s" "group_keys ?s = []" "pSearch (agg ?s) = None" "\<not> interrupt (db ?s)"
    by (auto simp: groups_ok_def vdbe_new_def group_keys_def d0_def)
  obtain s :: "(unit, rat) vdbe" where s: "groups_ok s" "group_keys s = [''a'']" "pSearch (agg s) = None" "\<not> interrupt (db s)"
    using agg_insert_spec [OF o(1), of "''a''" "test_env :: (unit, rat, rat) venv"] o(2-4)
    by (auto simp: short_def group_keys_def)
  from AggNext_visits_all [OF s(1,3,4), of "test_env :: (unit, rat, rat) venv"
      "\<lparr>opcode = OP_AggNext, p1 = 0, p2 = 9, p3 = None, p3type = 0\<rparr>"] obtain xs t where x:
    "agg_loop (test_env :: (unit, rat, rat) venv) \<lparr>opcode = OP_AggNext, p1 = 0, p2 = 9, p3 = None, p3type = 0\<rparr> 2 s
       = Some (xs, t)"
    "mset xs = mset (map (finalized (test_env :: (unit, rat, rat) venv) (apFunc (agg s))) (agg_elems (agg s)))" "lpc t = 8"
    by (auto simp: s(2) numeral_2_eq_2)
  have "mset (map agg_key xs) = mset (group_keys s)"
    unfolding mset_map x(2) by (simp add: group_keys_def finalized_def comp_def image_mset.compositionality)
  then have "map agg_key xs = [''a'']" unfolding s(2) by (cases xs) auto
  then show ?thesis using s(2) x(1,3) by (intro exI conjI)
qed

end
