(* ===== verification/Token.thy ===== *)
theory Token
  imports Hash Errors
begin

text \<open>
  The tokenizer of \<^verbatim>\<open>src/sql_tokenize.c\<close>: the keywords and their hash table, \<^verbatim>\<open>__get_token\<close>, the
  loop of \<^verbatim>\<open>__run_sql_parser\<close> and the test \<^verbatim>\<open>dbsql_complete_stmt\<close>.
\<close>

section \<open>Keywords\<close>

definition sql_tokens_table :: "(cstring \<times> tk) list" where
  "sql_tokens_table =
   [(''ABORT'', ''TK_ABORT''), (''AFTER'', ''TK_AFTER''), (''ALL'', ''TK_ALL''),
    (''AND'', ''TK_AND''), (''AS'', ''TK_AS''), (''ASC'', ''TK_ASC''), (''ATTACH'', ''TK_ATTACH''),
    (''BEFORE'', ''TK_BEFORE''), (''BEGIN'', ''TK_BEGIN''), (''BETWEEN'', ''TK_BETWEEN''),
    (''BY'', ''TK_BY''), (''CASCADE'', ''TK_CASCADE''), (''CASE'', ''TK_CASE''),
    (''CHECK'', ''TK_CHECK''), (''CLUSTER'', ''TK_CLUSTER''), (''COLLATE'', ''TK_COLLATE''),
    (''COMMIT'', ''TK_COMMIT''), (''CONFLICT'', ''TK_CONFLICT''),
    (''CONSTRAINT'', ''TK_CONSTRAINT''), (''COPY'', ''TK_COPY''), (''CREATE'', ''TK_CREATE''),
    (''CROSS'', ''TK_JOIN_KW''), (''DATABASE'', ''TK_DATABASE''), (''DEFAULT'', ''TK_DEFAULT''),
    (''DEFERRED'', ''TK_DEFERRED''), (''DEFERRABLE'', ''TK_DEFERRABLE''),
    (''DELETE'', ''TK_DELETE''), (''DELIMITERS'', ''TK_DELIMITERS''), (''DESC'', ''TK_DESC''),
    (''DETACH'', ''TK_DETACH''), (''DISTINCT'', ''TK_DISTINCT''), (''DROP'', ''TK_DROP''),
    (''END'', ''TK_END''), (''EACH'', ''TK_EACH''), (''ELSE'', ''TK_ELSE''),
    (''EXCEPT'', ''TK_EXCEPT''), (''EXPLAIN'', ''TK_EXPLAIN''), (''FAIL'', ''TK_FAIL''),
    (''FOR'', ''TK_FOR''), (''FOREIGN'', ''TK_FOREIGN''), (''FROM'', ''TK_FROM''),
    (''FULL'', ''TK_JOIN_KW''), (''GLOB'', ''TK_GLOB''), (''GROUP'', ''TK_GROUP''),
    (''HAVING'', ''TK_HAVING''), (''IGNORE'', ''TK_IGNORE''), (''IMMEDIATE'', ''TK_IMMEDIATE''),
    (''IN'', ''TK_IN''), (''INDEX'', ''TK_INDEX''), (''INITIALLY'', ''TK_INITIALLY''),
    (''INNER'', ''TK_JOIN_KW''), (''INSERT'', ''TK_INSERT''), (''INSTEAD'', ''TK_INSTEAD''),
    (''INTERSECT'', ''TK_INTERSECT''), (''INTO'', ''TK_INTO''), (''IS'', ''TK_IS''),
    (''ISNULL'', ''TK_ISNULL''), (''JOIN'', ''TK_JOIN''), (''KEY'', ''TK_KEY''),
    (''LEFT'', ''TK_JOIN_KW''), (''LIKE'', ''TK_LIKE''), (''LIMIT'', ''TK_LIMIT''),
    (''MATCH'', ''TK_MATCH''), (''NATURAL'', ''TK_JOIN_KW''), (''NOT'', ''TK_NOT''),
    (''NOTNULL'', ''TK_NOTNULL''), (''NULL'', ''TK_NULL''), (''OF'', ''TK_OF''),
    (''OFFSET'', ''TK_OFFSET''), (''ON'', ''TK_ON''), (''OR'', ''TK_OR''), (''ORDER'', ''TK_ORDER''),
    (''OUTER'', ''TK_JOIN_KW''), (''PRAGMA'', ''TK_PRAGMA''), (''PRIMARY'', ''TK_PRIMARY''),
    (''RAISE'', ''TK_RAISE''), (''REFERENCES'', ''TK_REFERENCES''), (''REPLACE'', ''TK_REPLACE''),
    (''RESTRICT'', ''TK_RESTRICT''), (''RIGHT'', ''TK_JOIN_KW''), (''ROLLBACK'', ''TK_ROLLBACK''),
    (''ROW'', ''TK_ROW''), (''SELECT'', ''TK_SELECT''), (''SET'', ''TK_SET''),
    (''STATEMENT'', ''TK_STATEMENT''), (''TABLE'', ''TK_TABLE''), (''TEMP'', ''TK_TEMP''),
    (''TEMPORARY'', ''TK_TEMP''), (''THEN'', ''TK_THEN''), (''TRANSACTION'', ''TK_TRANSACTION''),
    (''TRIGGER'', ''TK_TRIGGER''), (''UNION'', ''TK_UNION''), (''UNIQUE'', ''TK_UNIQUE''),
    (''UPDATE'', ''TK_UPDATE''), (''USING'', ''TK_USING''), (''VACUUM'', ''TK_VACUUM''),
    (''VALUES'', ''TK_VALUES''), (''VIEW'', ''TK_VIEW''), (''WHEN'', ''TK_WHEN''),
    (''WHERE'', ''TK_WHERE'')]"

definition KEY_HASH_SIZE :: nat where
  "KEY_HASH_SIZE = 101"

text \<open>The hash is not negative, so that the remainder is an index.\<close>

definition keyword_hash :: "cstring \<Rightarrow> nat \<Rightarrow> nat" where
  "keyword_hash z n = nat (sint (hash_ignore_case z (of_nat n))) mod KEY_HASH_SIZE"

text \<open>The first call links the entries: \<open>ai\<close> is \<^verbatim>\<open>ai_table\<close>, and \<open>inext\<close> the fields \<^verbatim>\<open>inext\<close> of the entries
  linked so far; 0 ends a chain, and \<open>i + 1\<close> stands for entry \<open>i\<close>.\<close>

fun keyword_init :: "(cstring \<times> tk) list \<Rightarrow> nat list \<Rightarrow> nat list \<Rightarrow> nat list \<times> nat list" where
  "keyword_init [] ai inext = (ai, inext)"
| "keyword_init (k # ks) ai inext =
     (let h = keyword_hash (fst k) (length (fst k))
      in keyword_init ks (ai[h := length inext + 1]) (inext @ [ai ! h]))"

partial_function (option) keyword_chain :: "(cstring \<times> tk) list \<Rightarrow> nat list \<Rightarrow> cstring \<Rightarrow> nat \<Rightarrow> nat \<Rightarrow> tk option" where
  "keyword_chain tbl inext z n i =
     (if i = 0 then Some ''TK_ID''
      else
        (let p = tbl ! (i - 1)
         in if length (fst p) = n \<and> strncasecmp (fst p) z n = 0 then Some (snd p)
            else keyword_chain tbl inext z n (inext ! (i - 1))))"

definition get_keyword_code :: "cstring \<Rightarrow> nat \<Rightarrow> tk option" where
  "get_keyword_code z n =
     (let (ai, inext) = keyword_init sql_tokens_table (replicate KEY_HASH_SIZE 0) []
      in keyword_chain sql_tokens_table inext z n (ai ! keyword_hash z n))"

section \<open>One token\<close>

definition id_char_p :: "nat list" where
  "id_char_p =
    [0, 0, 0, 0, 0, 0, 0, 0, 0, 0, 0, 0, 0, 0, 0, 0,
     0, 0, 0, 0, 0, 0, 0, 0, 0, 0, 0, 0, 0, 0, 0, 0,
     0, 0, 0, 0, 0, 0, 0, 0, 0, 0, 0, 0, 0, 0, 0, 0,
     1, 1, 1, 1, 1, 1, 1, 1, 1, 1, 0, 0, 0, 0, 0, 0,
     0, 1, 1, 1, 1, 1, 1, 1, 1, 1, 1, 1, 1, 1, 1, 1,
     1, 1, 1, 1, 1, 1, 1, 1, 1, 1, 1, 0, 0, 0, 0, 1,
     0, 1, 1, 1, 1, 1, 1, 1, 1, 1, 1, 1, 1, 1, 1, 1,
     1, 1, 1, 1, 1, 1, 1, 1, 1, 1, 1, 0, 0, 0, 0, 0]"

text \<open>\<^verbatim>\<open>(*z & 0x80) != 0 || id_char_p[*z]\<close>.\<close>

definition is_id_char :: "char \<Rightarrow> bool" where
  "is_id_char c \<longleftrightarrow> char_code c \<ge> 128 \<or> id_char_p ! char_code c \<noteq> 0"

text \<open>The rest of a comment after its third byte, given the byte before; the rest of a text after its
  delimiter; the rest of a name in brackets.\<close>

fun comment_rest :: "char \<Rightarrow> cstring \<Rightarrow> nat" where
  "comment_rest p [] = 0"
| "comment_rest p (c # r) = (if c = CHR ''/'' \<and> p = CHR ''*'' then 1 else 1 + comment_rest c r)"

fun string_rest :: "char \<Rightarrow> cstring \<Rightarrow> nat" where
  "string_rest q [] = 0"
| "string_rest q [c] = 1"
| "string_rest q (c # d # r) =
     (if c = q then (if d = q then 2 + string_rest q r else 1) else 1 + string_rest q (d # r))"

fun bracket_rest :: "char \<Rightarrow> cstring \<Rightarrow> nat" where
  "bracket_rest p [] = 0"
| "bracket_rest p (c # r) = (if p = CHR '']'' then 0 else 1 + bracket_rest c r)"

definition span :: "(char \<Rightarrow> bool) \<Rightarrow> cstring \<Rightarrow> nat \<Rightarrow> nat" where
  "span P z i = i + length (takeWhile P (drop i z))"

definition frac_part :: "cstring \<Rightarrow> nat \<Rightarrow> tk \<times> nat" where
  "frac_part z i =
     (if c_at z i = CHR ''.'' \<and> is_digit (c_at z (i + 1))
      then (''TK_FLOAT'', span is_digit z (i + 2)) else (''TK_INTEGER'', i))"

definition exp_part :: "cstring \<Rightarrow> tk \<times> nat \<Rightarrow> tk \<times> nat" where
  "exp_part z r =
     (case r of (t, i) \<Rightarrow>
        if (c_at z i = CHR ''e'' \<or> c_at z i = CHR ''E'')
          \<and> (is_digit (c_at z (i + 1))
             \<or> (c_at z (i + 1) = CHR ''+'' \<or> c_at z (i + 1) = CHR ''-'') \<and> is_digit (c_at z (i + 2)))
        then (''TK_FLOAT'', span is_digit z (i + 2)) else (t, i))"

definition number_token :: "cstring \<Rightarrow> tk \<times> nat" where
  "number_token z = exp_part z (frac_part z (span is_digit z 1))"

text \<open>The tokens of one byte, and the ones the second byte decides.\<close>

definition single_token :: "char \<Rightarrow> tk option" where
  "single_token c =
     map_of [(CHR ''-'', ''TK_MINUS''), (CHR ''('', ''TK_LP''), (CHR '')'', ''TK_RP''), (CHR '';'', ''TK_SEMI''),
       (CHR ''+'', ''TK_PLUS''), (CHR ''*'', ''TK_STAR''), (CHR ''/'', ''TK_SLASH''), (CHR ''%'', ''TK_REM''),
       (CHR '','', ''TK_COMMA''), (CHR ''&'', ''TK_BITAND''), (CHR ''~'', ''TK_BITNOT''), (CHR ''.'', ''TK_DOT''),
       (CHR ''?'', ''TK_VARIABLE'')] c"

definition op_token :: "char \<Rightarrow> char \<Rightarrow> (tk \<times> nat) option" where
  "op_token c d =
     (if c = CHR ''='' then Some (''TK_EQ'', if d = CHR ''='' then 2 else 1)
      else if c = CHR ''<'' then
        (if d = CHR ''='' then Some (''TK_LE'', 2)
         else if d = CHR ''>'' then Some (''TK_NE'', 2)
         else if d = CHR ''<'' then Some (''TK_LSHIFT'', 2)
         else Some (''TK_LT'', 1))
      else if c = CHR ''>'' then
        (if d = CHR ''='' then Some (''TK_GE'', 2)
         else if d = CHR ''>'' then Some (''TK_RSHIFT'', 2)
         else Some (''TK_GT'', 1))
      else if c = CHR ''!'' then
        (if d \<noteq> CHR ''='' then Some (''TK_ILLEGAL'', 2) else Some (''TK_NE'', 2))
      else if c = CHR ''|'' then
        (if d \<noteq> CHR ''|'' then Some (''TK_BITOR'', 1) else Some (''TK_CONCAT'', 2))
      else map_option (\<lambda>t. (t, 1)) (single_token c))"

text \<open>The result \<open>None\<close> is a keyword chain that does not end.\<close>

definition get_token :: "cstring \<Rightarrow> (tk \<times> nat) option" where
  "get_token z =
     (let c = c_at z 0; d = c_at z 1
      in if c = CHR '' '' \<or> c = CHR 0x09 \<or> c = CHR 0x0A \<or> c = CHR 0x0C \<or> c = CHR 0x0D
         then Some (''TK_SPACE'', span is_space z 1)
         else if c = CHR ''-'' \<and> d = CHR ''-'' then Some (''TK_COMMENT'', span (\<lambda>x. x \<noteq> CHR 0x0A) z 2)
         else if c = CHR ''/'' \<and> d = CHR ''*'' \<and> c_at z 2 \<noteq> NUL
         then Some (''TK_COMMENT'', 3 + comment_rest (c_at z 2) (drop 3 z))
         else
           (case op_token c d of
              Some r \<Rightarrow> Some r
            | None \<Rightarrow>
                (if c = CHR 0x27 \<or> c = CHR 0x22 then Some (''TK_STRING'', 1 + string_rest c (drop 1 z))
                 else if is_digit c then Some (number_token z)
                 else if c = CHR ''['' then Some (''TK_ID'', 1 + bracket_rest c (drop 1 z))
                 else if \<not> is_id_char c then Some (''TK_ILLEGAL'', 1)
                 else (let i = span is_id_char z 1
                       in map_option (\<lambda>t. (t, i)) (get_keyword_code z i)))))"

section \<open>Feeding the parser\<close>

text \<open>
  The parser is generated from the grammar, and its actions compile the statement.  It is a
  parameter: \<open>feed\<close> is \<^verbatim>\<open>__sql_parser\<close> with the code of the token (0 at the end of the text, here
  \<open>''$''\<close>) and the text of \<^verbatim>\<open>sLastToken\<close>.  \<open>engine\<close> stands for its stack and everything else the actions
  change; the fields of \<^verbatim>\<open>parser_t\<close> the loop itself reads or writes are here.
\<close>

record 'e parser =
  engine :: 'e
  prc :: int
  sLastToken :: cstring
  zTail :: nat
  zErrMsg :: "string option"
  perr :: int
  useCallback :: bool
  has_vdbe :: bool
  has_newTable :: bool
  has_newTrigger :: bool

record 'e penv =
  feed :: "tk \<Rightarrow> cstring \<Rightarrow> 'e parser \<Rightarrow> 'e parser"
  perrtext :: "int \<Rightarrow> cstring"
  pinterrupt :: "nat \<Rightarrow> bool"
  wants_msgs :: bool

text \<open>The state of the loop: the place \<^verbatim>\<open>i\<close>, the number of errors, the last token that was fed, and the
  message.  \<open>pinterrupt i\<close> says whether another thread has set the interrupt flag, which the routine
  clears at its start, when the loop looks at it; \<open>wants_msgs\<close>, whether the caller passed a place for
  the message; \<open>perrtext\<close> is \<^verbatim>\<open>dbsql_strerror\<close>.\<close>

record 'e ploop =
  parser :: "'e parser"
  place :: nat
  nerr :: nat
  last_token :: tk
  err_msgs :: "string option"

datatype 'e pstep = Again "'e ploop" | Abort_parse "'e ploop"

text \<open>The caller may pass no place for a message.\<close>

definition set_msg :: "'e penv \<Rightarrow> string \<Rightarrow> string option \<Rightarrow> string option" where
  "set_msg E z m = (if wants_msgs E then Some z else m)"

definition parse_token :: "'e penv \<Rightarrow> cstring \<Rightarrow> 'e ploop \<Rightarrow> 'e pstep option" where
  "parse_token E sql s =
     do { (t, n) \<leftarrow> get_token (drop (place s) sql);
          let z = take n (drop (place s) sql);
          let s = s\<lparr>parser := (parser s)\<lparr>sLastToken := z\<rparr>, place := place s + n\<rparr>;
          Some
            (if t = ''TK_SPACE'' \<or> t = ''TK_COMMENT'' then
               (if pinterrupt E (place s)
                then Abort_parse (s\<lparr>parser := (parser s)\<lparr>prc := DBSQL_INTERRUPTED\<rparr>,
                                    err_msgs := set_msg E (str_append ''interrupt'' []) (err_msgs s)\<rparr>)
                else Again s)
             else if t = ''TK_ILLEGAL'' then
               Abort_parse (s\<lparr>err_msgs := set_msg E (str_nappend [(''unrecognized token: '' @ [CHR 0x22], -1), (z, int n), ([CHR 0x22], 1)]) (err_msgs s),
                              nerr := nerr s + 1\<rparr>)
             else
               (let p = (if t = ''TK_SEMI'' then (parser s)\<lparr>zTail := place s\<rparr> else parser s);
                    p = feed E t z p;
                    s = s\<lparr>parser := p, last_token := t\<rparr>
                in if prc p \<noteq> DBSQL_SUCCESS then Abort_parse s else Again s)) }"

partial_function (option) parse_loop :: "'e penv \<Rightarrow> cstring \<Rightarrow> 'e ploop \<Rightarrow> 'e ploop option" where
  "parse_loop E sql s =
     (if prc (parser s) = DBSQL_SUCCESS \<and> place s < length sql then
        (case parse_token E sql s of
           None \<Rightarrow> None
         | Some (Again s) \<Rightarrow> parse_loop E sql s
         | Some (Abort_parse s) \<Rightarrow> Some s)
      else Some s)"

text \<open>After the loop.  The token \<open>!\<close> at the end of the text has two bytes, one of them the terminator;
  then the byte the routine looks at lies behind the text, and the result is \<open>None\<close>.\<close>

definition parse_finish :: "'e penv \<Rightarrow> cstring \<Rightarrow> 'e ploop \<Rightarrow> 'e ploop option" where
  "parse_finish E sql s =
     (if place s > length sql then None
      else Some
        (if place s = length sql \<and> nerr s = 0 \<and> prc (parser s) = DBSQL_SUCCESS then
           (let p = parser s;
                p = (if last_token s \<noteq> ''TK_SEMI''
                     then (feed E ''TK_SEMI'' (sLastToken p) p)\<lparr>zTail := place s\<rparr> else p)
            in s\<lparr>parser := feed E ''$'' (sLastToken p) p\<rparr>)
         else s))"

definition parse_cleanup :: "'e penv \<Rightarrow> 'e ploop \<Rightarrow> 'e ploop" where
  "parse_cleanup E s =
     (let p = parser s;
          p = (if prc p \<noteq> DBSQL_SUCCESS \<and> prc p \<noteq> DBSQL_DONE \<and> zErrMsg p = None
               then p\<lparr>zErrMsg := Some (str_append (perrtext E (prc p)) [])\<rparr> else p);
          s = (case zErrMsg p of None \<Rightarrow> s
               | Some z \<Rightarrow> s\<lparr>err_msgs := (if wants_msgs E \<and> err_msgs s = None then Some z else err_msgs s),
                             nerr := (if nerr s = 0 then 1 else nerr s)\<rparr>);
          p = p\<lparr>zErrMsg := None\<rparr>;
          p = (if has_vdbe p \<and> (useCallback p \<or> perr p > 0) then p\<lparr>has_vdbe := False\<rparr> else p);
          p = p\<lparr>has_newTable := False, has_newTrigger := False\<rparr>;
          p = (if nerr s > 0 \<and> (prc p = DBSQL_SUCCESS \<or> prc p = DBSQL_DONE) then p\<lparr>prc := DBSQL_ERROR\<rparr> else p)
      in s\<lparr>parser := p\<rparr>)"

definition run_sql_parser :: "'e penv \<Rightarrow> bool \<Rightarrow> 'e parser \<Rightarrow> cstring \<Rightarrow> string option \<Rightarrow> 'e ploop option" where
  "run_sql_parser E alloc_ok p sql msgs =
     (let s = \<lparr>parser = p\<lparr>prc := DBSQL_SUCCESS\<rparr>, place = 0, nerr = 0, last_token = [], err_msgs = msgs\<rparr>
      in if \<not> alloc_ok then Some (s\<lparr>nerr := 1, err_msgs := set_msg E (str_append ''out of memory'' []) msgs\<rparr>)
         else do { s \<leftarrow> parse_loop E sql (s\<lparr>parser := (parser s)\<lparr>zTail := 0\<rparr>\<rparr>);
                   s \<leftarrow> parse_finish E sql s;
                   Some (parse_cleanup E s) })"

section \<open>Whether a text is a complete statement\<close>

text \<open>The tokens of \<^verbatim>\<open>dbsql_complete_stmt\<close>, in the order of their numbers.\<close>

datatype ctoken = tkEXPLAIN | tkCREATE | tkTEMP | tkTRIGGER | tkEND | tkSEMI | tkWS | tkOTHER

primrec ctoken_code :: "ctoken \<Rightarrow> nat" where
  "ctoken_code tkEXPLAIN = 0"
| "ctoken_code tkCREATE = 1"
| "ctoken_code tkTEMP = 2"
| "ctoken_code tkTRIGGER = 3"
| "ctoken_code tkEND = 4"
| "ctoken_code tkSEMI = 5"
| "ctoken_code tkWS = 6"
| "ctoken_code tkOTHER = 7"

definition trans_table :: "nat list list" where
  "trans_table =
    [[1, 2, 3, 3, 3, 0, 0, 3],
     [3, 2, 3, 3, 3, 0, 1, 3],
     [3, 3, 2, 4, 3, 0, 2, 3],
     [3, 3, 3, 3, 3, 0, 3, 3],
     [4, 4, 4, 4, 4, 5, 4, 4],
     [4, 4, 4, 4, 6, 5, 5, 4],
     [4, 4, 4, 4, 4, 0, 6, 4]]"

definition word_token :: "cstring \<Rightarrow> nat \<Rightarrow> ctoken" where
  "word_token sql nid =
     (let c = c_at sql 0
      in if c = CHR ''c'' \<or> c = CHR ''C'' then
           (if nid = 6 \<and> strncasecmp sql ''create'' 6 = 0 then tkCREATE else tkOTHER)
         else if c = CHR ''t'' \<or> c = CHR ''T'' then
           (if nid = 7 \<and> strncasecmp sql ''trigger'' 7 = 0 then tkTRIGGER
            else if nid = 4 \<and> strncasecmp sql ''temp'' 4 = 0 then tkTEMP
            else if nid = 9 \<and> strncasecmp sql ''temporary'' 9 = 0 then tkTEMP
            else tkOTHER)
         else if c = CHR ''e'' \<or> c = CHR ''E'' then
           (if nid = 3 \<and> strncasecmp sql ''end'' 3 = 0 then tkEND
            else if nid = 7 \<and> strncasecmp sql ''explain'' 7 = 0 then tkEXPLAIN
            else tkOTHER)
         else tkOTHER)"

text \<open>One round of the loop: the token and the rest of the text behind it, or the answer when the text
  ends inside a token.  The table has 128 entries and the code indexes it with any byte; a byte
  above reads behind it, which is the result \<open>None\<close>.\<close>

definition table_id_char :: "char \<Rightarrow> bool option" where
  "table_id_char c = (if char_code c < length id_char_p then Some (id_char_p ! char_code c \<noteq> 0) else None)"

fun word_length :: "cstring \<Rightarrow> nat option" where
  "word_length [] = Some 0"
| "word_length (c # r) =
     do { b \<leftarrow> table_id_char c; if b then map_option Suc (word_length r) else Some 0 }"

fun c_comment_end :: "cstring \<Rightarrow> cstring option" where
  "c_comment_end [] = None"
| "c_comment_end (c # r) = (if c = CHR ''*'' \<and> c_at r 0 = CHR ''/'' then Some (tl r) else c_comment_end r)"

datatype cstep = Next ctoken cstring | Answer bool

definition complete_step :: "nat \<Rightarrow> cstring \<Rightarrow> cstep option" where
  "complete_step state sql =
     (let c = c_at sql 0; d = c_at sql 1
      in if c = CHR '';'' then Some (Next tkSEMI (tl sql))
         else if c = CHR '' '' \<or> c = CHR 0x0D \<or> c = CHR 0x09 \<or> c = CHR 0x0A \<or> c = CHR 0x0C
         then Some (Next tkWS (tl sql))
         else if c = CHR ''/'' then
           (if d \<noteq> CHR ''*'' then Some (Next tkOTHER (tl sql))
            else (case c_comment_end (drop 2 sql) of
                    None \<Rightarrow> Some (Answer False)
                  | Some r \<Rightarrow> Some (Next tkWS r)))
         else if c = CHR ''-'' then
           (if d \<noteq> CHR ''-'' then Some (Next tkOTHER (tl sql))
            else (case dropWhile (\<lambda>x. x \<noteq> CHR 0x0A) sql of
                    [] \<Rightarrow> Some (Answer (state = 0))
                  | x # r \<Rightarrow> Some (Next tkWS r)))
         else if c = CHR ''['' then
           (case dropWhile (\<lambda>x. x \<noteq> CHR '']'') (tl sql) of
              [] \<Rightarrow> Some (Answer False)
            | x # r \<Rightarrow> Some (Next tkOTHER r))
         else if c = CHR 0x22 \<or> c = CHR 0x27 then
           (case dropWhile (\<lambda>x. x \<noteq> c) (tl sql) of
              [] \<Rightarrow> Some (Answer False)
            | x # r \<Rightarrow> Some (Next tkOTHER r))
         else
           do { b \<leftarrow> table_id_char c;
                if b then do { n \<leftarrow> word_length (tl sql);
                               Some (Next (word_token sql (n + 1)) (drop (n + 1) sql)) }
                else Some (Next tkOTHER (tl sql)) })"

lemma c_comment_end_length: "c_comment_end z = Some r \<Longrightarrow> length r < length z"
  by (induction z) (auto split: if_splits)

lemma complete_step_length: "sql \<noteq> [] \<Longrightarrow> complete_step st sql = Some (Next t r) \<Longrightarrow> length r < length sql"
proof -
  have d: "length r < length z" if "dropWhile P z = x # r" for P z and x :: char and r
    using length_dropWhile_le [of P z] that by simp
  assume "sql \<noteq> []" "complete_step st sql = Some (Next t r)"
  then show ?thesis
    by (cases sql)
      (auto simp: complete_step_def Let_def bind_eq_Some_conv split: if_splits option.splits list.splits
        dest!: d c_comment_end_length)
qed

function complete_loop :: "nat \<Rightarrow> cstring \<Rightarrow> bool option" where
  "complete_loop state sql =
     (if sql = [] then Some (state = 0)
      else case complete_step state sql of
             None \<Rightarrow> None
           | Some (Answer b) \<Rightarrow> Some b
           | Some (Next t r) \<Rightarrow> complete_loop (trans_table ! state ! ctoken_code t) r)"
  by pat_completeness auto
termination
  by (relation "measure (\<lambda>(state, sql). length sql)") (auto dest: complete_step_length)

declare complete_loop.simps [simp del]

definition dbsql_complete_stmt :: "cstring \<Rightarrow> bool option" where
  "dbsql_complete_stmt sql = complete_loop 0 sql"

end
