(* ===== verification/TokenProps.thy ===== *)
theory TokenProps
  imports Token HashProps
begin

text \<open>
  What the tokenizer computes: the chains of the keyword table find exactly the keywords, the tokens
  cover the text, blanks between tokens change nothing, the parser receives the tokens that matter,
  and the automaton of \<^verbatim>\<open>dbsql_complete_stmt\<close> accepts the sequences of complete statements.
\<close>

section \<open>Keywords\<close>

primrec linked_chain :: "nat list \<Rightarrow> nat \<Rightarrow> nat list \<Rightarrow> bool" where
  "linked_chain inext p [] \<longleftrightarrow> p = 0"
| "linked_chain inext p (i # is) \<longleftrightarrow> p = Suc i \<and> i < length inext \<and> linked_chain inext (inext ! i) is"

lemma linked_chain_append: "linked_chain inext p is \<Longrightarrow> linked_chain (inext @ [x]) p is"
  by (induction "is" arbitrary: p) (auto simp: nth_append)

text \<open>The entries of one hash value among the first \<open>n\<close>, the last one first.\<close>

definition hash_class_of :: "(cstring \<times> tk) list \<Rightarrow> nat \<Rightarrow> nat \<Rightarrow> nat list" where
  "hash_class_of ks n h = rev [i. i \<leftarrow> [0..<n], keyword_hash (fst (ks ! i)) (length (fst (ks ! i))) = h]"

lemma keyword_hash_less [simp]: "keyword_hash z n < KEY_HASH_SIZE"
  by (simp add: keyword_hash_def KEY_HASH_SIZE_def)

lemma hash_class_Suc:
  "hash_class_of ks (Suc n) h =
     (if keyword_hash (fst (ks ! n)) (length (fst (ks ! n))) = h then n # hash_class_of ks n h else hash_class_of ks n h)"
  by (simp add: hash_class_of_def)

lemma keyword_init_chains:
  assumes "ks = done @ rest" "length ai = KEY_HASH_SIZE" "length inext = length done"
    and "\<forall>h < KEY_HASH_SIZE. linked_chain inext (ai ! h) (hash_class_of ks (length done) h)"
    and "keyword_init rest ai inext = (ai', inext')" "h < KEY_HASH_SIZE"
  shows "linked_chain inext' (ai' ! h) (hash_class_of ks (length ks) h)"
  using assms
proof (induction rest arbitrary: "done" ai inext)
  case Nil
  then show ?case by simp
next
  case (Cons k rest)
  let ?h = "keyword_hash (fst k) (length (fst k))"
  let ?ai = "ai[?h := length inext + 1]" and ?inext = "inext @ [ai ! ?h]"
  have k: "ks ! length done = k" using Cons.prems(1) by simp
  have "linked_chain ?inext (?ai ! h) (hash_class_of ks (length (done @ [k])) h)" if "h < KEY_HASH_SIZE" for h
    using Cons.prems(2,3,4) that k linked_chain_append [of inext _ _ "ai ! ?h"]
    by (auto simp: hash_class_Suc nth_list_update nth_append)
  then show ?case
    using Cons.IH [of "done @ [k]" ?ai ?inext] Cons.prems by (simp add: Let_def)
qed

lemma keyword_chain_linked:
  "linked_chain inext p is \<Longrightarrow>
    keyword_chain ks inext z n p =
      Some (case find (\<lambda>i. length (fst (ks ! i)) = n \<and> strncasecmp (fst (ks ! i)) z n = 0) is of
        None \<Rightarrow> ''TK_ID'' | Some i \<Rightarrow> snd (ks ! i))"
  by (induction "is" arbitrary: p) (simp_all add: Let_def keyword_chain.simps [of _ _ _ _ 0] keyword_chain.simps [of _ _ _ _ "Suc _"])

lemma hash_lower:
  assumes "map lower (take n z) = map lower w" "length w = n" "0 < n" "n < 2 ^ 31"
  shows "keyword_hash z n = keyword_hash w n"
proof -
  have s: "sint (of_nat n :: i32) = int n" using assms(4) sint_of_nat_i32 by simp
  have "foldl (\<lambda>h c. push_bit 3 h XOR h XOR of_nat (lower c)) (0 :: i32) (take n z)
      = foldl (\<lambda>h c. push_bit 3 h XOR h XOR of_nat (lower c)) 0 (take n w)"
    using assms(1,2) by (simp add: foldl_map_arg [of "\<lambda>h x. push_bit 3 h XOR h XOR of_nat x" lower])
  then show ?thesis using s assms(3) by (simp add: keyword_hash_def hash_ignore_case_def Let_def)
qed

definition folded_table :: "(nat list \<times> tk) list" where
  "folded_table = map (\<lambda>(k, t). (map lower k, t)) sql_tokens_table"

lemma keyword_names:
  "\<forall>k \<in> set sql_tokens_table. nul_free (fst k)" "distinct (map fst folded_table)"
  by (simp_all add: sql_tokens_table_def folded_table_def lower_eq char_code_def)

lemma strncasecmp_word:
  assumes "length k = n" "nul_free k" "nul_free (take n z)"
  shows "strncasecmp k z n = 0 \<longleftrightarrow> map lower k = map lower (take n z)"
  using strcasecmp_eq_0 [OF assms(2,3)] assms(1) by (simp add: strncasecmp_def)

lemma find_distinct_image:
  assumes "\<And>i j. i \<in> set is \<Longrightarrow> j \<in> set is \<Longrightarrow> P i \<Longrightarrow> P j \<Longrightarrow> i = j" "k \<in> set is" "P k"
  shows "find P is = Some k"
  using assms by (induction "is") auto

lemma keyword_code:
  assumes "0 < n" "n \<le> length z" "n < 2 ^ 31" "nul_free z"
  shows "get_keyword_code z n =
    Some (case map_of folded_table (map lower (take n z)) of None \<Rightarrow> ''TK_ID'' | Some t \<Rightarrow> t)"
proof -
  let ?ks = sql_tokens_table and ?w = "take n z"
  obtain ai inext where i: "keyword_init ?ks (replicate KEY_HASH_SIZE 0) [] = (ai, inext)" by fastforce
  let ?is = "hash_class_of ?ks (length ?ks) (keyword_hash z n)"
  let ?P = "\<lambda>i. length (fst (?ks ! i)) = n \<and> strncasecmp (fst (?ks ! i)) z n = 0"
  have "linked_chain inext (ai ! keyword_hash z n) ?is"
    using keyword_init_chains [of ?ks "[]" ?ks "replicate KEY_HASH_SIZE 0" "[]"] i by (simp add: hash_class_of_def)
  then have r: "get_keyword_code z n = Some (case find ?P ?is of None \<Rightarrow> ''TK_ID'' | Some i \<Rightarrow> snd (?ks ! i))"
    using i by (simp add: get_keyword_code_def keyword_chain_linked)
  have w: "nul_free ?w" "length ?w = n" using assms(2,4) by (auto simp: nul_free_def dest: in_set_takeD)
  have P: "?P i \<longleftrightarrow> map lower (fst (?ks ! i)) = map lower ?w" if "i < length ?ks" for i
  proof -
    have "nul_free (fst (?ks ! i))" using keyword_names(1) that nth_mem by blast
    then show ?thesis using strncasecmp_word [of _ n z] w map_eq_imp_length_eq by metis
  qed
  have F: "folded_table ! i = (map lower (fst (?ks ! i)), snd (?ks ! i))" if "i < length ?ks" for i
    using that by (simp add: folded_table_def split_def)
  have len: "length folded_table = length ?ks" by (simp add: folded_table_def)
  show ?thesis
  proof (cases "map_of folded_table (map lower ?w)")
    case None
    then have "\<not> ?P i" if "i \<in> set ?is" for i
    proof -
      have i: "i < length ?ks" using that by (auto simp: hash_class_of_def)
      then have "map lower (fst (?ks ! i)) \<in> fst ` set folded_table"
        using F len nth_mem by (metis fst_conv image_eqI)
      then show ?thesis using None P [OF i] by (metis map_of_eq_None_iff)
    qed
    then have "find ?P ?is = None" by (auto simp: find_None_iff)
    then show ?thesis using r None by simp
  next
    case (Some t)
    then obtain i where j: "i < length ?ks" "folded_table ! i = (map lower ?w, t)"
      using len by (metis in_set_conv_nth map_of_SomeD)
    then have k: "map lower (fst (?ks ! i)) = map lower ?w" "snd (?ks ! i) = t" using F by auto
    then have "keyword_hash (fst (?ks ! i)) (length (fst (?ks ! i))) = keyword_hash z n"
      using hash_lower [of n z "fst (?ks ! i)"] w(2) assms(1,3) map_eq_imp_length_eq [OF k(1)] by simp
    then have m: "i \<in> set ?is" using j(1) by (auto simp: hash_class_of_def)
    have "i = i'" if "i \<in> set ?is" "i' \<in> set ?is" "?P i" "?P i'" for i i'
    proof -
      have b: "i < length ?ks" "i' < length ?ks" using that by (auto simp: hash_class_of_def)
      then have "map fst folded_table ! i = map fst folded_table ! i'" using that P F len by simp
      then show ?thesis using nth_eq_iff_index_eq [OF keyword_names(2)] b len by simp
    qed
    then have "find ?P ?is = Some i" using find_distinct_image [of ?is ?P i] m P j(1) k(1) by blast
    then show ?thesis using r Some k(2) by simp
  qed
qed

text \<open>C23: the chains of the keyword table, built at the first call, find a word exactly when it is one
  of the keywords up to the case of its letters, and then give its token; any other word is an
  identifier.  The search always ends.\<close>

theorem keyword_lookup:
  assumes "0 < n" "n \<le> length z" "n < 2 ^ 31" "nul_free z"
  shows "get_keyword_code z n =
    Some (case map_of folded_table (map lower (take n z)) of None \<Rightarrow> ''TK_ID'' | Some t \<Rightarrow> t)"
  by (rule keyword_code [OF assms])

theorem keyword_lookup_witness:
  "get_keyword_code ''sElect x'' 6 = Some ''TK_SELECT'' \<and> get_keyword_code ''sElecto'' 7 = Some ''TK_ID''"
proof -
  have "map_of folded_table (map lower ''sElect'') = Some ''TK_SELECT''"
    "map_of folded_table (map lower ''sElecto'') = None"
    by (simp_all add: folded_table_def sql_tokens_table_def lower_eq char_code_def)
  with keyword_lookup [of 6 "''sElect x''"] keyword_lookup [of 7 "''sElecto''"] show ?thesis by simp
qed

section \<open>The tokens of a text\<close>

lemma span_le: "i \<le> length z \<Longrightarrow> i \<le> span P z i \<and> span P z i \<le> length z"
  using length_takeWhile_le [of P "drop i z"] by (simp add: span_def)

lemma c_at_less: "c_at z i \<noteq> NUL \<Longrightarrow> i < length z"
  by (auto simp: c_at_def split: if_splits)

lemma is_digit_c_at: "is_digit (c_at z i) \<Longrightarrow> i < length z"
  by (rule c_at_less) (auto simp: is_digit_def)

lemma comment_rest_le: "comment_rest p z \<le> length z"
  by (induction z arbitrary: p) auto

lemma string_rest_le: "string_rest q z \<le> length z"
  by (induction q z rule: string_rest.induct) auto

lemma bracket_rest_le: "bracket_rest p z \<le> length z"
  by (induction z arbitrary: p) auto

lemma frac_part_le:
  assumes "frac_part z i = (t, j)" "i \<le> length z"
  shows "i \<le> j \<and> j \<le> length z \<and> (j = i \<or> i + 2 \<le> j)"
  using assms span_le [of "i + 2" z is_digit] is_digit_c_at [of z "i + 1"] by (auto simp: frac_part_def split: if_splits)

lemma exp_part_le:
  assumes "exp_part z (t', i) = (t, j)" "i \<le> length z"
  shows "i \<le> j \<and> j \<le> length z \<and> (j = i \<or> i + 2 \<le> j)"
  using assms span_le [of "i + 2" z is_digit] is_digit_c_at [of z "i + 1"] is_digit_c_at [of z "i + 2"]
  by (auto simp: exp_part_def split: if_splits)

lemma number_token_le:
  assumes "z \<noteq> []" "number_token z = (t, n)"
  shows "0 < n \<and> n \<le> length z"
proof -
  have i: "1 \<le> span is_digit z 1" "span is_digit z 1 \<le> length z" using span_le [of 1 z is_digit] assms(1) by (cases z; simp)+
  obtain t' j where j: "frac_part z (span is_digit z 1) = (t', j)" by fastforce
  then show ?thesis
    using frac_part_le [OF j i(2)] exp_part_le [of z t' j t n] assms(2) i(1) by (simp add: number_token_def)
qed

lemma get_keyword_code_take:
  assumes "0 < n" "n \<le> length z" "n < 2 ^ 31" "nul_free z" "nul_free y"
  shows "get_keyword_code (take n z @ y) n = get_keyword_code z n"
proof -
  have "nul_free (take n z @ y)" using assms(4,5) by (auto simp: nul_free_def dest: in_set_takeD)
  then show ?thesis using keyword_code [of n z] keyword_code [of n "take n z @ y"] assms by simp
qed

lemma single_token_names:
  assumes "single_token c = Some t"
  shows "t \<noteq> ''TK_SPACE''" "t \<noteq> ''TK_COMMENT''"
  using map_of_SomeD [OF assms [unfolded single_token_def]] by auto

lemma op_token_length:
  assumes "op_token c d = Some (t, n)"
  shows "n = 1 \<or> n = 2 \<and> (d \<noteq> NUL \<or> c = CHR ''!'' \<and> t = ''TK_ILLEGAL'')"
  using assms by (simp add: op_token_def split: if_splits)

lemma op_token_names:
  assumes "op_token c d = Some (t, n)"
  shows "t \<noteq> ''TK_SPACE'' \<and> t \<noteq> ''TK_COMMENT''"
  using assms single_token_names [of c t] by (auto simp: op_token_def split: if_splits)

lemma op_token_one:
  assumes "op_token c d = Some (t, 1)" "e = NUL \<or> e = CHR '' ''"
  shows "op_token c e = Some (t, 1)"
  using assms by (auto simp: op_token_def split: if_splits)

text \<open>The forms a token can have.\<close>

lemma get_token_cases:
  assumes "get_token z = Some (t, n)"
  obtains (space) "t = ''TK_SPACE''" "n = span is_space z 1"
  | (line) "t = ''TK_COMMENT''" "n = span (\<lambda>x. x \<noteq> CHR 0x0A) z 2" "c_at z 1 = CHR ''-''"
  | (block) "t = ''TK_COMMENT''" "n = 3 + comment_rest (c_at z 2) (drop 3 z)" "c_at z 2 \<noteq> NUL"
  | (oper) "op_token (c_at z 0) (c_at z 1) = Some (t, n)"
  | (quoted) "t = ''TK_STRING''" "n = 1 + string_rest (c_at z 0) (drop 1 z)"
      "c_at z 0 = CHR 0x27 \<or> c_at z 0 = CHR 0x22"
  | (number) "(t, n) = number_token z" "is_digit (c_at z 0)"
  | (bracket) "t = ''TK_ID''" "n = 1 + bracket_rest (c_at z 0) (drop 1 z)" "c_at z 0 = CHR ''[''"
  | (bad) "t = ''TK_ILLEGAL''" "n = 1"
  | (word) "n = span is_id_char z 1" "get_keyword_code z n = Some t" "is_id_char (c_at z 0)" "\<not> is_digit (c_at z 0)"
proof -
  let ?c = "c_at z 0" and ?d = "c_at z 1"
  note G = assms [unfolded get_token_def Let_def]
  show ?thesis
  proof (cases "?c = CHR '' '' \<or> ?c = CHR 0x09 \<or> ?c = CHR 0x0A \<or> ?c = CHR 0x0C \<or> ?c = CHR 0x0D")
    case True
    then show ?thesis using G space by (simp only: if_True option.inject prod.inject)
  next
    case False
    note G = G [unfolded if_not_P [OF False]]
    show ?thesis
    proof (cases "?c = CHR ''-'' \<and> ?d = CHR ''-''")
      case True
      show ?thesis using G [unfolded if_P [OF True]] True line by simp
    next
      case False
      note G = G [unfolded if_not_P [OF False]]
      show ?thesis
      proof (cases "?c = CHR ''/'' \<and> ?d = CHR ''*'' \<and> c_at z 2 \<noteq> NUL")
        case True
        show ?thesis using G [unfolded if_P [OF True]] True block by simp
      next
        case False
        note G = G [unfolded if_not_P [OF False]]
        show ?thesis
        proof (cases "op_token ?c ?d")
          case (Some r)
          then show ?thesis using G oper by simp
        next
          case None
          note G = G [unfolded None option.case]
          show ?thesis
          proof (cases "?c = CHR 0x27 \<or> ?c = CHR 0x22")
            case True
            show ?thesis using G [unfolded if_P [OF True]] True quoted by simp
          next
            case False
            then show ?thesis
              using G number bracket bad word
              by (cases "is_digit ?c"; cases "?c = CHR ''[''"; cases "is_id_char ?c") auto
          qed
        qed
      qed
    qed
  qed
qed

lemma get_token_bounds:
  assumes "z \<noteq> []" "get_token z = Some (t, n)"
  shows "0 < n \<and> (n \<le> length z \<or> z = ''!'')"
proof -
  have l: "1 \<le> length z" using assms(1) by (cases z) simp_all
  from assms(2) show ?thesis
  proof (cases rule: get_token_cases)
    case oper
    have "z = ''!''" if "c_at z 0 = CHR ''!''" "\<not> 2 \<le> length z"
      using that l by (cases z; cases "tl z") (auto simp: c_at_def)
    then show ?thesis using op_token_length [OF oper] l c_at_less [of z 1] by fastforce
  next
    case line
    then have "2 \<le> length z" using c_at_less [of z 1] by simp
    then show ?thesis using line(2) span_le [of 2 z "\<lambda>x. x \<noteq> CHR 0x0A"] by simp
  next
    case block
    have "comment_rest (c_at z 2) (drop 3 z) \<le> length z - 3" "2 < length z"
      using comment_rest_le [of "c_at z 2" "drop 3 z"] c_at_less [OF block(3)] by simp_all
    then have "n \<le> length z" using block(2) by arith
    then show ?thesis using block(2) by simp
  next
    case quoted
    then show ?thesis using string_rest_le [of "c_at z 0" "drop 1 z"] l by (simp add: le_diff_conv2)
  next
    case bracket
    then show ?thesis using bracket_rest_le [of "c_at z 0" "drop 1 z"] l by (simp add: le_diff_conv2)
  next
    case number
    then show ?thesis using number_token_le [OF assms(1)] by metis
  next
    case space
    then show ?thesis using span_le [OF l, of is_space] by simp
  next
    case word
    then show ?thesis using span_le [OF l, of is_id_char] by simp
  qed (use l in simp)
qed

lemma get_token_legal:
  assumes "z \<noteq> []" "get_token z = Some (t, n)" "t \<noteq> ''TK_ILLEGAL''"
  shows "0 < n" "n \<le> length z"
  using get_token_bounds [OF assms(1,2)] assms(2,3) by (auto simp: get_token_def c_at_def op_token_def)

lemma get_token_total:
  assumes "z \<noteq> []" "nul_free z" "length z < 2 ^ 31"
  shows "\<exists>t n. get_token z = Some (t, n)"
proof -
  have l: "1 \<le> length z" using assms(1) by (cases z) simp_all
  then have "\<exists>t. get_keyword_code z (span is_id_char z 1) = Some t"
    using keyword_code [of "span is_id_char z 1" z] span_le [OF l, of is_id_char] assms by simp
  then show ?thesis by (auto simp: get_token_def Let_def split: option.split)
qed

function tokens :: "cstring \<Rightarrow> (tk \<times> cstring) list" where
  "tokens z =
     (if z = [] then []
      else case get_token z of None \<Rightarrow> [] | Some (t, n) \<Rightarrow> (t, take n z) # tokens (drop n z))"
  by pat_completeness auto
termination
  by (relation "measure length") (use get_token_bounds in fastforce)+

declare tokens.simps [simp del]

lemma tokens_Nil [simp]: "tokens [] = []"
  by (simp add: tokens.simps)

lemma tokens_concat:
  "nul_free z \<Longrightarrow> length z < 2 ^ 31 \<Longrightarrow>
    concat (map snd (tokens z)) = z \<and> (\<forall>x \<in> set (tokens z). snd x \<noteq> [])"
proof (induction z rule: tokens.induct)
  case (1 z)
  show ?case
  proof (cases "z = []")
    case False
    obtain t n where g: "get_token z = Some (t, n)" using get_token_total [OF False 1(2,3)] by blast
    have d: "nul_free (drop n z)" using 1(2) by (auto simp: nul_free_def dest: in_set_dropD)
    have "concat (map snd (tokens (drop n z))) = drop n z \<and> (\<forall>x \<in> set (tokens (drop n z)). snd x \<noteq> [])"
      using 1(1) [OF False g refl d] 1(3) by simp
    moreover have "tokens z = (t, take n z) # tokens (drop n z)" using False g by (simp add: tokens.simps [of z])
    moreover have "take n z \<noteq> []" using get_token_bounds [OF False g] False by auto
    ultimately show ?thesis by simp
  qed simp
qed

section \<open>Blanks between tokens\<close>

text \<open>A place where a token may end: the end of the text or a blank.\<close>

definition ends_there :: "cstring \<Rightarrow> bool" where
  "ends_there y \<longleftrightarrow> y = [] \<or> hd y = CHR '' ''"

lemma span_unique:
  assumes "i \<le> j" "j \<le> length z" "\<And>k. i \<le> k \<Longrightarrow> k < j \<Longrightarrow> P (z ! k)" "j < length z \<Longrightarrow> \<not> P (z ! j)"
  shows "span P z i = j"
proof -
  have "takeWhile P (drop i z) = take (j - i) (drop i z)"
    using assms by (intro takeWhile_eq_take_P_nth) auto
  then show ?thesis using assms(1,2) by (simp add: span_def)
qed

lemma span_inside:
  assumes "i \<le> k" "k < span P z i"
  shows "P (z ! k)"
proof -
  have k: "k - i < length (takeWhile P (drop i z))" using assms by (simp add: span_def)
  then have "P (drop i z ! (k - i))" using nth_mem [OF k] takeWhile_nth [OF k] set_takeWhileD by metis
  moreover have "k - i < length (drop i z)" using k length_takeWhile_le less_le_trans by blast
  ultimately show ?thesis using assms(1) by simp
qed

lemma span_end: "i \<le> length z \<Longrightarrow> span P z i < length z \<Longrightarrow> \<not> P (z ! span P z i)"
  using nth_length_takeWhile [of P "drop i z"] by (simp add: span_def)

text \<open>Cutting the text behind a span, or later, and going on with something the span does not hold.\<close>

lemma span_cut:
  assumes "i \<le> span P z i" "span P z i \<le> n" "n \<le> length z" "n = span P z i \<Longrightarrow> y = [] \<or> \<not> P (hd y)"
  shows "span P (take n z @ y) i = span P z i"
proof (rule span_unique)
  fix k assume "i \<le> k" "k < span P z i"
  then show "P ((take n z @ y) ! k)" using span_inside [of i k P z] assms(2,3) by (simp add: nth_append)
next
  assume l: "span P z i < length (take n z @ y)"
  show "\<not> P ((take n z @ y) ! span P z i)"
  proof (cases "span P z i < n")
    case True
    then show ?thesis using span_end [of i z P] assms(1-3) by (simp add: nth_append)
  next
    case False
    then show ?thesis using assms(2-4) l by (cases y) (auto simp: nth_append)
  qed
qed (use assms in auto)

lemma c_at_cut: "i < n \<Longrightarrow> n \<le> length z \<Longrightarrow> c_at (take n z @ y) i = c_at z i"
  by (simp add: c_at_def nth_append)

lemma c_at_end: "n \<le> length z \<Longrightarrow> ends_there y \<Longrightarrow> c_at (take n z @ y) n = NUL \<or> c_at (take n z @ y) n = CHR '' ''"
  by (cases y) (auto simp: c_at_def ends_there_def nth_append)

lemma string_rest_cut:
  "string_rest q z < length z \<or> y = [] \<Longrightarrow> y = [] \<or> hd y \<noteq> q \<Longrightarrow>
    string_rest q (take (string_rest q z) z @ y) = string_rest q z"
proof (induction q z rule: string_rest.induct)
  case (3 q c d r)
  show ?case
  proof (cases "c = q")
    case True
    then show ?thesis using 3 by (cases y) auto
  next
    case False
    then have IH: "string_rest q (take (string_rest q (d # r)) (d # r) @ y) = string_rest q (d # r)"
      using 3 by auto
    obtain m where "string_rest q (d # r) = Suc m"
      by (cases "string_rest q (d # r)") (cases r; auto split: if_splits)+
    then show ?thesis using IH False by simp
  qed
qed (auto simp: neq_Nil_conv)

lemma bracket_rest_cut:
  "bracket_rest p z < length z \<or> y = [] \<Longrightarrow> bracket_rest p (take (bracket_rest p z) z @ y) = bracket_rest p z"
  by (induction p z rule: bracket_rest.induct) (cases y; auto)+

lemma not_digit_end: "c = NUL \<or> c = CHR '' '' \<Longrightarrow> \<not> is_digit c \<and> \<not> is_id_char c"
  by (auto simp: is_digit_def is_id_char_def char_code_def id_char_p_def)

lemma hd_end: "ends_there y \<Longrightarrow> y = [] \<or> \<not> is_digit (hd y) \<and> \<not> is_id_char (hd y)"
  using not_digit_end [of "hd y"] by (auto simp: ends_there_def)

lemma span_from: "span P z i = (if i \<le> length z then span P z i else i)"
  by (simp add: span_def)

text \<open>The parts of a number are found again when the text is cut behind the number.\<close>

lemma frac_part_cut:
  assumes "frac_part z i = (t, j)" "i \<le> j" "j \<le> n" "n \<le> length z" "ends_there y"
  shows "frac_part (take n z @ y) i = (t, j)"
proof -
  let ?w = "take n z @ y"
  note e = not_digit_end [OF c_at_end [OF assms(4,5)]] c_at_end [OF assms(4,5)]
  show ?thesis
  proof (cases "c_at z i = CHR ''.'' \<and> is_digit (c_at z (i + 1))")
    case True
    then have j: "t = ''TK_FLOAT''" "span is_digit z (i + 2) = j" using assms(1) by (simp_all add: frac_part_def)
    have "i + 2 \<le> j" using j(2) span_le [of "i + 2" z is_digit] is_digit_c_at [of z "i + 1"] True by simp
    moreover from this have "span is_digit ?w (i + 2) = j"
      using span_cut [of "i + 2" is_digit z n y] j(2) assms(3,4) hd_end [OF assms(5)] by auto
    ultimately show ?thesis
      using True j(1) c_at_cut [of i n z y] c_at_cut [of "i + 1" n z y] assms(3,4) by (simp add: frac_part_def)
  next
    case False
    then have j: "t = ''TK_INTEGER''" "j = i" using assms(1) by (simp_all add: frac_part_def split: if_splits)
    consider "i + 1 < n" | "i + 1 = n" | "i = n" using assms(3) j(2) by linarith
    then have "\<not> (c_at ?w i = CHR ''.'' \<and> is_digit (c_at ?w (i + 1)))"
      by cases (use False e c_at_cut [of i n z y] c_at_cut [of "i + 1" n z y] assms(4) in auto)
    then show ?thesis using j by (simp add: frac_part_def)
  qed
qed

lemma exp_part_cut:
  assumes "exp_part z (t', i) = (t, n)" "i \<le> length z" "n \<le> length z" "ends_there y"
  shows "exp_part (take n z @ y) (t', i) = (t, n)"
proof -
  let ?w = "take n z @ y"
  note e = c_at_end [OF assms(3,4)]
  show ?thesis
  proof (cases "exp_part z (t', i) = (t', i)")
    case True
    then have "t = t'" "i = n" using assms(1) by simp_all
    then show ?thesis using e by (auto simp: exp_part_def)
  next
    case False
    then have c: "c_at z i = CHR ''e'' \<or> c_at z i = CHR ''E''"
      "is_digit (c_at z (i + 1)) \<or> (c_at z (i + 1) = CHR ''+'' \<or> c_at z (i + 1) = CHR ''-'') \<and> is_digit (c_at z (i + 2))"
      "t = ''TK_FLOAT''" "n = span is_digit z (i + 2)" using assms(1) by (auto simp: exp_part_def split: if_splits)
    have l: "i + 2 \<le> length z" using c(2) is_digit_c_at [of z "i + 1"] is_digit_c_at [of z "i + 2"] by auto
    have n: "i + 2 \<le> n" using c(4) span_le [OF l] by simp
    have "is_digit (c_at z (i + 2)) \<Longrightarrow> i + 2 < n"
      using c(4) span_le [OF l, of is_digit] span_end [OF l, of is_digit] is_digit_c_at [of z "i + 2"] n
      by (cases "n = i + 2") (auto simp: c_at_def)
    then have "is_digit (c_at ?w (i + 1)) \<or> (c_at ?w (i + 1) = CHR ''+'' \<or> c_at ?w (i + 1) = CHR ''-'') \<and> is_digit (c_at ?w (i + 2))"
      "c_at ?w i = CHR ''e'' \<or> c_at ?w i = CHR ''E''"
      using c(1,2) n c_at_cut [OF _ assms(3), of _ y] by auto
    moreover have "span is_digit ?w (i + 2) = n"
      using span_cut [of "i + 2" is_digit z n y] c(4) n assms(3) hd_end [OF assms(4)] by auto
    ultimately show ?thesis using c(3) by (simp add: exp_part_def)
  qed
qed

lemma number_token_cut:
  assumes "z \<noteq> []" "number_token z = (t, n)" "ends_there y"
  shows "number_token (take n z @ y) = (t, n)"
proof -
  let ?i = "span is_digit z 1"
  have i: "1 \<le> ?i" "?i \<le> length z" using span_le [of 1 z is_digit] assms(1) by (cases z; simp)+
  obtain t' j where j: "frac_part z ?i = (t', j)" by fastforce
  have x: "exp_part z (t', j) = (t, n)" using assms(2) j by (simp add: number_token_def)
  have le: "?i \<le> j" "j \<le> length z" "j \<le> n" "n \<le> length z"
    using frac_part_le [OF j i(2)] exp_part_le [OF x] by auto
  have "span is_digit (take n z @ y) 1 = ?i"
    using span_cut [of 1 is_digit z n y] i le hd_end [OF assms(3)] by auto
  then show ?thesis
    using frac_part_cut [OF j le(1,3,4) assms(3)] exp_part_cut [OF x le(2,4) assms(3)] by (simp add: number_token_def)
qed

lemma not_id_char:
  "\<not> is_id_char (CHR '' '')" "\<not> is_id_char (CHR 0x09)" "\<not> is_id_char (CHR 0x0A)" "\<not> is_id_char (CHR 0x0C)"
  "\<not> is_id_char (CHR 0x0D)" "\<not> is_id_char (CHR ''-'')" "\<not> is_id_char (CHR ''/'')" "\<not> is_id_char (CHR ''='')"
  "\<not> is_id_char (CHR ''<'')" "\<not> is_id_char (CHR ''>'')" "\<not> is_id_char (CHR ''!'')" "\<not> is_id_char (CHR ''|'')"
  "\<not> is_id_char (CHR 0x27)" "\<not> is_id_char (CHR 0x22)" "\<not> is_id_char (CHR ''['')" "\<not> is_id_char (CHR ''('')"
  "\<not> is_id_char (CHR '')'')" "\<not> is_id_char (CHR '';'')" "\<not> is_id_char (CHR ''+'')" "\<not> is_id_char (CHR ''*'')"
  "\<not> is_id_char (CHR ''%'')" "\<not> is_id_char (CHR '','')" "\<not> is_id_char (CHR ''&'')" "\<not> is_id_char (CHR ''~'')"
  "\<not> is_id_char (CHR ''.'')" "\<not> is_id_char (CHR ''?'')"
  by (simp_all add: is_id_char_def id_char_p_def char_code_def)

lemma id_char_no_op: "is_id_char c \<Longrightarrow> op_token c d = None"
  using not_id_char by (auto simp: op_token_def single_token_def split: option.splits)

lemma digit_id_char: "is_digit c \<Longrightarrow> is_id_char c"
proof -
  assume "is_digit c"
  then have "char_code c \<in> {48..57}" by (auto simp: is_digit_def)
  moreover have "\<forall>i \<in> {48..57}. id_char_p ! i \<noteq> 0" by (simp add: id_char_p_def atLeastAtMost_insertL [symmetric] numeral_eq_Suc)
  ultimately show ?thesis by (simp add: is_id_char_def)
qed

text \<open>A token that is not a blank or a comment is read again when the text behind it is cut off, and also
  when a blank follows, unless it reaches the end of the text.\<close>

lemma get_token_cut:
  assumes "z \<noteq> []" "get_token z = Some (t, n)" "t \<noteq> ''TK_SPACE''" "t \<noteq> ''TK_COMMENT''" "t \<noteq> ''TK_ILLEGAL''"
    and "nul_free z" "length z < 2 ^ 31" "nul_free y" "y = [] \<or> n < length z \<and> hd y = CHR '' ''"
  shows "get_token (take n z @ y) = Some (t, n)"
proof -
  let ?w = "take n z @ y" and ?c = "c_at z 0"
  have y: "ends_there y" using assms(9) by (auto simp: ends_there_def)
  have l: "1 \<le> length z" using assms(1) by (cases z) simp_all
  note n = get_token_legal [OF assms(1,2,5)]
  note e = c_at_end [OF n(2) y]
  have c: "c_at ?w 0 = ?c" using c_at_cut [OF n] by simp
  have w: "?w = ?c # take (n - 1) (drop 1 z) @ y" using n l by (cases z; cases n) (auto simp: c_at_def)
  from assms(2) show ?thesis
  proof (cases rule: get_token_cases)
    case oper
    then have o: "op_token ?c (c_at ?w 1) = Some (t, n)"
      using op_token_length [OF oper] op_token_one [of ?c "c_at z 1" t "c_at ?w 1"] e c_at_cut [of 1 n z y] n(2) assms(5)
      by auto
    have "?c = CHR ''-'' \<or> ?c = CHR ''/'' \<Longrightarrow> n = 1"
      using oper by (auto simp: op_token_def single_token_def)
    then have "\<not> (?c = CHR ''-'' \<and> c_at ?w 1 = CHR ''-'')" "\<not> (?c = CHR ''/'' \<and> c_at ?w 1 = CHR ''*'')"
      using e by auto
    moreover have "\<not> (?c = CHR '' '' \<or> ?c = CHR 0x09 \<or> ?c = CHR 0x0A \<or> ?c = CHR 0x0C \<or> ?c = CHR 0x0D)"
      using oper by (auto simp: op_token_def single_token_def)
    ultimately show ?thesis using o c by (auto simp: get_token_def Let_def)
  next
    case quoted
    let ?r = "string_rest ?c (drop 1 z)"
    have "n - 1 = ?r" using quoted(2) by simp
    then have "string_rest ?c (take (n - 1) (drop 1 z) @ y) = ?r"
      using string_rest_cut [of ?c "drop 1 z" y] assms(9) quoted(2,3) by (auto simp: less_diff_conv)
    then show ?thesis using quoted c w
      by (auto simp: get_token_def op_token_def single_token_def)
  next
    case bracket
    let ?r = "bracket_rest ?c (drop 1 z)"
    have "n - 1 = ?r" using bracket(2) by simp
    then have "bracket_rest ?c (take (n - 1) (drop 1 z) @ y) = ?r"
      using bracket_rest_cut [of ?c "drop 1 z" y] assms(9) bracket(2) by (auto simp: less_diff_conv)
    then show ?thesis using bracket c w
      by (auto simp: get_token_def op_token_def single_token_def is_digit_def char_code_def)
  next
    case number
    have "number_token ?w = (t, n)" using number_token_cut [OF assms(1) _ y] number(1) by metis
    moreover have i: "is_id_char ?c" using number(2) digit_id_char by blast
    ultimately show ?thesis
      using number(2) c id_char_no_op [OF i] not_id_char i by (auto simp: get_token_def Let_def)
  next
    case word
    have "span is_id_char ?w 1 = n"
      using span_cut [of 1 is_id_char z n y] n word(1) hd_end [OF y] by auto
    moreover have "get_keyword_code ?w n = Some t"
      using get_keyword_code_take [of n z y] n assms(6-8) word(2) by simp
    ultimately show ?thesis
      using word(3,4) c id_char_no_op [OF word(3)] not_id_char by (auto simp: get_token_def Let_def)
  qed (use assms in auto)
qed

definition significant :: "(tk \<times> cstring) list \<Rightarrow> (tk \<times> cstring) list" where
  "significant ts = filter (\<lambda>(t, x). t \<noteq> ''TK_SPACE'' \<and> t \<noteq> ''TK_COMMENT'') ts"

lemma significant_simps [simp]:
  "significant [] = []"
  "significant ((t, x) # ts) = (if t \<noteq> ''TK_SPACE'' \<and> t \<noteq> ''TK_COMMENT'' then (t, x) # significant ts else significant ts)"
  by (simp_all add: significant_def)

fun spaced :: "cstring list \<Rightarrow> cstring" where
  "spaced [] = []"
| "spaced [x] = x"
| "spaced (x # xs) = x @ CHR '' '' # spaced xs"

lemma blank_token:
  assumes "z = [] \<or> \<not> is_space (hd z)"
  shows "significant (tokens (CHR '' '' # z)) = significant (tokens z)"
proof -
  have "span is_space (CHR '' '' # z) 1 = 1" using assms by (cases z) (auto simp: span_def)
  then have "get_token (CHR '' '' # z) = Some (''TK_SPACE'', 1)" by (simp add: get_token_def c_at_def)
  then show ?thesis by (simp add: tokens.simps [of "CHR '' '' # z"] significant_def)
qed

lemma token_start:
  assumes "z \<noteq> []" "get_token z = Some (t, n)" "t \<noteq> ''TK_SPACE''" "t \<noteq> ''TK_ILLEGAL''"
  shows "\<not> is_space (hd z)"
proof
  assume s: "is_space (hd z)"
  have c: "c_at z 0 = hd z" using assms(1) by (cases z) (simp_all add: c_at_def)
  have "char_code (hd z) \<in> {9, 10, 11, 12, 13, 32}" using s by (auto simp: is_space_def)
  then have h: "hd z \<in> {CHR 0x09, CHR 0x0A, CHR 0x0B, CHR 0x0C, CHR 0x0D, CHR '' ''}"
    using char_code_inj [of "hd z" "CHR 0x09"] char_code_inj [of "hd z" "CHR 0x0A"] char_code_inj [of "hd z" "CHR 0x0B"]
      char_code_inj [of "hd z" "CHR 0x0C"] char_code_inj [of "hd z" "CHR 0x0D"] char_code_inj [of "hd z" "CHR '' ''"]
    by (auto simp: char_code_def)
  have "\<not> is_id_char (CHR 0x0B)" "\<not> is_digit (CHR 0x0B)" by (simp_all add: is_id_char_def id_char_p_def char_code_def is_digit_def)
  then show False using assms(2-4) h c
    by (auto simp: get_token_def Let_def op_token_def single_token_def)
qed

text \<open>The texts of the tokens that matter, read again with blanks between them.\<close>

lemma respaced:
  assumes "nul_free z" "length z < 2 ^ 31" "''TK_ILLEGAL'' \<notin> fst ` set (tokens z)"
  defines "q \<equiv> spaced (map snd (significant (tokens z)))"
  shows "significant (tokens q) = significant (tokens z) \<and> nul_free q \<and> (q = [] \<or> \<not> is_space (hd q)) \<and> (q = [] \<longleftrightarrow> significant (tokens z) = [])"
  using assms(1-3) unfolding q_def
proof (induction z rule: tokens.induct)
  case (1 z)
  show ?case
  proof (cases "z = []")
    case True
    then show ?thesis by (simp add: significant_def)
  next
    case False
    obtain t n where g: "get_token z = Some (t, n)" using get_token_total [OF False 1(2,3)] by blast
    have T: "tokens z = (t, take n z) # tokens (drop n z)" using False g by (simp add: tokens.simps [of z])
    have ill: "t \<noteq> ''TK_ILLEGAL''" using 1(4) T by auto
    note b = get_token_legal [OF False g ill]
    have d: "nul_free (drop n z)" "nul_free (take n z)"
      using 1(2) by (auto simp: nul_free_def dest: in_set_dropD in_set_takeD)
    let ?r = "spaced (map snd (significant (tokens (drop n z))))"
    have IH: "significant (tokens ?r) = significant (tokens (drop n z)) \<and> nul_free ?r \<and> (?r = [] \<or> \<not> is_space (hd ?r))
      \<and> (?r = [] \<longleftrightarrow> significant (tokens (drop n z)) = [])"
      by (rule 1(1) [OF False g refl d(1)]) (use 1(3,4) T in simp_all)
    show ?thesis
    proof (cases "t = ''TK_SPACE'' \<or> t = ''TK_COMMENT''")
      case True
      then have "significant (tokens z) = significant (tokens (drop n z))" using T by (auto simp: significant_def)
      then show ?thesis using IH by auto
    next
      case False': False
      then have S: "significant (tokens z) = (t, take n z) # significant (tokens (drop n z))"
        using T by (simp add: significant_def)
      let ?y = "if ?r = [] then [] else CHR '' '' # ?r"
      have q: "spaced (map snd (significant (tokens z))) = take n z @ ?y"
        using S IH by (cases "significant (tokens (drop n z))") auto
      have y: "?y = [] \<or> n < length z \<and> hd ?y = CHR '' ''"
        using IH b by (cases "n < length z") auto
      have "get_token (take n z @ ?y) = Some (t, n)"
        using get_token_cut [OF False g _ _ ill 1(2,3) _ y] False' IH by auto
      moreover have ne: "take n z @ ?y \<noteq> []" using b by auto
      ultimately have "tokens (take n z @ ?y) = (t, take n z) # tokens ?y"
        using b by (simp add: tokens.simps [of "take n z @ ?y"])
      moreover have "significant (tokens ?y) = significant (tokens (drop n z))"
        using IH blank_token [of ?r] by auto
      ultimately have "significant (tokens (take n z @ ?y)) = significant (tokens z)"
        using S False' by (simp add: significant_def)
      moreover have "hd (take n z @ ?y) = hd z" using b False by (cases z; cases n) auto
      moreover have "\<not> is_space (hd z)" using token_start [OF False g _ ill] False' by auto
      ultimately show ?thesis using q S IH d(2) ne b by auto
    qed
  qed
qed

text \<open>C21: the tokens of a text, put one behind the other, are the text, and none is empty; and when their
  texts, without the blanks and comments, are written again with one blank between them, the same
  tokens are read, whatever stood next to each other before.\<close>

theorem tokens_respaced:
  assumes "nul_free z" "length z < 2 ^ 31"
  shows "concat (map snd (tokens z)) = z \<and> (\<forall>x \<in> set (tokens z). snd x \<noteq> [])
    \<and> (''TK_ILLEGAL'' \<notin> fst ` set (tokens z) \<longrightarrow>
        significant (tokens (spaced (map snd (significant (tokens z))))) = significant (tokens z))"
  using tokens_concat [OF assms] respaced [OF assms] by blast

theorem tokens_respaced_witness:
  "map snd (tokens ''1+a'') = [''1'', ''+'', ''a''] \<and> concat (map snd (tokens ''1+a'')) = ''1+a''"
proof -
  have k: "get_keyword_code ''a'' 1 = Some ''TK_ID''"
    using keyword_code [of 1 "''a''"] by (simp add: folded_table_def sql_tokens_table_def lower_eq char_code_def)
  have "is_digit (CHR ''1'')" "\<not> is_digit (CHR ''+'')" "\<not> is_digit (CHR ''a'')" "is_id_char (CHR ''a'')"
    by (simp_all add: is_digit_def is_id_char_def id_char_p_def char_code_def)
  then have "map snd (tokens ''1+a'') = [''1'', ''+'', ''a'']"
    using k by (simp add: tokens.simps [of "''1+a''"] tokens.simps [of "''+a''"] tokens.simps [of "''a''"]
        get_token_def c_at_def Let_def op_token_def single_token_def number_token_def frac_part_def exp_part_def span_def)
  moreover have "concat (map snd (tokens ''1+a'')) = ''1+a''" using tokens_respaced [of "''1+a''"] by simp
  ultimately show ?thesis by blast
qed

section \<open>What the parser is given\<close>

definition feed_all :: "(tk \<Rightarrow> cstring \<Rightarrow> 'e \<Rightarrow> 'e) \<Rightarrow> 'e \<Rightarrow> (tk \<times> cstring) list \<Rightarrow> 'e" where
  "feed_all step e ts = foldl (\<lambda>e (t, x). step t x e) e ts"

lemma feed_all_simps [simp]:
  "feed_all step e [] = e" "feed_all step e ((t, x) # ts) = feed_all step (step t x e) ts"
  "feed_all step e (as @ bs) = feed_all step (feed_all step e as) bs"
  by (simp_all add: feed_all_def)

definition last_text :: "cstring \<Rightarrow> (tk \<times> cstring) list \<Rightarrow> cstring" where
  "last_text x ts = (if ts = [] then x else snd (last ts))"

definition last_type :: "tk \<Rightarrow> (tk \<times> cstring) list \<Rightarrow> tk" where
  "last_type t ts = (if ts = [] then t else fst (last ts))"

lemma last_simps [simp]:
  "last_text x [] = x" "last_text x ((t, y) # ts) = last_text y ts"
  "last_type t [] = t" "last_type t ((u, y) # ts) = last_type u ts"
  by (simp_all add: last_text_def last_type_def)

text \<open>The parser as a step function on its engine alone.\<close>

definition pure_feed :: "'e penv \<Rightarrow> (tk \<Rightarrow> cstring \<Rightarrow> 'e \<Rightarrow> 'e) \<Rightarrow> bool" where
  "pure_feed E step \<longleftrightarrow> (\<forall>t x p. feed E t x p = p\<lparr>engine := step t x (engine p)\<rparr>)"

lemma parse_loop_legal:
  assumes "pure_feed E step" "nul_free sql" "length sql < 2 ^ 31" "\<forall>i. \<not> pinterrupt E i"
    and "place s \<le> length sql" "prc (parser s) = DBSQL_SUCCESS"
    and "''TK_ILLEGAL'' \<notin> fst ` set (tokens (drop (place s) sql))"
  defines "ts \<equiv> tokens (drop (place s) sql)"
  shows "\<exists>k. parse_loop E sql s = Some (s\<lparr>place := length sql, last_token := last_type (last_token s) (significant ts),
    parser := (parser s)\<lparr>engine := feed_all step (engine (parser s)) (significant ts),
      sLastToken := last_text (sLastToken (parser s)) ts, zTail := k\<rparr>\<rparr>)"
  using assms(5-7) unfolding ts_def
proof (induction "length sql - place s" arbitrary: s rule: less_induct)
  case less
  let ?z = "drop (place s) sql"
  show ?case
  proof (cases "place s = length sql")
    case True
    then show ?thesis
      using less.prems(2) by (intro exI [of _ "zTail (parser s)"]) (simp add: parse_loop.simps [of E sql s])
  next
    case False
    then have l: "place s < length sql" "?z \<noteq> []" using less.prems(1) by simp_all
    have nf: "nul_free ?z" using assms(2) by (auto simp: nul_free_def dest: in_set_dropD)
    have "length ?z < 2 ^ 31" using assms(3) unfolding length_drop by (rule less_imp_diff_less)
    then obtain t n where g: "get_token ?z = Some (t, n)" using get_token_total [OF l(2) nf] by blast
    have T: "tokens ?z = (t, take n ?z) # tokens (drop (place s + n) sql)"
      using l(2) g by (simp add: tokens.simps [of ?z] add.commute)
    have ill: "t \<noteq> ''TK_ILLEGAL''" using less.prems(3) T by auto
    have b: "0 < n" "place s + n \<le> length sql"
      using get_token_legal [OF l(2) g ill] l(1) by simp_all
    have dec: "length sql - (place s + n) < length sql - place s" using l(1) b(1) by simp
    let ?s = "s\<lparr>parser := (parser s)\<lparr>sLastToken := take n ?z\<rparr>, place := place s + n\<rparr>"
    show ?thesis
    proof (cases "t = ''TK_SPACE'' \<or> t = ''TK_COMMENT''")
      case True
      have "parse_token E sql s = Some (Again ?s)"
        using g True assms(4) by (auto simp: parse_token_def)
      moreover obtain k where "parse_loop E sql ?s = Some (?s\<lparr>place := length sql,
          last_token := last_type (last_token ?s) (significant (tokens (drop (place ?s) sql))),
          parser := (parser ?s)\<lparr>engine := feed_all step (engine (parser ?s)) (significant (tokens (drop (place ?s) sql))),
          sLastToken := last_text (sLastToken (parser ?s)) (tokens (drop (place ?s) sql)), zTail := k\<rparr>\<rparr>)"
        using less.hyps [of ?s] less.prems dec b T by auto
      ultimately show ?thesis
        using l T True less.prems(2) by (intro exI [of _ k]) (auto simp: parse_loop.simps [of E sql s])
    next
      case False
      let ?u = "?s\<lparr>parser := (parser ?s)\<lparr>engine := step t (take n ?z) (engine (parser s)),
          zTail := if t = ''TK_SEMI'' then place s + n else zTail (parser s)\<rparr>, last_token := t\<rparr>"
      have "parse_token E sql s = Some (Again ?u)"
        using g False ill assms(1) less.prems(2) by (auto simp: parse_token_def pure_feed_def Let_def)
      moreover obtain k where "parse_loop E sql ?u = Some (?u\<lparr>place := length sql,
          last_token := last_type (last_token ?u) (significant (tokens (drop (place ?u) sql))),
          parser := (parser ?u)\<lparr>engine := feed_all step (engine (parser ?u)) (significant (tokens (drop (place ?u) sql))),
          sLastToken := last_text (sLastToken (parser ?u)) (tokens (drop (place ?u) sql)), zTail := k\<rparr>\<rparr>)"
        using less.hyps [of ?u] less.prems dec b T by auto
      ultimately show ?thesis
        using l T False less.prems(2) by (intro exI [of _ k]) (auto simp: parse_loop.simps [of E sql s])
    qed
  qed
qed

text \<open>What follows the last token: a semicolon, unless there is one, and the end of the text.\<close>

definition closing :: "cstring \<Rightarrow> (tk \<times> cstring) list \<Rightarrow> (tk \<times> cstring) list" where
  "closing x ts =
     (if last_type [] (significant ts) = ''TK_SEMI'' then [] else [(''TK_SEMI'', last_text x ts)])
     @ [(''$'', last_text x ts)]"



end
