(* ===== verification/CompleteProps.thy ===== *)
theory CompleteProps
  imports Token "HOL-Library.Sublist"
begin

text \<open>
  The test \<^verbatim>\<open>dbsql_complete_stmt\<close> decides whether a text is a sequence of complete statements: the
  automaton of the code against a grammar of its tokens.
\<close>

section \<open>The tokens the automaton reads\<close>

text \<open>\<open>None\<close> is a read behind the table of characters, \<open>Some None\<close> a text that ends inside a comment, a
  name or a string.  A comment up to the end of the last line ends the text like white space.\<close>

definition comment_to_end :: "cstring \<Rightarrow> bool" where
  "comment_to_end sql \<longleftrightarrow> c_at sql 0 = CHR ''-'' \<and> c_at sql 1 = CHR ''-'' \<and> CHR 0x0A \<notin> set sql"

function ctokens :: "cstring \<Rightarrow> ctoken list option option" where
  "ctokens sql =
     (if sql = [] \<or> comment_to_end sql then Some (Some [])
      else case complete_step 1 sql of
             None \<Rightarrow> None
           | Some (Answer b) \<Rightarrow> Some None
           | Some (Next t r) \<Rightarrow> map_option (map_option ((#) t)) (ctokens r))"
  by pat_completeness auto
termination
  by (relation "measure length") (auto dest: complete_step_length)

declare ctokens.simps [simp del]

definition delta :: "nat \<Rightarrow> ctoken \<Rightarrow> nat" where
  "delta q t = trans_table ! q ! ctoken_code t"

lemma complete_step_comment:
  assumes "comment_to_end sql"
  shows "complete_step q sql = Some (Answer (q = 0))"
proof -
  have "dropWhile (\<lambda>x. x \<noteq> CHR 0x0A) sql = []" using assms by (auto simp: comment_to_end_def dropWhile_eq_Nil_conv)
  then show ?thesis using assms by (simp add: complete_step_def comment_to_end_def del: dropWhile_eq_Nil_conv)
qed

lemma complete_step_state:
  assumes "\<not> comment_to_end sql"
  shows "complete_step q sql = complete_step 1 sql" "complete_step q sql \<noteq> Some (Answer True)"
proof -
  have d: "dropWhile (\<lambda>x. x \<noteq> CHR 0x0A) sql \<noteq> []" if "c_at sql 0 = CHR ''-''" "c_at sql 1 = CHR ''-''"
    using assms that by (auto simp: comment_to_end_def dropWhile_eq_Nil_conv)
  show "complete_step q sql = complete_step 1 sql"
    using d by (auto simp: complete_step_def Let_def split: list.split)
  show "complete_step q sql \<noteq> Some (Answer True)"
    using d by (auto simp: complete_step_def Let_def split: list.split option.split bind_splits)
qed

lemma complete_loop_ctokens:
  "complete_loop q sql =
    (case ctokens sql of None \<Rightarrow> None | Some None \<Rightarrow> Some False | Some (Some ts) \<Rightarrow> Some (foldl delta q ts = 0))"
proof (induction sql arbitrary: q rule: ctokens.induct)
  case (1 sql)
  show ?case
  proof (cases "sql = [] \<or> comment_to_end sql")
    case True
    then show ?thesis
      by (auto simp: complete_loop.simps [of q sql] ctokens.simps [of sql] complete_step_comment)
  next
    case False
    then have s: "sql \<noteq> []" "\<not> comment_to_end sql" by simp_all
    note S = complete_step_state [OF s(2), of q]
    show ?thesis
    proof (cases "complete_step 1 sql")
      case None
      then show ?thesis using S False by (simp add: complete_loop.simps [of q sql] ctokens.simps [of sql])
    next
      case (Some x)
      show ?thesis
      proof (cases x)
        case (Answer b)
        then show ?thesis
          using S Some False by (simp add: complete_loop.simps [of q sql] ctokens.simps [of sql])
      next
        case (Next t r)
        then show ?thesis
          using 1 [OF False Some Next, of "delta q t"] S Some False
          by (auto simp: complete_loop.simps [of q sql] ctokens.simps [of sql] delta_def split: option.split)
      qed
    qed
  qed
qed

section \<open>Statements\<close>

text \<open>The head of a trigger definition, and the two forms of a statement: one that is closed by its first
  semicolon, and a trigger, closed by the first semicolon, END, semicolon.  White space is left out.\<close>

definition trigger_head :: "ctoken list \<Rightarrow> bool" where
  "trigger_head w \<longleftrightarrow> (\<exists>e n. e \<in> {[], [tkEXPLAIN]} \<and> w = e @ [tkCREATE] @ replicate n tkTEMP @ [tkTRIGGER])"

definition closes :: "ctoken list" where
  "closes = [tkSEMI, tkEND, tkSEMI]"

inductive statement :: "ctoken list \<Rightarrow> bool" where
  plain: "tkSEMI \<notin> set w \<Longrightarrow> \<not> (\<exists>h b. trigger_head h \<and> w = h @ b) \<Longrightarrow> statement (w @ [tkSEMI])"
| trigger: "trigger_head h \<Longrightarrow> \<not> (\<exists>xs ys. b @ [tkSEMI, tkEND] = xs @ closes @ ys) \<Longrightarrow> statement (h @ b @ closes)"

inductive statements :: "ctoken list \<Rightarrow> bool" where
  none: "statements []"
| more: "statement w \<Longrightarrow> statements ws \<Longrightarrow> statements (w @ ws)"

section \<open>The automaton decides the grammar\<close>

lemma delta_table [simp]:
  "delta 0 t = (case t of tkEXPLAIN \<Rightarrow> 1 | tkCREATE \<Rightarrow> 2 | tkSEMI \<Rightarrow> 0 | tkWS \<Rightarrow> 0 | _ \<Rightarrow> 3)"
  "delta 1 t = (case t of tkCREATE \<Rightarrow> 2 | tkSEMI \<Rightarrow> 0 | tkWS \<Rightarrow> 1 | _ \<Rightarrow> 3)"
  "delta (Suc 0) t = (case t of tkCREATE \<Rightarrow> 2 | tkSEMI \<Rightarrow> 0 | tkWS \<Rightarrow> 1 | _ \<Rightarrow> 3)"
  "delta 2 t = (case t of tkTEMP \<Rightarrow> 2 | tkTRIGGER \<Rightarrow> 4 | tkSEMI \<Rightarrow> 0 | tkWS \<Rightarrow> 2 | _ \<Rightarrow> 3)"
  "delta 3 t = (case t of tkSEMI \<Rightarrow> 0 | _ \<Rightarrow> 3)"
  "delta 4 t = (case t of tkSEMI \<Rightarrow> 5 | _ \<Rightarrow> 4)"
  "delta 5 t = (case t of tkEND \<Rightarrow> 6 | tkSEMI \<Rightarrow> 5 | tkWS \<Rightarrow> 5 | _ \<Rightarrow> 4)"
  "delta 6 t = (case t of tkSEMI \<Rightarrow> 0 | tkWS \<Rightarrow> 6 | _ \<Rightarrow> 4)"
  by (cases t; simp add: delta_def trans_table_def numeral_eq_Suc)+

lemma delta_range: "q < 7 \<Longrightarrow> delta q t < 7"
  by (cases t) (auto simp: delta_def trans_table_def less_Suc_eq numeral_eq_Suc)

lemma delta_WS: "q < 7 \<Longrightarrow> delta q tkWS = q"
  by (auto simp: delta_def trans_table_def less_Suc_eq numeral_eq_Suc)

definition solid :: "ctoken list \<Rightarrow> ctoken list" where
  "solid ts = filter (\<lambda>t. t \<noteq> tkWS) ts"

lemma foldl_solid: "q < 7 \<Longrightarrow> foldl delta q ts = foldl delta q (solid ts)"
  by (induction ts arbitrary: q) (auto simp: solid_def delta_WS delta_range)

definition has_factor :: "ctoken list \<Rightarrow> bool" where
  "has_factor b \<longleftrightarrow> (\<exists>xs ys. b = xs @ closes @ ys)"

lemma factor_snoc: "has_factor b \<Longrightarrow> has_factor (b @ [t])"
  unfolding has_factor_def by (metis append.assoc)

lemma trigger_state:
  assumes "\<not> has_factor b" "tkWS \<notin> set b"
  shows "foldl delta 4 b = (if suffix [tkSEMI, tkEND] b then 6 else if suffix [tkSEMI] b then 5 else 4)"
  using assms
proof (induction b rule: rev_induct)
  case (snoc t b)
  have IH: "foldl delta 4 b = (if suffix [tkSEMI, tkEND] b then 6 else if suffix [tkSEMI] b then 5 else 4)"
  proof (rule snoc.IH)
    show "\<not> has_factor b" using snoc.prems(1) factor_snoc by blast
  qed (use snoc.prems(2) in simp)
  have "t = tkSEMI \<Longrightarrow> \<not> suffix [tkSEMI, tkEND] b"
    using snoc.prems(1) unfolding has_factor_def closes_def suffix_def by fastforce
  moreover have "suffix [tkSEMI, tkEND] (b @ [t]) \<longleftrightarrow> t = tkEND \<and> suffix [tkSEMI] b" "suffix [tkSEMI] (b @ [t]) \<longleftrightarrow> t = tkSEMI"
    using snoc_suffix_snoc [of "[tkSEMI]" tkEND b t] snoc_suffix_snoc [of "[]" tkSEMI b t] by auto
  moreover have "suffix [tkSEMI, tkEND] b \<Longrightarrow> \<not> suffix [tkSEMI] b"
    by (auto simp: suffix_def)
  ultimately show ?case using IH snoc.prems(2) by (auto split: ctoken.split)
qed simp

lemma head_state: "trigger_head h \<Longrightarrow> foldl delta 0 h = 4"
proof -
  have "foldl delta 2 (replicate n tkTEMP) = 2" for n by (induction n) simp_all
  then show "trigger_head h \<Longrightarrow> foldl delta 0 h = 4" by (auto simp: trigger_head_def)
qed

text \<open>Before the first semicolon a statement that is not a trigger is in one of the states 0 to 3.\<close>

lemma plain_state:
  assumes "tkSEMI \<notin> set w" "tkWS \<notin> set w" "\<not> (\<exists>h b. trigger_head h \<and> w = h @ b)"
  shows "foldl delta 0 w = 0 \<and> w = [] \<or> foldl delta 0 w = 1 \<and> w = [tkEXPLAIN]
    \<or> foldl delta 0 w = 2 \<and> (\<exists>e n. e \<in> {[], [tkEXPLAIN]} \<and> w = e @ [tkCREATE] @ replicate n tkTEMP)
    \<or> foldl delta 0 w = 3 \<and> w \<noteq> []"
  using assms
proof (induction w rule: rev_induct)
  case (snoc t w)
  have p: "\<not> (\<exists>h b. trigger_head h \<and> w = h @ b)" using snoc.prems(3) by auto
  have nt: "\<not> trigger_head (w @ [t])" using snoc.prems(3) by (metis append_Nil2)
  have "tkSEMI \<notin> set w" "tkWS \<notin> set w" using snoc.prems(1,2) by simp_all
  from snoc.IH [OF this p] consider "w = []" | "foldl delta 0 w = 1" "w = [tkEXPLAIN]"
    | e n where "foldl delta 0 w = 2" "e \<in> {[], [tkEXPLAIN]}" "w = e @ [tkCREATE] @ replicate n tkTEMP"
    | "foldl delta 0 w = 3" by blast
  then show ?case
  proof cases
    case 1
    then show ?thesis using snoc.prems by (cases t) (auto intro: exI [of _ 0])
  next
    case 2
    then show ?thesis using snoc.prems by (cases t) (auto intro: exI [of _ 0])
  next
    case (3 e n)
    have "t \<noteq> tkTRIGGER" using nt 3 unfolding trigger_head_def by auto
    moreover have "t = tkTEMP \<Longrightarrow> w @ [t] = e @ [tkCREATE] @ replicate (Suc n) tkTEMP"
      using 3(3) by (simp add: replicate_append_same)
    ultimately consider "foldl delta 0 (w @ [t]) = 3" | "foldl delta 0 (w @ [t]) = 2" "w @ [t] = e @ [tkCREATE] @ replicate (Suc n) tkTEMP"
      using 3(1) snoc.prems by (cases t) simp_all
    then show ?thesis using 3(2) by cases (simp, blast)
  next
    case 4
    then show ?thesis using snoc.prems by (cases t) auto
  qed
qed simp

lemma statement_accepted: "statement w \<Longrightarrow> tkWS \<notin> set w \<Longrightarrow> foldl delta 0 w = 0"
proof (induction rule: statement.induct)
  case (plain w)
  then show ?case using plain_state [of w] by auto
next
  case (trigger h b)
  have "\<not> has_factor (b @ [tkSEMI, tkEND])" using trigger.hyps(2) by (simp add: has_factor_def)
  then have "foldl delta 4 (b @ [tkSEMI, tkEND]) = 6"
    using trigger_state [of "b @ [tkSEMI, tkEND]"] trigger.prems suffixI [of "b @ [tkSEMI, tkEND]" b "[tkSEMI, tkEND]"]
    by (simp del: foldl_append)
  then show ?case using head_state [OF trigger.hyps(1)] by (simp add: closes_def)
qed

lemma statements_accepted: "statements ws \<Longrightarrow> tkWS \<notin> set ws \<Longrightarrow> foldl delta 0 ws = 0"
  by (induction rule: statements.induct) (simp_all add: statement_accepted)

lemma first_factor:
  assumes "has_factor b"
  obtains xs ys where "b = xs @ closes @ ys" "\<not> has_factor (xs @ [tkSEMI, tkEND])"
proof -
  let ?P = "\<lambda>n. \<exists>xs ys. length xs = n \<and> b = xs @ closes @ ys"
  have ex: "\<exists>n. ?P n" using assms by (auto simp: has_factor_def)
  obtain xs ys where x: "length xs = (LEAST n. ?P n)" "b = xs @ closes @ ys" using LeastI_ex [OF ex] by blast
  have "\<not> has_factor (xs @ [tkSEMI, tkEND])"
  proof
    assume "has_factor (xs @ [tkSEMI, tkEND])"
    then obtain us vs where u: "xs @ [tkSEMI, tkEND] = us @ closes @ vs" by (auto simp: has_factor_def)
    then have "b = us @ closes @ (vs @ [tkSEMI] @ ys)" using x(2)
      by (metis append.assoc append_Cons append_Nil closes_def)
    then have "(LEAST n. ?P n) \<le> length us" by (intro Least_le) blast
    moreover have "length us < length xs" using arg_cong [OF u, of length] by (simp add: closes_def)
    ultimately show False using x(1) by simp
  qed
  then show ?thesis using that x(2) by blast
qed

lemma accepted_statements:
  "tkWS \<notin> set ts \<Longrightarrow> foldl delta 0 ts = 0 \<Longrightarrow> statements ts"
proof (induction "length ts" arbitrary: ts rule: less_induct)
  case less
  show ?case
  proof (cases "\<exists>h b. trigger_head h \<and> ts = h @ b")
    case True
    then obtain h b where h: "trigger_head h" "ts = h @ b" by blast
    have z: "foldl delta 4 b = 0" using less.prems(2) h head_state by simp
    have "has_factor b"
    proof (rule ccontr)
      assume "\<not> has_factor b"
      then show False using trigger_state [of b] z less.prems(1) h(2) by (auto split: if_splits)
    qed
    then obtain xs ys where x: "b = xs @ closes @ ys" "\<not> has_factor (xs @ [tkSEMI, tkEND])" using first_factor by blast
    have st: "statement (h @ xs @ closes)" using statement.trigger [OF h(1)] x(2) by (simp add: has_factor_def)
    have "tkWS \<notin> set (h @ xs @ closes)" using less.prems(1) h(2) x(1) by simp
    then have "foldl delta 0 (h @ xs @ closes) = 0" using statement_accepted [OF st] by blast
    then have "statements ys" using less.hyps [of ys] less.prems h(2) x(1) by (simp add: closes_def)
    then show ?thesis using statements.more [OF st] h(2) x(1) by simp
  next
    case False
    show ?thesis
    proof (cases "tkSEMI \<in> set ts")
      case True
      then obtain w r where w: "ts = w @ tkSEMI # r" "tkSEMI \<notin> set w" by (metis split_list_first)
      have np: "\<not> (\<exists>h b. trigger_head h \<and> w = h @ b)" using False w(1) by auto
      note st = statement.plain [OF w(2) np]
      have "tkWS \<notin> set (w @ [tkSEMI])" using less.prems(1) w(1) by simp
      then have "foldl delta 0 (w @ [tkSEMI]) = 0" using statement_accepted [OF st] by blast
      then have "statements r" using less.hyps [of r] less.prems w(1) by simp
      then show ?thesis using statements.more [OF st] w(1) by simp
    next
      case no: False
      then have "ts = []" using plain_state [OF no less.prems(1) False] less.prems(2) by auto
      then show ?thesis by (simp add: statements.none)
    qed
  qed
qed

text \<open>C20: a text is complete exactly when its tokens, apart from white space and comments, are a
  sequence of complete statements: each ends at its first semicolon, except a trigger definition,
  which ends at the first semicolon, END, semicolon.  A text that ends inside a comment, a quoted
  name or a string is not complete.\<close>

theorem complete_stmt_grammar:
  "dbsql_complete_stmt sql = Some True \<longleftrightarrow> (\<exists>ts. ctokens sql = Some (Some ts) \<and> statements (solid ts))"
proof -
  have "foldl delta 0 ts = 0 \<longleftrightarrow> statements (solid ts)" for ts
    using foldl_solid [of 0 ts] statements_accepted [of "solid ts"] accepted_statements [of "solid ts"]
    by (auto simp: solid_def)
  then show ?thesis
    by (auto simp: dbsql_complete_stmt_def complete_loop_ctokens split: option.splits)
qed

end
