(* ===== verification/Expr.thy ===== *)
theory Expr
  imports Hash Program "HOL-Library.Monad_Syntax"
begin

text \<open>
  Expression trees and the routines of \<^verbatim>\<open>src/cg_expr.c\<close> that inspect them: constants, types, the
  table of functions, the check of function calls, the comparison of trees and the collection of
  aggregates.  A node has the fields of \<^verbatim>\<open>struct expr\<close> these routines use.  The text of a token is the
  bytes it covers; of a sub-select only the result columns matter here.
\<close>

section \<open>Trees\<close>

datatype expr =
  Expr (eop: tk) (dataType: int) (pLeft: "expr option") (pRight: "expr option") (exprs: "expr list option")
    (etoken: "cstring option") (iTable: int) (iColumn: int) (iAgg: int) (pSelect: "expr list option")

definition SO_TEXT :: int where "SO_TEXT = 2"
definition SO_NUM :: int where "SO_NUM = 4"

definition set_op :: "tk \<Rightarrow> expr \<Rightarrow> expr" where
  "set_op t e = (case e of Expr op d l r es tok it ic ia sel \<Rightarrow> Expr t d l r es tok it ic ia sel)"

definition set_dataType :: "int \<Rightarrow> expr \<Rightarrow> expr" where
  "set_dataType n e = (case e of Expr op d l r es tok it ic ia sel \<Rightarrow> Expr op n l r es tok it ic ia sel)"

definition set_token :: "cstring \<Rightarrow> expr \<Rightarrow> expr" where
  "set_token z e = (case e of Expr op d l r es tok it ic ia sel \<Rightarrow> Expr op d l r es (Some z) it ic ia sel)"

definition set_iAgg :: "int \<Rightarrow> expr \<Rightarrow> expr" where
  "set_iAgg n e = (case e of Expr op d l r es tok it ic ia sel \<Rightarrow> Expr op d l r es tok it ic n sel)"

text \<open>The number of expressions of a list that may be missing.\<close>

definition nExpr :: "expr list option \<Rightarrow> nat" where
  "nExpr es = (case es of None \<Rightarrow> 0 | Some xs \<Rightarrow> length xs)"

section \<open>Constants\<close>

fun expr_is_constant :: "expr \<Rightarrow> bool" and opt_is_constant :: "expr option \<Rightarrow> bool"
  and all_constant :: "expr list \<Rightarrow> bool" where
  "expr_is_constant (Expr op d l r es tok it ic ia sel) =
     (if op \<in> {''TK_ID'', ''TK_COLUMN'', ''TK_DOT'', ''TK_FUNCTION''} then False
      else if op \<in> {''TK_NULL'', ''TK_STRING'', ''TK_INTEGER'', ''TK_FLOAT'', ''TK_VARIABLE''} then True
      else if \<not> opt_is_constant l then False
      else if \<not> opt_is_constant r then False
      else if \<not> (case es of None \<Rightarrow> True | Some xs \<Rightarrow> all_constant xs) then False
      else l \<noteq> None \<or> r \<noteq> None \<or> nExpr es > 0)"
| "opt_is_constant None = True"
| "opt_is_constant (Some e) = expr_is_constant e"
| "all_constant [] = True"
| "all_constant (x # xs) = (expr_is_constant x \<and> all_constant xs)"

text \<open>\<^verbatim>\<open>atoi\<close> of the C library, on a text whose number fits.\<close>

definition atoi :: "cstring \<Rightarrow> i32" where
  "atoi z =
     (let v = of_nat (foldl (\<lambda>v c. v * 10 + digit_val c) 0 (takeWhile is_digit (skip_sign z)))
      in if c_at z 0 = CHR ''-'' then - v else v)"

text \<open>\<open>None\<close> is a null pointer that is followed, \<open>Some None\<close> the answer no.\<close>

fun expr_is_integer :: "expr \<Rightarrow> i32 option option" where
  "expr_is_integer (Expr op d l r es tok it ic ia sel) =
     (if op = ''TK_INTEGER'' then
        (case tok of None \<Rightarrow> None | Some z \<Rightarrow> Some (if str_int_in32b z then Some (atoi z) else None))
      else if op = ''TK_STRING'' then
        (case tok of None \<Rightarrow> None
         | Some z \<Rightarrow>
             (let rest = dropWhile is_digit (if c_at z 0 = CHR ''-'' then tl z else z)
              in Some (if rest = [] \<and> str_int_in32b z then Some (atoi z) else None)))
      else if op = ''TK_UPLUS'' then (case l of None \<Rightarrow> None | Some e \<Rightarrow> expr_is_integer e)
      else if op = ''TK_UMINUS'' then
        (case l of None \<Rightarrow> None | Some e \<Rightarrow> map_option (map_option uminus) (expr_is_integer e))
      else Some None)"

definition is_row_id :: "cstring \<Rightarrow> bool" where
  "is_row_id z \<longleftrightarrow> strcasecmp z ''_ROWID_'' = 0 \<or> strcasecmp z ''ROWID'' = 0 \<or> strcasecmp z ''OID'' = 0"

section \<open>Types\<close>

text \<open>Whether an expression sorts as a number or as text; \<open>None\<close> is a failed assertion.  A missing
  expression is a number.\<close>

definition num_ops :: "tk list" where
  "num_ops = [''TK_PLUS'', ''TK_MINUS'', ''TK_STAR'', ''TK_SLASH'', ''TK_AND'', ''TK_OR'', ''TK_ISNULL'', ''TK_NOTNULL'',
     ''TK_NOT'', ''TK_UMINUS'', ''TK_UPLUS'', ''TK_BITAND'', ''TK_BITOR'', ''TK_BITNOT'', ''TK_LSHIFT'', ''TK_RSHIFT'',
     ''TK_REM'', ''TK_INTEGER'', ''TK_FLOAT'', ''TK_IN'', ''TK_BETWEEN'', ''TK_GLOB'', ''TK_LIKE'']"

definition cmp_ops :: "tk list" where
  "cmp_ops = [''TK_LT'', ''TK_LE'', ''TK_GT'', ''TK_GE'', ''TK_NE'', ''TK_EQ'']"

fun expr_type :: "expr \<Rightarrow> int option" and opt_type :: "expr option \<Rightarrow> int option"
  and any_numeric :: "expr list \<Rightarrow> bool option" where
  "expr_type (Expr op d l r es tok it ic ia sel) =
     (if op \<in> set num_ops then Some SO_NUM
      else if op \<in> {''TK_STRING'', ''TK_NULL'', ''TK_CONCAT'', ''TK_VARIABLE''} then Some SO_TEXT
      else if op \<in> set cmp_ops then
        do { t \<leftarrow> opt_type l; if t = SO_NUM then Some SO_NUM else opt_type r }
      else if op = ''TK_AS'' then opt_type l
      else if op \<in> {''TK_COLUMN'', ''TK_FUNCTION'', ''TK_AGG_FUNCTION''} then Some d
      else if op = ''TK_SELECT'' then
        (case sel of Some (x # xs) \<Rightarrow> expr_type x | _ \<Rightarrow> None)
      else if op = ''TK_CASE'' then
        do { b \<leftarrow> (case r of None \<Rightarrow> Some False | Some e \<Rightarrow> do { t \<leftarrow> expr_type e; Some (t = SO_NUM) });
             if b then Some SO_NUM
             else do { b \<leftarrow> (case es of None \<Rightarrow> Some False | Some xs \<Rightarrow> any_numeric xs);
                       Some (if b then SO_NUM else SO_TEXT) } }
      else None)"
| "opt_type None = Some SO_NUM"
| "opt_type (Some e) = expr_type e"
| "any_numeric (w # t # xs) =
     do { n \<leftarrow> expr_type t; if n = SO_NUM then Some True else any_numeric xs }"
| "any_numeric _ = Some False"

section \<open>Functions\<close>

text \<open>A registered function: whether it is a plain one and whether it is an aggregate, the number of its
  arguments, the type of its result, and \<open>fid\<close>, which stands for the C functions themselves.  The
  data of an entry of the table is the chain of the functions of that name.  A search that may create an
  entry comes with the blank functions of the new one.\<close>

record 'f func_def =
  has_func :: bool
  has_step :: bool
  nArg :: int
  fdataType :: int
  fid :: 'f

fun first_valid :: "'f func_def list \<Rightarrow> 'f func_def option" where
  "first_valid [] = None"
| "first_valid (p # ps) = (if \<not> has_func p \<and> \<not> has_step p then first_valid ps else Some p)"

fun match_args :: "int \<Rightarrow> bool \<Rightarrow> 'f func_def list \<Rightarrow> 'f func_def option \<Rightarrow> 'f func_def option \<times> 'f func_def option" where
  "match_args n create [] maybe = (None, maybe)"
| "match_args n create (p # ps) maybe =
     (if nArg p = n then (Some p, maybe)
      else match_args n create ps (if nArg p < 0 \<and> \<not> create \<and> (has_func p \<or> has_step p) then Some p else maybe))"

definition find_function ::
  "alloc \<Rightarrow> 'f option \<Rightarrow> 'f func_def list hash \<Rightarrow> string \<Rightarrow> int \<Rightarrow> ('f func_def option \<times> 'f func_def list hash) option" where
  "find_function al blank fns name nargs =
     do { found \<leftarrow> hash_find fns name (of_nat (length name));
          let create = (blank \<noteq> None);
          let chain = (case found of None \<Rightarrow> [] | Some ps \<Rightarrow> ps);
          if chain \<noteq> [] \<and> \<not> create \<and> nargs < 0 then Some (first_valid chain, fns)
          else
            (case match_args nargs create chain None of
               (Some p, _) \<Rightarrow> Some (if \<not> create \<and> \<not> has_func p \<and> \<not> has_step p then None else Some p, fns)
             | (None, Some p) \<Rightarrow> if create then None else Some (Some p, fns)
             | (None, None) \<Rightarrow>
                 (case blank of
                    Some b \<Rightarrow>
                    (let p = \<lparr>has_func = False, has_step = False, nArg = nargs,
                              fdataType = (case chain of [] \<Rightarrow> -1 | q # _ \<Rightarrow> fdataType q), fid = b\<rparr>
                     in do { (_, fns) \<leftarrow> hash_insert al fns name (of_nat (length name)) (Some (p # chain));
                             Some (Some p, fns) })
                  | None \<Rightarrow> Some (None, fns))) }"

definition get_function_name :: "expr \<Rightarrow> cstring option" where
  "get_function_name e =
     (if eop e = ''TK_FUNCTION'' then etoken e
      else if eop e = ''TK_LIKE'' then Some ''like''
      else if eop e = ''TK_GLOB'' then Some ''glob''
      else Some (''can'' @ [CHR 0x27] @ ''t happen''))"

section \<open>The parser\<close>

text \<open>The part of \<^verbatim>\<open>parser_t\<close> these routines use: the program under construction, the table of
  functions of the database, the aggregates found so far, and where \<^verbatim>\<open>RAISE(IGNORE)\<close> of the innermost
  trigger goes.  A machine exists while code is generated.\<close>

record 'f agg_expr =
  isAgg :: bool
  ax_expr :: expr
  ax_func :: "'f func_def option"

record 'f cgen =
  gen_vm :: "'f func_def vdbe_prog"
  gen_fns :: "'f func_def list hash"
  gen_nErr :: int
  gen_msg :: "cstring option"
  useAgg :: bool
  aAgg :: "'f agg_expr list"
  ignoreJump :: "int option"

section \<open>Checking function calls\<close>

definition DBSQL_NUMERIC :: int where "DBSQL_NUMERIC = -1"
definition DBSQL_ARGS :: int where "DBSQL_ARGS = -3"

definition find_no_create :: "'f func_def list hash \<Rightarrow> cstring \<Rightarrow> int \<Rightarrow> 'f func_def option option" where
  "find_no_create fns nm n =
     map_option fst (find_function \<lparr>a_elem = None, a_key = False, a_table = False\<rparr> None fns nm n)"

definition gen_error :: "(cstring \<times> int) list \<Rightarrow> 'f cgen \<Rightarrow> 'f cgen" where
  "gen_error ps p = p\<lparr>gen_msg := Some (cstr (str_nappend ps)), gen_nErr := gen_nErr p + 1\<rparr>"

text \<open>What the lookup of a called function says: the definition, whether it is an aggregate, whether it is
  the special \<^verbatim>\<open>typeof\<close>, and which of the two complaints it deserves.\<close>

record 'f call_info =
  ci_def :: "'f func_def option"
  ci_agg :: bool
  ci_typeof :: bool
  ci_missing :: bool
  ci_args :: bool

definition look_up_call :: "'f func_def list hash \<Rightarrow> cstring \<Rightarrow> nat \<Rightarrow> 'f call_info option" where
  "look_up_call fns nm n =
     do { d \<leftarrow> find_no_create fns nm (int n);
          case d of
            Some f \<Rightarrow> Some \<lparr>ci_def = Some f, ci_agg = (\<not> has_func f), ci_typeof = False,
                            ci_missing = False, ci_args = False\<rparr>
          | None \<Rightarrow>
              do { d \<leftarrow> find_no_create fns nm (-1);
                   case d of
                     Some f \<Rightarrow> Some \<lparr>ci_def = Some f, ci_agg = False, ci_typeof = False,
                                     ci_missing = False, ci_args = True\<rparr>
                   | None \<Rightarrow>
                       (let t = (n = 1 \<and> length nm = 6 \<and> strncasecmp nm ''typeof'' 6 = 0)
                        in Some \<lparr>ci_def = None, ci_agg = False, ci_typeof = t,
                                 ci_missing = (\<not> t), ci_args = False\<rparr>) } }"

text \<open>The complaint about a call, if any: the number of errors, whether it still counts as an
  aggregate, and the parser.\<close>

definition call_errors :: "'f call_info \<Rightarrow> bool \<Rightarrow> cstring \<Rightarrow> 'f cgen \<Rightarrow> nat \<times> bool \<times> 'f cgen" where
  "call_errors ci agg_allowed nm p =
     (if ci_agg ci \<and> \<not> agg_allowed then
        (1, False, gen_error [(''misuse of aggregate function '', -1), (nm, int (length nm)), (''()'', 2)] p)
      else if ci_missing ci then
        (1, ci_agg ci, gen_error [(''no such function: '', -1), (nm, int (length nm))] p)
      else if ci_args ci then
        (1, ci_agg ci, gen_error [(''wrong number of arguments to function '', -1), (nm, int (length nm)), (''()'', 2)] p)
      else (0, ci_agg ci, p))"

definition is_num :: "int option \<Rightarrow> bool option" where
  "is_num t = map_option (\<lambda>n. n = SO_NUM) t"

fun exists_num :: "expr list \<Rightarrow> bool option" where
  "exists_num [] = Some False"
| "exists_num (x # xs) = do { b \<leftarrow> is_num (expr_type x); if b then Some True else exists_num xs }"

text \<open>The code overwrites the type in the definition of the function, which stays in the table.\<close>

definition overwrite_type :: "cstring \<Rightarrow> 'f func_def \<Rightarrow> 'f cgen \<Rightarrow> 'f cgen option" where
  "overwrite_type nm d p =
     do { found \<leftarrow> hash_find (gen_fns p) nm (of_nat (length nm));
          chain \<leftarrow> found;
          (_, H) \<leftarrow> hash_insert \<lparr>a_elem = None, a_key = False, a_table = False\<rparr> (gen_fns p) nm (of_nat (length nm))
                       (Some (map (\<lambda>q. if q = d then q\<lparr>fdataType := SO_TEXT\<rparr> else q) chain));
          Some (p\<lparr>gen_fns := H\<rparr>) }"

definition call_type :: "'f call_info \<Rightarrow> cstring \<Rightarrow> expr \<Rightarrow> 'f cgen \<Rightarrow> (expr \<times> 'f cgen) option" where
  "call_type ci nm e p =
     (let xs = (case exprs e of None \<Rightarrow> [] | Some xs \<Rightarrow> xs); n = int (length xs)
      in case ci_def ci of
           None \<Rightarrow>
             (if ci_typeof ci then
                (case xs of [] \<Rightarrow> None
                 | x # _ \<Rightarrow>
                     do { b \<leftarrow> is_num (expr_type x);
                          Some (set_op ''TK_STRING'' (set_token (if b then ''numeric'' else ''text'') e), p) })
              else Some (e, p))
         | Some d \<Rightarrow>
             (if fdataType d \<ge> 0 then
                (if fdataType d < n then
                   do { t \<leftarrow> expr_type (xs ! nat (fdataType d)); Some (set_dataType t e, p) }
                 else Some (set_dataType SO_NUM e, p))
              else if fdataType d = DBSQL_ARGS then
                do { p \<leftarrow> overwrite_type nm d p;
                     b \<leftarrow> exists_num xs;
                     Some (if b then set_dataType SO_NUM e else e, p) }
              else if fdataType d = DBSQL_NUMERIC then Some (set_dataType SO_NUM e, p)
              else Some (set_dataType SO_TEXT e, p)))"

text \<open>The number of errors, whether an aggregate was seen, the checked tree and the parser.\<close>

fun expr_check :: "expr \<Rightarrow> bool \<Rightarrow> bool \<Rightarrow> 'f cgen \<Rightarrow> (nat \<times> bool \<times> expr \<times> 'f cgen) option"
  and opt_check :: "expr option \<Rightarrow> bool \<Rightarrow> bool \<Rightarrow> 'f cgen \<Rightarrow> (nat \<times> bool \<times> expr option \<times> 'f cgen) option"
  and list_check :: "expr list \<Rightarrow> bool \<Rightarrow> nat \<Rightarrow> bool \<Rightarrow> 'f cgen \<Rightarrow> (nat \<times> bool \<times> expr list \<times> 'f cgen) option" where
  "expr_check (Expr op d l r es tok it ic ia sel) allowed agg p =
     (if op \<in> {''TK_GLOB'', ''TK_LIKE'', ''TK_FUNCTION''} then
        do { nm \<leftarrow> get_function_name (Expr op d l r es tok it ic ia sel);
             ci \<leftarrow> look_up_call (gen_fns p) nm (nExpr es);
             let (nerr, is_agg, p) = call_errors ci allowed nm p;
             let op = (if is_agg then ''TK_AGG_FUNCTION'' else op);
             (nerr, agg, es, p) \<leftarrow>
               (case es of None \<Rightarrow> Some (nerr, agg \<or> is_agg, None, p)
                | Some xs \<Rightarrow>
                    do { (nerr, agg, xs, p) \<leftarrow> list_check xs (allowed \<and> \<not> is_agg) nerr (agg \<or> is_agg) p;
                         Some (nerr, agg, Some xs, p) });
             (e, p) \<leftarrow> call_type ci nm (Expr op d l r es tok it ic ia sel) p;
             Some (nerr, agg, e, p) }
      else
        do { (nerr, agg, l, p) \<leftarrow> opt_check l allowed agg p;
             (nerr, agg, r, p) \<leftarrow> (if nerr = 0 then opt_check r allowed agg p else Some (nerr, agg, r, p));
             (nerr, agg, es, p) \<leftarrow>
               (case es of None \<Rightarrow> Some (nerr, agg, None, p)
                | Some xs \<Rightarrow>
                    do { (nerr, agg, xs, p) \<leftarrow> list_check xs allowed nerr agg p; Some (nerr, agg, Some xs, p) });
             Some (nerr, agg, Expr op d l r es tok it ic ia sel, p) })"
| "opt_check None allowed agg p = Some (0, agg, None, p)"
| "opt_check (Some e) allowed agg p =
     do { (nerr, agg, e, p) \<leftarrow> expr_check e allowed agg p; Some (nerr, agg, Some e, p) }"
| "list_check [] allowed nerr agg p = Some (nerr, agg, [], p)"
| "list_check (x # xs) allowed nerr agg p =
     (if nerr \<noteq> 0 then Some (nerr, agg, x # xs, p)
      else do { (nerr, agg, x, p) \<leftarrow> expr_check x allowed agg p;
                (nerr, agg, xs, p) \<leftarrow> list_check xs allowed nerr agg p;
                Some (nerr, agg, x # xs, p) })"

section \<open>Comparing trees and collecting aggregates\<close>

definition same_token :: "cstring option \<Rightarrow> cstring option \<Rightarrow> bool" where
  "same_token a b =
     (case a of None \<Rightarrow> True
      | Some x \<Rightarrow> (case b of None \<Rightarrow> False
                   | Some y \<Rightarrow> length y = length x \<and> strncasecmp x y (length y) = 0))"

fun expr_compare :: "expr \<Rightarrow> expr \<Rightarrow> bool" and opt_compare :: "expr option \<Rightarrow> expr option \<Rightarrow> bool"
  and list_compare :: "expr list \<Rightarrow> expr list \<Rightarrow> bool" where
  "expr_compare (Expr op d l r es tok it ic ia sel) b =
     (if op \<noteq> eop b then False
      else if \<not> opt_compare l (pLeft b) then False
      else if \<not> opt_compare r (pRight b) then False
      else if \<not> (case es of None \<Rightarrow> exprs b = None
                 | Some xs \<Rightarrow> (case exprs b of None \<Rightarrow> False | Some ys \<Rightarrow> list_compare xs ys)) then False
      else if sel \<noteq> None \<or> pSelect b \<noteq> None then False
      else if it \<noteq> iTable b \<or> ic \<noteq> iColumn b then False
      else same_token tok (etoken b))"
| "opt_compare None b = (b = None)"
| "opt_compare (Some a) b = (case b of None \<Rightarrow> False | Some b \<Rightarrow> expr_compare a b)"
| "list_compare [] ys = (ys = [])"
| "list_compare (x # xs) ys = (case ys of [] \<Rightarrow> False | y # ys \<Rightarrow> expr_compare x y \<and> list_compare xs ys)"

text \<open>\<open>room\<close> says whether the array of aggregates can grow.\<close>

definition append_agg_info :: "bool \<Rightarrow> 'f agg_expr \<Rightarrow> 'f cgen \<Rightarrow> (nat \<times> 'f cgen) option" where
  "append_agg_info room x p =
     (if length (aAgg p) mod 8 = 0 \<and> \<not> room then None
      else Some (length (aAgg p), p\<lparr>aAgg := aAgg p @ [x]\<rparr>))"

fun find_agg :: "('f agg_expr \<Rightarrow> bool) \<Rightarrow> 'f agg_expr list \<Rightarrow> nat option" where
  "find_agg P [] = None"
| "find_agg P (x # xs) = (if P x then Some 0 else map_option Suc (find_agg P xs))"

text \<open>The entry of an expression; without room for a new one there is an error.\<close>

definition register_agg :: "bool \<Rightarrow> ('f agg_expr \<Rightarrow> bool) \<Rightarrow> bool \<Rightarrow> 'f func_def option \<Rightarrow> expr \<Rightarrow> 'f cgen \<Rightarrow> nat \<times> expr \<times> 'f cgen" where
  "register_agg room P agg f e p =
     (case find_agg P (aAgg p) of
        Some i \<Rightarrow> (0, set_iAgg (int i) e, p)
      | None \<Rightarrow>
          (let i = length (aAgg p)
           in case append_agg_info room \<lparr>isAgg = agg, ax_expr = set_iAgg (int i) e, ax_func = f\<rparr> p of
                None \<Rightarrow> (1, e, p)
              | Some (i, p) \<Rightarrow> (0, set_iAgg (int i) e, p)))"

fun expr_analyze_aggregates :: "bool \<Rightarrow> expr \<Rightarrow> 'f cgen \<Rightarrow> (nat \<times> expr \<times> 'f cgen) option"
  and opt_analyze :: "bool \<Rightarrow> expr option \<Rightarrow> 'f cgen \<Rightarrow> (nat \<times> expr option \<times> 'f cgen) option"
  and list_analyze :: "bool \<Rightarrow> nat \<Rightarrow> expr list \<Rightarrow> 'f cgen \<Rightarrow> (nat \<times> expr list \<times> 'f cgen) option" where
  "expr_analyze_aggregates room (Expr op d l r es tok it ic ia sel) p =
     (if op = ''TK_COLUMN'' then
        Some (register_agg room (\<lambda>x. \<not> isAgg x \<and> iTable (ax_expr x) = it \<and> iColumn (ax_expr x) = ic) False None
                (Expr op d l r es tok it ic ia sel) p)
      else if op = ''TK_AGG_FUNCTION'' then
        do { nm \<leftarrow> tok;
             f \<leftarrow> find_no_create (gen_fns p) nm (int (nExpr es));
             Some (register_agg room (\<lambda>x. isAgg x \<and> expr_compare (ax_expr x) (Expr op d l r es tok it ic ia sel)) True f
                     (Expr op d l r es tok it ic ia sel) p) }
      else
        do { (nerr, l, p) \<leftarrow> opt_analyze room l p;
             (nerr, r, p) \<leftarrow> (if nerr = 0 then opt_analyze room r p else Some (nerr, r, p));
             (nerr, es, p) \<leftarrow>
               (case es of None \<Rightarrow> Some (nerr, None, p)
                | Some xs \<Rightarrow> do { (nerr, xs, p) \<leftarrow> list_analyze room nerr xs p; Some (nerr, Some xs, p) });
             Some (nerr, Expr op d l r es tok it ic ia sel, p) })"
| "opt_analyze room None p = Some (0, None, p)"
| "opt_analyze room (Some e) p =
     do { (nerr, e, p) \<leftarrow> expr_analyze_aggregates room e p; Some (nerr, Some e, p) }"
| "list_analyze room nerr [] p = Some (nerr, [], p)"
| "list_analyze room nerr (x # xs) p =
     (if nerr \<noteq> 0 then Some (nerr, x # xs, p)
      else do { (nerr, x, p) \<leftarrow> expr_analyze_aggregates room x p;
                (nerr, xs, p) \<leftarrow> list_analyze room nerr xs p;
                Some (nerr, x # xs, p) })"

end
