(* ===== verification/Auth.thy ===== *)
theory Auth
  imports Expr Errors
begin

text \<open>
  Authorization of \<^verbatim>\<open>src/cg_auth.c\<close>, and the part of the schema and of the parser that name resolution needs.
  The authorizer is a function of the application: it gets the code of the action, up to three names and the
  context, and answers with a number.
\<close>

section \<open>Tables, sources and the parser\<close>

record tcolumn =
  col_name :: cstring
  col_sort :: int

record table =
  tname :: "cstring option"
  aCol :: "tcolumn list"
  iPKey :: int
  tdb :: nat

record src_item =
  zAlias :: "cstring option"
  iCursor :: int
  pTab :: "table option"

record trigger_stack =
  ts_tab :: "table option"
  newIdx :: int
  oldIdx :: int

type_synonym authorizer = "int \<Rightarrow> cstring option \<Rightarrow> cstring option \<Rightarrow> cstring option \<Rightarrow> cstring option \<Rightarrow> int"

record 'f rparser =
  pg :: "'f cgen"
  prc :: int
  pnTab :: int
  pnMem :: int
  pnSet :: int
  trigStack :: "trigger_stack option"
  zAuthContext :: "cstring option"
  xAuth :: "authorizer option"
  aDb :: "cstring list"

definition DBSQL_DENY :: int where "DBSQL_DENY = 1"
definition DBSQL_IGNORE :: int where "DBSQL_IGNORE = 2"
definition DBSQL_READ :: int where "DBSQL_READ = 20"

text \<open>A message and one more error.\<close>

definition rp_error :: "cstring \<Rightarrow> 'f rparser \<Rightarrow> 'f rparser" where
  "rp_error z p = p\<lparr>pg := (pg p)\<lparr>gen_msg := Some z, gen_nErr := gen_nErr (pg p) + 1\<rparr>\<rparr>"

lemma rp_error_simps [simp]:
  "xAuth (rp_error z p) = xAuth p" "trigStack (rp_error z p) = trigStack p" "aDb (rp_error z p) = aDb p" "pnTab (rp_error z p) = pnTab p"
  "gen_nErr (pg (rp_error z p)) = gen_nErr (pg p) + 1" "gen_msg (pg (rp_error z p)) = Some z" "prc (rp_error z p) = prc p"
  "zAuthContext (rp_error z p) = zAuthContext p"
  by (simp_all add: rp_error_def)

section \<open>Operations\<close>

definition api_set_authorizer :: "authorizer option \<Rightarrow> 'f rparser \<Rightarrow> 'f rparser" where
  "api_set_authorizer f p = p\<lparr>xAuth := f\<rparr>"

definition auth_bad_return_code :: "int \<Rightarrow> 'f rparser \<Rightarrow> 'f rparser" where
  "auth_bad_return_code r p =
     (rp_error (str_append ''illegal return value '' [''('' @ show_int r @ '')'', '' from the authorization function - '',
        ''should be DBSQL_SUCCESS, DBSQL_IGNORE, or DBSQL_DENY'']) p)\<lparr>prc := DBSQL_MISUSE\<rparr>"

text \<open>The table a column belongs to: one of the sources, or the table of the trigger.\<close>

definition auth_table :: "int \<Rightarrow> src_item list \<Rightarrow> 'f rparser \<Rightarrow> table option option" where
  "auth_table it xs p =
     (case find (\<lambda>x. it = iCursor x) xs of
        Some x \<Rightarrow> Some (pTab x)
      | None \<Rightarrow>
          (case trigStack p of
             None \<Rightarrow> None
           | Some s \<Rightarrow> if it = newIdx s \<or> it = oldIdx s then Some (ts_tab s) else None))"

definition auth_column :: "table \<Rightarrow> int \<Rightarrow> cstring option" where
  "auth_column t ic =
     (if ic \<ge> 0 then (if ic < int (length (aCol t)) then Some (col_name (aCol t ! nat ic)) else None)
      else if iPKey t \<ge> 0 then (if iPKey t < int (length (aCol t)) then Some (col_name (aCol t ! nat (iPKey t))) else None)
      else Some ''ROWID'')"

text \<open>\<open>None\<close> is a failed assertion or a null pointer that is followed.\<close>

definition auth_read :: "expr \<Rightarrow> nat \<Rightarrow> src_item list \<Rightarrow> 'f rparser \<Rightarrow> (expr \<times> 'f rparser) option" where
  "auth_read e db xs p =
     (case xAuth p of
        None \<Rightarrow> Some (e, p)
      | Some f \<Rightarrow>
          (if eop e \<noteq> ''TK_COLUMN'' then None
           else
             do { t \<leftarrow> auth_table (iTable e) xs p;
                  case t of
                    None \<Rightarrow> Some (e, p)
                  | Some t \<Rightarrow>
                      do { col \<leftarrow> auth_column t (iColumn e);
                           if db \<ge> length (aDb p) then None
                           else
                             (let dbname = aDb p ! db;
                                  r = f DBSQL_READ (tname t) (Some col) (Some dbname) (zAuthContext p)
                              in if r = DBSQL_IGNORE then Some (set_op ''TK_NULL'' e, p)
                                 else if r = DBSQL_DENY then
                                   do { tn \<leftarrow> tname t;
                                        Some (e, (rp_error
                                          (if length (aDb p) > 2 \<or> db \<noteq> 0
                                           then str_append ''access to '' [dbname, ''.'', tn, ''.'', col, '' is prohibited'']
                                           else str_append ''access to '' [tn, ''.'', col, '' is prohibited'']) p)\<lparr>prc := DBSQL_AUTH\<rparr>) }
                                 else if r \<noteq> DBSQL_SUCCESS then Some (e, auth_bad_return_code r p)
                                 else Some (e, p)) } }))"

definition auth_check :: "int \<Rightarrow> cstring option \<Rightarrow> cstring option \<Rightarrow> cstring option \<Rightarrow> 'f rparser \<Rightarrow> int \<times> 'f rparser" where
  "auth_check act a1 a2 a3 p =
     (case xAuth p of
        None \<Rightarrow> (DBSQL_SUCCESS, p)
      | Some f \<Rightarrow>
          (let r = f act a1 a2 a3 (zAuthContext p)
           in if r = DBSQL_DENY then (r, (rp_error (str_append ''not authorized'' []) p)\<lparr>prc := DBSQL_AUTH\<rparr>)
              else if r \<noteq> DBSQL_SUCCESS \<and> r \<noteq> DBSQL_IGNORE then (DBSQL_DENY, auth_bad_return_code DBSQL_DENY p)
              else (r, p)))"

text \<open>The context is saved only when there is a parser to give it back to.\<close>

definition auth_context_push :: "cstring option \<Rightarrow> 'f rparser option \<Rightarrow> cstring option option \<times> 'f rparser option" where
  "auth_context_push ctx p = (map_option zAuthContext p, map_option (\<lambda>p. p\<lparr>zAuthContext := ctx\<rparr>) p)"

definition auth_context_pop :: "cstring option option \<Rightarrow> 'f rparser option \<Rightarrow> cstring option option \<times> 'f rparser option" where
  "auth_context_pop saved p =
     (case saved of None \<Rightarrow> (None, p) | Some z \<Rightarrow> (None, map_option (\<lambda>p. p\<lparr>zAuthContext := z\<rparr>) p))"

end
