(* ===== verification/ExprCode.thy ===== *)
theory ExprCode
  imports Expr Errors
begin

text \<open>
  The code generator for expressions in \<^verbatim>\<open>src/cg_expr.c\<close>: \<^verbatim>\<open>__expr_code\<close> leaves the value of an
  expression on the stack, \<^verbatim>\<open>__expr_if_true\<close> and \<^verbatim>\<open>__expr_if_false\<close> jump on its truth.  They work on the
  program under construction through the routines of \<^verbatim>\<open>src/vdbe_method.c\<close>; allocation succeeds.
\<close>

section \<open>Calls of the program builder\<close>

definition emit :: "int \<Rightarrow> int \<Rightarrow> int \<Rightarrow> 'f cgen \<Rightarrow> (int \<times> 'f cgen) option" where
  "emit op x1 x2 p =
     do { (a, v) \<leftarrow> vdbe_add_op True (gen_vm p) op x1 x2; Some (a, p\<lparr>gen_vm := v\<rparr>) }"

definition emit_op :: "int \<Rightarrow> int \<Rightarrow> int \<Rightarrow> 'f cgen \<Rightarrow> 'f cgen option" where
  "emit_op op x1 x2 p = map_option snd (emit op x1 x2 p)"

definition with_vm :: "('f func_def vdbe_prog \<Rightarrow> 'f func_def vdbe_prog option) \<Rightarrow> 'f cgen \<Rightarrow> 'f cgen option" where
  "with_vm f p = map_option (\<lambda>v. p\<lparr>gen_vm := v\<rparr>) (f (gen_vm p))"

definition set_p3 :: "'f func_def p3val option \<Rightarrow> int \<Rightarrow> 'f cgen \<Rightarrow> 'f cgen option" where
  "set_p3 x n p = with_vm (\<lambda>v. vdbe_change_p3 v (-1) x n) p"

definition new_label :: "'f cgen \<Rightarrow> (int \<times> 'f cgen) option" where
  "new_label p = do { (l, v) \<leftarrow> vdbe_make_label True (gen_vm p); Some (l, p\<lparr>gen_vm := v\<rparr>) }"

definition place_label :: "int \<Rightarrow> 'f cgen \<Rightarrow> 'f cgen option" where
  "place_label l p = with_vm (\<lambda>v. vdbe_resolve_label v l) p"

definition here :: "'f cgen \<Rightarrow> int option" where
  "here p = vdbe_current_addr (gen_vm p)"

section \<open>Opcodes\<close>

definition code_op :: "tk \<Rightarrow> int" where
  "code_op t =
     (case map_of [(''TK_PLUS'', OP_Add), (''TK_MINUS'', OP_Subtract), (''TK_STAR'', OP_Multiply),
                   (''TK_SLASH'', OP_Divide), (''TK_AND'', OP_And), (''TK_OR'', OP_Or), (''TK_LT'', OP_Lt),
                   (''TK_LE'', OP_Le), (''TK_GT'', OP_Gt), (''TK_GE'', OP_Ge), (''TK_NE'', OP_Ne), (''TK_EQ'', OP_Eq),
                   (''TK_ISNULL'', OP_IsNull), (''TK_NOTNULL'', OP_NotNull), (''TK_NOT'', OP_Not),
                   (''TK_UMINUS'', OP_Negative), (''TK_BITAND'', OP_BitAnd), (''TK_BITOR'', OP_BitOr),
                   (''TK_BITNOT'', OP_BitNot), (''TK_LSHIFT'', OP_ShiftLeft), (''TK_RSHIFT'', OP_ShiftRight),
                   (''TK_REM'', OP_Remainder)] t
      of None \<Rightarrow> 0 | Some n \<Rightarrow> n)"

text \<open>The opposite tests, with which \<^verbatim>\<open>__expr_if_false\<close> starts.\<close>

definition false_op :: "tk \<Rightarrow> int" where
  "false_op t =
     (case map_of [(''TK_LT'', OP_Ge), (''TK_LE'', OP_Gt), (''TK_GT'', OP_Le), (''TK_GE'', OP_Lt), (''TK_NE'', OP_Eq),
                   (''TK_EQ'', OP_Ne), (''TK_ISNULL'', OP_NotNull), (''TK_NOTNULL'', OP_IsNull)] t
      of None \<Rightarrow> 0 | Some n \<Rightarrow> n)"

definition bin_ops :: "tk list" where
  "bin_ops = [''TK_AND'', ''TK_OR'', ''TK_PLUS'', ''TK_STAR'', ''TK_MINUS'', ''TK_REM'', ''TK_BITAND'', ''TK_BITOR'', ''TK_SLASH'']"

text \<open>The opcode of a comparison, of the numbers or of the texts.\<close>

definition cmp_opcode :: "int \<Rightarrow> int option \<Rightarrow> int option" where
  "cmp_opcode op t = map_option (\<lambda>n. if n = SO_TEXT then op + 6 else op) t"

section \<open>Leaves\<close>

definition literal_code :: "tk \<Rightarrow> cstring \<Rightarrow> 'f cgen \<Rightarrow> 'f cgen option" where
  "literal_code op z p =
     do { p \<leftarrow> (if op = ''TK_INTEGER'' \<and> str_int_in32b z then emit_op OP_Integer (sint (atoi z)) 0 p
                else emit_op OP_String 0 0 p);
          p \<leftarrow> set_p3 (Some (P3_text z)) (int (length z)) p;
          with_vm (\<lambda>v. vdbe_dequote_p3 v (-1)) p }"

text \<open>A negative number is one literal; its sign is put in front of the digits.\<close>

definition negative_code :: "tk \<Rightarrow> cstring \<Rightarrow> 'f cgen \<Rightarrow> 'f cgen option" where
  "negative_code op z p =
     do { let z = CHR ''-'' # z;
          p \<leftarrow> (if op = ''TK_INTEGER'' \<and> str_int_in32b z then emit_op OP_Integer (sint (atoi z)) 0 p
                else emit_op OP_String 0 0 p);
          set_p3 (Some (P3_text z)) (int (length z)) p }"

definition column_code :: "int \<Rightarrow> int \<Rightarrow> int \<Rightarrow> 'f cgen \<Rightarrow> 'f cgen option" where
  "column_code it ic ia p =
     (if useAgg p then emit_op OP_AggGet 0 ia p
      else if ic \<ge> 0 then emit_op OP_Column it ic p
      else emit_op OP_Recno it 0 p)"

definition raise_code :: "int \<Rightarrow> cstring option \<Rightarrow> 'f cgen \<Rightarrow> 'f cgen option" where
  "raise_code ic tok p =
     (case ignoreJump p of
        None \<Rightarrow> Some (p\<lparr>gen_msg := Some ''RAISE() may only be used within a trigger-program'',
                         gen_nErr := gen_nErr p + 2\<rparr>)
      | Some dest \<Rightarrow>
          (if ic \<in> {OE_Rollback, OE_Abort, OE_Fail} then
             do { z \<leftarrow> tok;
                  p \<leftarrow> emit_op OP_Halt DBSQL_CONSTRAINT ic p;
                  set_p3 (Some (P3_text (str_unquote z))) 0 p }
           else if ic = OE_Ignore then
             do { p \<leftarrow> emit_op OP_Goto 0 dest p; set_p3 (Some (P3_text ''(IGNORE jump)'')) 0 p }
           else None))"

text \<open>Expressions without operands; \<open>None\<close> for the others.\<close>

definition leaf_code :: "tk \<Rightarrow> cstring option \<Rightarrow> int \<Rightarrow> int \<Rightarrow> int \<Rightarrow> 'f cgen \<Rightarrow> 'f cgen option option" where
  "leaf_code op tok it ic ia p =
     (if op = ''TK_COLUMN'' then Some (column_code it ic ia p)
      else if op \<in> {''TK_STRING'', ''TK_FLOAT'', ''TK_INTEGER''} then Some (do { z \<leftarrow> tok; literal_code op z p })
      else if op = ''TK_NULL'' then Some (emit_op OP_String 0 0 p)
      else if op = ''TK_VARIABLE'' then Some (emit_op OP_Variable it 0 p)
      else if op = ''TK_AGG_FUNCTION'' then Some (emit_op OP_AggGet 0 ia p)
      else if op = ''TK_SELECT'' then Some (emit_op OP_MemLoad ic 0 p)
      else if op = ''TK_RAISE'' then Some (raise_code ic tok p)
      else None)"

section \<open>Values\<close>

definition in_tail :: "bool \<Rightarrow> int \<Rightarrow> 'f cgen \<Rightarrow> 'f cgen option" where
  "in_tail sub it p =
     do { addr \<leftarrow> here p;
          p \<leftarrow> emit_op OP_NotNull (-1) (addr + 4) p;
          p \<leftarrow> emit_op OP_Pop 1 0 p;
          p \<leftarrow> emit_op OP_String 0 0 p;
          p \<leftarrow> emit_op OP_Goto 0 (addr + 6) p;
          p \<leftarrow> emit_op (if sub then OP_Found else OP_SetFound) it (addr + 6) p;
          emit_op OP_AddImm (-1) 0 p }"

definition call_code :: "tk \<Rightarrow> cstring option \<Rightarrow> nat \<Rightarrow> 'f cgen \<Rightarrow> 'f func_def option" where
  "call_code op tok n p =
     do { nm \<leftarrow> get_function_name (Expr op 0 None None None tok 0 0 0 None);
          d \<leftarrow> find_no_create (gen_fns p) nm (int n);
          d }"

text \<open>One arm of CASE, between the codes of its condition and its value: the jump over the value is patched when
  the value is complete.\<close>

definition arm_test :: "bool \<Rightarrow> 'f cgen \<Rightarrow> (int \<times> 'f cgen) option" where
  "arm_test has_left p =
     (if has_left then
        do { p \<leftarrow> emit_op OP_Dup 1 1 p;
             (j, p) \<leftarrow> emit OP_Ne 1 0 p;
             p \<leftarrow> emit_op OP_Pop 1 0 p;
             Some (j, p) }
      else emit OP_IfNot 1 0 p)"

definition arm_end :: "int \<Rightarrow> int \<Rightarrow> 'f cgen \<Rightarrow> 'f cgen option" where
  "arm_end j lend p =
     do { p \<leftarrow> emit_op OP_Goto 0 lend p;
          addr \<leftarrow> here p;
          with_vm (\<lambda>v. vdbe_change_p2 v j addr) p }"

fun expr_code :: "expr \<Rightarrow> 'f cgen \<Rightarrow> 'f cgen option" and opt_code :: "expr option \<Rightarrow> 'f cgen \<Rightarrow> 'f cgen option"
  and args_code :: "expr list \<Rightarrow> 'f cgen \<Rightarrow> 'f cgen option"
  and arms_code :: "bool \<Rightarrow> int \<Rightarrow> expr list \<Rightarrow> 'f cgen \<Rightarrow> 'f cgen option" where
  "expr_code (Expr op d l r es tok it ic ia sel) p =
     (case leaf_code op tok it ic ia p of
        Some q \<Rightarrow> q
      | None \<Rightarrow>
          (if op \<in> set cmp_ops then
             do { c \<leftarrow> cmp_opcode (code_op op) (expr_type (Expr op d l r es tok it ic ia sel));
                  p \<leftarrow> opt_code l p; p \<leftarrow> opt_code r p; emit_op c 0 0 p }
           else if op \<in> set bin_ops then
             do { p \<leftarrow> opt_code l p; p \<leftarrow> opt_code r p; emit_op (code_op op) 0 0 p }
           else if op \<in> {''TK_LSHIFT'', ''TK_RSHIFT''} then
             do { p \<leftarrow> opt_code r p; p \<leftarrow> opt_code l p; emit_op (code_op op) 0 0 p }
           else if op = ''TK_CONCAT'' then
             do { p \<leftarrow> opt_code l p; p \<leftarrow> opt_code r p; emit_op OP_Concat 2 0 p }
           else if op = ''TK_UMINUS'' then
             (case l of None \<Rightarrow> None
              | Some e \<Rightarrow>
                  (if eop e \<in> {''TK_FLOAT'', ''TK_INTEGER''} then do { z \<leftarrow> etoken e; negative_code (eop e) z p }
                   else do { p \<leftarrow> expr_code e p; emit_op OP_Negative 0 0 p }))
           else if op \<in> {''TK_BITNOT'', ''TK_NOT''} then
             do { p \<leftarrow> opt_code l p; emit_op (code_op op) 0 0 p }
           else if op \<in> {''TK_ISNULL'', ''TK_NOTNULL''} then
             do { p \<leftarrow> emit_op OP_Integer 1 0 p;
                  p \<leftarrow> opt_code l p;
                  addr \<leftarrow> here p;
                  p \<leftarrow> emit_op (code_op op) 1 (addr + 2) p;
                  emit_op OP_AddImm (-1) 0 p }
           else if op \<in> {''TK_GLOB'', ''TK_LIKE'', ''TK_FUNCTION''} then
             do { d \<leftarrow> call_code op tok (nExpr es) p;
                  p \<leftarrow> (case es of None \<Rightarrow> Some p | Some xs \<Rightarrow> args_code xs p);
                  p \<leftarrow> emit_op OP_Function (int (nExpr es)) 0 p;
                  set_p3 (Some (P3_object d)) P3_POINTER p }
           else if op = ''TK_IN'' then
             do { p \<leftarrow> emit_op OP_Integer 1 0 p; p \<leftarrow> opt_code l p; in_tail (sel \<noteq> None) it p }
           else if op = ''TK_BETWEEN'' then
             (case es of
                Some (lo # hi # _) \<Rightarrow>
                  do { p \<leftarrow> opt_code l p;
                       p \<leftarrow> emit_op OP_Dup 0 0 p;
                       p \<leftarrow> expr_code lo p;
                       p \<leftarrow> emit_op OP_Ge 0 0 p;
                       p \<leftarrow> emit_op OP_Pull 1 0 p;
                       p \<leftarrow> expr_code hi p;
                       p \<leftarrow> emit_op OP_Le 0 0 p;
                       emit_op OP_And 0 0 p }
              | _ \<Rightarrow> None)
           else if op \<in> {''TK_UPLUS'', ''TK_AS''} then opt_code l p
           else if op = ''TK_CASE'' then
             (case es of
                Some xs \<Rightarrow>
                  (if odd (length xs) \<or> xs = [] then None
                   else
                     do { (lend, p) \<leftarrow> new_label p;
                          p \<leftarrow> opt_code l p;
                          p \<leftarrow> arms_code (l \<noteq> None) lend xs p;
                          p \<leftarrow> (if l \<noteq> None then emit_op OP_Pop 1 0 p else Some p);
                          p \<leftarrow> (case r of Some e \<Rightarrow> expr_code e p | None \<Rightarrow> emit_op OP_String 0 0 p);
                          place_label lend p })
              | None \<Rightarrow> None)
           else Some p))"
| "opt_code None p = Some p"
| "opt_code (Some e) p = expr_code e p"
| "args_code [] p = Some p"
| "args_code (x # xs) p = do { p \<leftarrow> expr_code x p; args_code xs p }"
| "arms_code hl lend (w # t # xs) p =
     do { p \<leftarrow> expr_code w p;
          (j, p) \<leftarrow> arm_test hl p;
          p \<leftarrow> expr_code t p;
          p \<leftarrow> arm_end j lend p;
          arms_code hl lend xs p }"
| "arms_code hl lend _ p = Some p"

section \<open>Conditional jumps\<close>

definition in_jump :: "int \<Rightarrow> int \<Rightarrow> int \<Rightarrow> bool \<Rightarrow> 'f cgen \<Rightarrow> 'f cgen option" where
  "in_jump found it dest jump_if_null p =
     do { addr \<leftarrow> here p;
          p \<leftarrow> emit_op OP_NotNull (-1) (addr + 3) p;
          p \<leftarrow> emit_op OP_Pop 1 0 p;
          p \<leftarrow> emit_op OP_Goto 0 (if jump_if_null then dest else addr + 4) p;
          emit_op found it dest p }"

fun expr_if_true :: "expr \<Rightarrow> int \<Rightarrow> bool \<Rightarrow> 'f cgen \<Rightarrow> 'f cgen option"
  and expr_if_false :: "expr \<Rightarrow> int \<Rightarrow> bool \<Rightarrow> 'f cgen \<Rightarrow> 'f cgen option" where
  "expr_if_true (Expr op d l r es tok it ic ia sel) dest jin p =
     (if op = ''TK_AND'' then
        do { (d2, p) \<leftarrow> new_label p;
             p \<leftarrow> (case l of None \<Rightarrow> Some p | Some e \<Rightarrow> expr_if_false e d2 (\<not> jin) p);
             p \<leftarrow> (case r of None \<Rightarrow> Some p | Some e \<Rightarrow> expr_if_true e dest jin p);
             place_label d2 p }
      else if op = ''TK_OR'' then
        do { p \<leftarrow> (case l of None \<Rightarrow> Some p | Some e \<Rightarrow> expr_if_true e dest jin p);
             (case r of None \<Rightarrow> Some p | Some e \<Rightarrow> expr_if_true e dest jin p) }
      else if op = ''TK_NOT'' then (case l of None \<Rightarrow> Some p | Some e \<Rightarrow> expr_if_false e dest jin p)
      else if op \<in> set cmp_ops then
        do { p \<leftarrow> opt_code l p; p \<leftarrow> opt_code r p;
             c \<leftarrow> cmp_opcode (code_op op) (expr_type (Expr op d l r es tok it ic ia sel));
             emit_op c (if jin then 1 else 0) dest p }
      else if op \<in> {''TK_ISNULL'', ''TK_NOTNULL''} then
        do { p \<leftarrow> opt_code l p; emit_op (code_op op) 1 dest p }
      else if op = ''TK_IN'' then
        do { p \<leftarrow> opt_code l p; in_jump (if sel \<noteq> None then OP_Found else OP_SetFound) it dest jin p }
      else if op = ''TK_BETWEEN'' then
        (case es of
           Some (lo # hi # _) \<Rightarrow>
             do { p \<leftarrow> opt_code l p;
                  p \<leftarrow> emit_op OP_Dup 0 0 p;
                  p \<leftarrow> expr_code lo p;
                  (addr, p) \<leftarrow> emit OP_Lt (if jin then 0 else 1) 0 p;
                  p \<leftarrow> expr_code hi p;
                  p \<leftarrow> emit_op OP_Le (if jin then 1 else 0) dest p;
                  p \<leftarrow> emit_op OP_Integer 0 0 p;
                  a \<leftarrow> here p;
                  p \<leftarrow> with_vm (\<lambda>v. vdbe_change_p2 v addr a) p;
                  emit_op OP_Pop 1 0 p }
         | _ \<Rightarrow> None)
      else
        do { p \<leftarrow> expr_code (Expr op d l r es tok it ic ia sel) p; emit_op OP_If (if jin then 1 else 0) dest p })"
| "expr_if_false (Expr op d l r es tok it ic ia sel) dest jin p =
     (if op = ''TK_AND'' then
        do { p \<leftarrow> (case l of None \<Rightarrow> Some p | Some e \<Rightarrow> expr_if_false e dest jin p);
             (case r of None \<Rightarrow> Some p | Some e \<Rightarrow> expr_if_false e dest jin p) }
      else if op = ''TK_OR'' then
        do { (d2, p) \<leftarrow> new_label p;
             p \<leftarrow> (case l of None \<Rightarrow> Some p | Some e \<Rightarrow> expr_if_true e d2 (\<not> jin) p);
             p \<leftarrow> (case r of None \<Rightarrow> Some p | Some e \<Rightarrow> expr_if_false e dest jin p);
             place_label d2 p }
      else if op = ''TK_NOT'' then (case l of None \<Rightarrow> Some p | Some e \<Rightarrow> expr_if_true e dest jin p)
      else if op \<in> set cmp_ops then
        do { c \<leftarrow> cmp_opcode (false_op op) (expr_type (Expr op d l r es tok it ic ia sel));
             p \<leftarrow> opt_code l p; p \<leftarrow> opt_code r p;
             emit_op c (if jin then 1 else 0) dest p }
      else if op \<in> {''TK_ISNULL'', ''TK_NOTNULL''} then
        do { p \<leftarrow> opt_code l p; emit_op (false_op op) 1 dest p }
      else if op = ''TK_IN'' then
        do { p \<leftarrow> opt_code l p; in_jump (if sel \<noteq> None then OP_NotFound else OP_SetNotFound) it dest jin p }
      else if op = ''TK_BETWEEN'' then
        (case es of
           Some (lo # hi # _) \<Rightarrow>
             do { p \<leftarrow> opt_code l p;
                  p \<leftarrow> emit_op OP_Dup 0 0 p;
                  p \<leftarrow> expr_code lo p;
                  addr \<leftarrow> here p;
                  p \<leftarrow> emit_op OP_Ge (if jin then 0 else 1) (addr + 3) p;
                  p \<leftarrow> emit_op OP_Pop 1 0 p;
                  p \<leftarrow> emit_op OP_Goto 0 dest p;
                  p \<leftarrow> expr_code hi p;
                  emit_op OP_Gt (if jin then 1 else 0) dest p }
         | _ \<Rightarrow> None)
      else
        do { p \<leftarrow> expr_code (Expr op d l r es tok it ic ia sel) p; emit_op OP_IfNot (if jin then 1 else 0) dest p })"

end
