(* ===== verification/Names.thy ===== *)
theory Names
  imports Auth ExprCode
begin

unbundle bit_operations_syntax

text \<open>
  Resolution of names in \<^verbatim>\<open>src/cg_expr.c\<close>: \<^verbatim>\<open>__lookup_name\<close> finds the column a name refers to among the sources of
  the statement, the tables of a trigger, the row number and the result columns; \<^verbatim>\<open>__expr_resolve_ids\<close> walks a
  tree, resolves its names and prepares the right sides of IN.  The code of a sub-select is generated by
  \<^verbatim>\<open>__select\<close>, an argument here.
\<close>

section \<open>Finding a column\<close>

definition find_column :: "cstring \<Rightarrow> tcolumn list \<Rightarrow> nat option" where
  "find_column z cs = map_option fst (find (\<lambda>(j, c). strcasecmp (col_name c) z = 0) (enumerate 0 cs))"

text \<open>Whether a source is meant by the names of a database and a table, if they are given.\<close>

definition source_matches :: "cstring list \<Rightarrow> cstring option \<Rightarrow> cstring option \<Rightarrow> src_item \<Rightarrow> table \<Rightarrow> bool option" where
  "source_matches dbs dbn tn x t =
     (case tn of
        None \<Rightarrow> Some True
      | Some n \<Rightarrow>
          (case zAlias x of
             Some a \<Rightarrow> Some (strcasecmp a n = 0)
           | None \<Rightarrow>
               (case tname t of
                  None \<Rightarrow> Some False
                | Some m \<Rightarrow>
                    (if strcasecmp m n \<noteq> 0 then Some False
                     else (case dbn of
                             None \<Rightarrow> Some True
                           | Some d \<Rightarrow> if tdb t < length dbs then Some (strcasecmp (dbs ! tdb t) d = 0) else None)))))"

record found =
  f_cnt :: nat
  f_tabs :: nat
  f_table :: int
  f_db :: nat
  f_col :: int
  f_type :: int

text \<open>A column that is the integer primary key stands for the row number.\<close>

definition hit_column :: "table \<Rightarrow> cstring \<Rightarrow> found \<Rightarrow> found" where
  "hit_column t cn F =
     (case find_column cn (aCol t) of
        None \<Rightarrow> F
      | Some j \<Rightarrow> F\<lparr>f_cnt := f_cnt F + 1, f_col := (if int j = iPKey t then -1 else int j),
                    f_type := col_sort (aCol t ! j) AND 6\<rparr>)"

fun scan_sources :: "cstring list \<Rightarrow> cstring option \<Rightarrow> cstring option \<Rightarrow> cstring \<Rightarrow> src_item list \<Rightarrow> found \<Rightarrow> found option" where
  "scan_sources dbs dbn tn cn [] F = Some F"
| "scan_sources dbs dbn tn cn (x # xs) F =
     (case pTab x of
        None \<Rightarrow> scan_sources dbs dbn tn cn xs F
      | Some t \<Rightarrow>
          (if aCol t = [] then None
           else
             do { m \<leftarrow> source_matches dbs dbn tn x t;
                  if \<not> m then scan_sources dbs dbn tn cn xs F
                  else
                    (let F = (if f_tabs F = 0 then F\<lparr>f_table := iCursor x, f_db := tdb t\<rparr> else F);
                         F = F\<lparr>f_tabs := f_tabs F + 1\<rparr>;
                         F = (if find_column cn (aCol t) = None then F
                              else hit_column t cn (F\<lparr>f_table := iCursor x, f_db := tdb t\<rparr>))
                     in scan_sources dbs dbn tn cn xs F) }))"

text \<open>The pseudo tables new and old of a trigger.\<close>

definition scan_trigger :: "trigger_stack option \<Rightarrow> cstring option \<Rightarrow> cstring option \<Rightarrow> cstring \<Rightarrow> found \<Rightarrow> found option" where
  "scan_trigger trig dbn tn cn F =
     (case (dbn, tn, trig) of
        (None, Some n, Some s) \<Rightarrow>
          (if f_cnt F \<noteq> 0 then Some F
           else
             (let new = (newIdx s \<noteq> -1 \<and> strcasecmp ''new'' n = 0); old = (oldIdx s \<noteq> -1 \<and> strcasecmp ''old'' n = 0)
              in if \<not> new \<and> \<not> old then Some F
                 else
                   do { t \<leftarrow> ts_tab s;
                        Some (hit_column t cn (F\<lparr>f_table := (if new then newIdx s else oldIdx s), f_db := tdb t,
                                                 f_tabs := f_tabs F + 1\<rparr>)) }))
      | _ \<Rightarrow> Some F)"

definition scan_rowid :: "cstring \<Rightarrow> found \<Rightarrow> found" where
  "scan_rowid cn F =
     (if f_cnt F = 0 \<and> f_tabs F = 1 \<and> is_row_id cn then F\<lparr>f_cnt := 1, f_col := -1, f_type := SO_NUM\<rparr> else F)"

type_synonym elist = "(cstring option \<times> expr) list"

definition find_alias :: "cstring \<Rightarrow> elist option \<Rightarrow> (nat \<times> expr) option" where
  "find_alias cn es =
     (case es of
        None \<Rightarrow> None
      | Some xs \<Rightarrow>
          map_option (\<lambda>(j, x). (j, snd x))
            (find (\<lambda>(j, x). case fst x of None \<Rightarrow> False | Some a \<Rightarrow> strcasecmp a cn = 0) (enumerate 0 xs)))"

definition full_name :: "cstring option \<Rightarrow> cstring option \<Rightarrow> cstring \<Rightarrow> cstring" where
  "full_name dbn tn cn =
     (case dbn of
        Some d \<Rightarrow> str_append d [''.'', (case tn of None \<Rightarrow> [] | Some t \<Rightarrow> t), ''.'', cn]
      | None \<Rightarrow> (case tn of Some t \<Rightarrow> str_append t [''.'', cn] | None \<Rightarrow> cn))"

definition set_ref :: "found \<Rightarrow> expr \<Rightarrow> expr" where
  "set_ref F e =
     (case e of Expr op d l r es tok it ic ia sel \<Rightarrow> Expr op (f_type F) l r es tok (f_table F) (f_col F) ia sel)"

definition as_alias :: "nat \<Rightarrow> expr \<Rightarrow> expr \<Rightarrow> expr" where
  "as_alias j x e =
     (case e of Expr op d l r es tok it ic ia sel \<Rightarrow> Expr ''TK_AS'' d (Some x) r es tok it (int j) ia sel)"

definition as_column :: "expr \<Rightarrow> expr" where
  "as_column e = (case e of Expr op d l r es tok it ic ia sel \<Rightarrow> Expr ''TK_COLUMN'' d None None es tok it ic ia sel)"

text \<open>Whether there is an error, the new node and the parser.  The tokens of the database, the table and the column
  are given; a copy of a result column is the column itself, since trees are values here.\<close>

definition lookup_name :: "cstring option \<Rightarrow> cstring option \<Rightarrow> cstring \<Rightarrow> src_item list \<Rightarrow> elist option \<Rightarrow> expr \<Rightarrow>
    'f rparser \<Rightarrow> (bool \<times> expr \<times> 'f rparser) option" where
  "lookup_name db_token table_token col_token slist elist e p =
     (let dbn = map_option str_unquote db_token; tn = map_option str_unquote table_token; cn = str_unquote col_token
      in if dbn \<noteq> None \<and> tn = None \<or> tn \<noteq> None \<and> elist \<noteq> None then None
         else
           do { F \<leftarrow> scan_sources (aDb p) dbn tn cn slist
                       \<lparr>f_cnt = 0, f_tabs = 0, f_table = -1, f_db = 0, f_col = iColumn e, f_type = dataType e\<rparr>;
                F \<leftarrow> scan_trigger (trigStack p) dbn tn cn F;
                let F = scan_rowid cn F;
                let e = set_ref F e;
                case (if f_cnt F = 0 then find_alias cn elist else None) of
                  Some (j, x) \<Rightarrow> if pLeft e \<noteq> None \<or> pRight e \<noteq> None then None else Some (False, as_alias j x e, p)
                | None \<Rightarrow>
                    (if f_cnt F = 0 \<and> tn = None \<and> c_at col_token 0 = CHR 0x22 then Some (False, e, p)
                     else
                       (let p = (if f_cnt F = 1 then p
                                 else rp_error ((if f_cnt F = 0 then ''no such column: '' else ''ambiguous column name: '')
                                        @ full_name dbn tn cn) p)
                        in do { (e, p) \<leftarrow> auth_read (as_column e) (f_db F) slist p;
                                Some (f_cnt F \<noteq> 1, e, p) })) })"

section \<open>Walking a tree\<close>

definition SRT_Mem :: int where "SRT_Mem = 2"
definition SRT_Set :: int where "SRT_Set = 3"

definition with_gen :: "('f cgen \<Rightarrow> 'f cgen option) \<Rightarrow> 'f rparser \<Rightarrow> 'f rparser option" where
  "with_gen f p = map_option (\<lambda>g. p\<lparr>pg := g\<rparr>) (f (pg p))"

text \<open>The members of a list on the right of IN: they have to be constant, and their calls correct.\<close>

fun check_members :: "expr list \<Rightarrow> 'f rparser \<Rightarrow> (bool \<times> expr list \<times> 'f rparser) option" where
  "check_members [] p = Some (False, [], p)"
| "check_members (x # xs) p =
     (if \<not> expr_is_constant x
      then Some (True, x # xs, rp_error ''right-hand side of IN operator must be constant'' p)
      else
        do { (n, _, x, g) \<leftarrow> expr_check x False False (pg p);
             let p = p\<lparr>pg := g\<rparr>;
             if n \<noteq> 0 then Some (True, x # xs, p)
             else do { (b, xs, p) \<leftarrow> check_members xs p; Some (b, x # xs, p) } })"

definition member_code :: "int \<Rightarrow> expr \<Rightarrow> 'f cgen \<Rightarrow> 'f cgen option" where
  "member_code iset x g =
     (if eop x \<in> {''TK_FLOAT'', ''TK_INTEGER'', ''TK_STRING''} then
        do { (addr, g) \<leftarrow> emit OP_SetInsert iset 0 g;
             z \<leftarrow> etoken x;
             g \<leftarrow> with_vm (\<lambda>v. vdbe_change_p3 v addr (Some (P3_text z)) (int (length z))) g;
             with_vm (\<lambda>v. vdbe_dequote_p3 v addr) g }
      else do { g \<leftarrow> expr_code x g; emit_op OP_SetInsert iset 0 g })"

fun members_code :: "int \<Rightarrow> expr list \<Rightarrow> 'f cgen \<Rightarrow> 'f cgen option" where
  "members_code iset [] g = Some g"
| "members_code iset (x # xs) g = do { g \<leftarrow> member_code iset x g; members_code iset xs g }"

definition in_prepare :: "(expr list \<Rightarrow> int \<Rightarrow> int \<Rightarrow> 'f rparser \<Rightarrow> (bool \<times> 'f rparser) option) \<Rightarrow> expr \<Rightarrow> 'f rparser \<Rightarrow>
    (bool \<times> expr \<times> 'f rparser) option" where
  "in_prepare sel e p =
     (case e of Expr op d l r es tok it ic ia s \<Rightarrow>
        (case s of
           Some q \<Rightarrow>
             do { let it = pnTab p;
                  p \<leftarrow> with_gen (emit_op OP_OpenTemp it 1) (p\<lparr>pnTab := pnTab p + 1\<rparr>);
                  (_, p) \<leftarrow> sel q SRT_Set it p;
                  Some (False, Expr op d l r es tok it ic ia s, p) }
         | None \<Rightarrow>
             (case es of
                None \<Rightarrow> Some (False, e, p)
              | Some xs \<Rightarrow>
                  do { (b, xs, p) \<leftarrow> check_members xs p;
                       if b then Some (True, Expr op d l r (Some xs) tok it ic ia s, p)
                       else
                         do { let it = pnSet p;
                              p \<leftarrow> with_gen (members_code it xs) (p\<lparr>pnSet := pnSet p + 1\<rparr>);
                              Some (False, Expr op d l r (Some xs) tok it ic ia s, p) } })))"

definition dot_names :: "expr option \<Rightarrow> expr option \<Rightarrow> (cstring option \<times> cstring option \<times> cstring option) option" where
  "dot_names l r =
     do { left \<leftarrow> l; right \<leftarrow> r;
          if eop right = ''TK_ID'' then Some (None, etoken left, etoken right)
          else if eop right \<noteq> ''TK_DOT'' then None
          else do { t \<leftarrow> pLeft right; c \<leftarrow> pRight right; Some (etoken left, etoken t, etoken c) } }"

definition cursors_ok :: "src_item list \<Rightarrow> 'f rparser \<Rightarrow> bool" where
  "cursors_ok xs p \<longleftrightarrow> list_all (\<lambda>x. 0 \<le> iCursor x \<and> iCursor x < pnTab p) xs"

fun resolve_ids :: "(expr list \<Rightarrow> int \<Rightarrow> int \<Rightarrow> 'f rparser \<Rightarrow> (bool \<times> 'f rparser) option) \<Rightarrow> src_item list \<Rightarrow> elist option \<Rightarrow>
    expr \<Rightarrow> 'f rparser \<Rightarrow> (bool \<times> expr \<times> 'f rparser) option"
  and resolve_opt :: "(expr list \<Rightarrow> int \<Rightarrow> int \<Rightarrow> 'f rparser \<Rightarrow> (bool \<times> 'f rparser) option) \<Rightarrow> src_item list \<Rightarrow> elist option \<Rightarrow>
    expr option \<Rightarrow> 'f rparser \<Rightarrow> (bool \<times> expr option \<times> 'f rparser) option"
  and resolve_list :: "(expr list \<Rightarrow> int \<Rightarrow> int \<Rightarrow> 'f rparser \<Rightarrow> (bool \<times> 'f rparser) option) \<Rightarrow> src_item list \<Rightarrow> elist option \<Rightarrow>
    expr list \<Rightarrow> 'f rparser \<Rightarrow> (bool \<times> expr list \<times> 'f rparser) option" where
  "resolve_ids sel slist elist (Expr op d l r es tok it ic ia s) p =
     (if \<not> cursors_ok slist p then None
      else if op = ''TK_STRING'' \<and> tok = None then None
      else if op = ''TK_STRING'' \<and> c_at (the tok) 0 = CHR 0x27 then Some (False, Expr op d l r es tok it ic ia s, p)
      else if op = ''TK_STRING'' \<or> op = ''TK_ID'' then
        do { z \<leftarrow> tok; lookup_name None None z slist elist (Expr op d l r es tok it ic ia s) p }
      else if op = ''TK_DOT'' then
        do { (dbt, tt, ct) \<leftarrow> dot_names l r;
             c \<leftarrow> ct;
             lookup_name dbt tt c slist None (Expr op d l r es tok it ic ia s) p }
      else if op = ''TK_IN'' then
        do { (b, l, p) \<leftarrow> resolve_opt sel slist elist l p;
             if b then Some (True, Expr op d l r es tok it ic ia s, p)
             else in_prepare sel (Expr op d l r es tok it ic ia s) p }
      else if op = ''TK_SELECT'' then
        do { let ic = pnMem p;
             (b, p) \<leftarrow> (case s of None \<Rightarrow> None | Some q \<Rightarrow> sel q SRT_Mem ic (p\<lparr>pnMem := pnMem p + 1\<rparr>));
             Some (b, Expr op d l r es tok it ic ia s, p) }
      else
        do { (b, l, p) \<leftarrow> resolve_opt sel slist elist l p;
             if b then Some (True, Expr op d l r es tok it ic ia s, p)
             else
               do { (b, r, p) \<leftarrow> resolve_opt sel slist elist r p;
                    if b then Some (True, Expr op d l r es tok it ic ia s, p)
                    else (case es of
                            None \<Rightarrow> Some (False, Expr op d l r es tok it ic ia s, p)
                          | Some xs \<Rightarrow>
                              do { (b, xs, p) \<leftarrow> resolve_list sel slist elist xs p;
                                   Some (b, Expr op d l r (Some xs) tok it ic ia s, p) }) } })"
| "resolve_opt sel slist elist None p = Some (False, None, p)"
| "resolve_opt sel slist elist (Some e) p =
     do { (b, e, p) \<leftarrow> resolve_ids sel slist elist e p; Some (b, Some e, p) }"
| "resolve_list sel slist elist [] p = Some (False, [], p)"
| "resolve_list sel slist elist (x # xs) p =
     do { (b, x, p) \<leftarrow> resolve_ids sel slist elist x p;
          if b then Some (True, x # xs, p)
          else do { (b, xs, p) \<leftarrow> resolve_list sel slist elist xs p; Some (b, x # xs, p) } }"

text \<open>Without sources there is nothing to resolve.\<close>

definition expr_resolve_ids :: "(expr list \<Rightarrow> int \<Rightarrow> int \<Rightarrow> 'f rparser \<Rightarrow> (bool \<times> 'f rparser) option) \<Rightarrow> src_item list option \<Rightarrow>
    elist option \<Rightarrow> expr option \<Rightarrow> 'f rparser \<Rightarrow> (bool \<times> expr option \<times> 'f rparser) option" where
  "expr_resolve_ids sel slist elist e p =
     (case slist of None \<Rightarrow> Some (False, e, p) | Some xs \<Rightarrow> resolve_opt sel xs elist e p)"

end
