(* ===== verification/ExprAsm.thy ===== *)
theory ExprAsm
  imports ExprCode
begin

text \<open>
  What the expression compiler of \<^verbatim>\<open>src/cg_expr.c\<close> produces, as lists of instructions with direct
  addresses.  \<open>shape\<close> says which operands an expression has and which instruction works on them; the
  generator, which patches jumps and resolves labels as it goes, appends exactly these lists.
\<close>

section \<open>Instructions\<close>

definition mk :: "int \<Rightarrow> int \<Rightarrow> int \<Rightarrow> 'f vdbe_op" where
  "mk op x1 x2 = \<lparr>opcode = op, p1 = x1, p2 = x2, p3 = None, p3type = P3_NOTUSED\<rparr>"

definition mk_text :: "int \<Rightarrow> int \<Rightarrow> cstring \<Rightarrow> 'f vdbe_op" where
  "mk_text op x1 z = \<lparr>opcode = op, p1 = x1, p2 = 0, p3 = Some (P3_text z), p3type = P3_DYNAMIC\<rparr>"

definition mk_call :: "nat \<Rightarrow> 'f \<Rightarrow> 'f vdbe_op" where
  "mk_call n f = \<lparr>opcode = OP_Function, p1 = int n, p2 = 0, p3 = Some (P3_object f), p3type = P3_POINTER\<rparr>"

definition number_op :: "tk \<Rightarrow> cstring \<Rightarrow> cstring \<Rightarrow> 'f vdbe_op" where
  "number_op op z t =
     (if op = ''TK_INTEGER'' \<and> str_int_in32b z then mk_text OP_Integer (sint (atoi z)) t else mk_text OP_String 0 t)"

section \<open>Shapes\<close>

datatype 'f shape =
    One "'f func_def vdbe_op"
  | Binary expr expr int int
  | Unary expr int
  | Null_test expr int
  | Call "expr list" "'f func_def"
  | Between expr expr expr
  | Same expr
  | Choose "expr option" "expr list" "expr option"
  | Bad

definition callee :: "'f func_def list hash \<Rightarrow> tk \<Rightarrow> cstring option \<Rightarrow> nat \<Rightarrow> 'f func_def option" where
  "callee H op tok n =
     do { nm \<leftarrow> get_function_name (Expr op 0 None None None tok 0 0 0 None);
          d \<leftarrow> find_no_create H nm (int n);
          d }"

definition leaf_ops :: "tk list" where
  "leaf_ops = [''TK_COLUMN'', ''TK_STRING'', ''TK_FLOAT'', ''TK_INTEGER'', ''TK_NULL'', ''TK_VARIABLE'', ''TK_AGG_FUNCTION'',
     ''TK_SELECT'']"

definition leaf_shape :: "bool \<Rightarrow> tk \<Rightarrow> cstring option \<Rightarrow> int \<Rightarrow> int \<Rightarrow> int \<Rightarrow> 'f shape" where
  "leaf_shape agg op tok it ic ia =
     (if op = ''TK_COLUMN'' then
        (if agg then (if ia \<ge> 0 then One (mk OP_AggGet 0 ia) else Bad)
         else if ic \<ge> 0 then One (mk OP_Column it ic) else One (mk OP_Recno it 0))
      else if op = ''TK_NULL'' then One (mk OP_String 0 0)
      else if op = ''TK_VARIABLE'' then One (mk OP_Variable it 0)
      else if op = ''TK_AGG_FUNCTION'' then (if ia \<ge> 0 then One (mk OP_AggGet 0 ia) else Bad)
      else if op = ''TK_SELECT'' then One (mk OP_MemLoad ic 0)
      else (case tok of None \<Rightarrow> Bad | Some z \<Rightarrow> One (number_op op z (str_unquote (cstr z)))))"

definition two :: "expr option \<Rightarrow> expr option \<Rightarrow> int option \<Rightarrow> int \<Rightarrow> 'f shape" where
  "two l r c k = (case l of Some x \<Rightarrow> (case r of Some y \<Rightarrow> (case c of Some c \<Rightarrow> Binary x y c k | None \<Rightarrow> Bad) | None \<Rightarrow> Bad) | None \<Rightarrow> Bad)"

definition minus_shape :: "expr \<Rightarrow> 'f shape" where
  "minus_shape e =
     (if eop e \<in> {''TK_FLOAT'', ''TK_INTEGER''} then
        (case etoken e of None \<Rightarrow> Bad | Some z \<Rightarrow> One (number_op (eop e) (CHR ''-'' # z) (cstr (CHR ''-'' # z))))
      else Unary e OP_Negative)"

definition shape :: "bool \<Rightarrow> 'f func_def list hash \<Rightarrow> expr \<Rightarrow> 'f shape" where
  "shape U H e =
     (case e of Expr op d l r es tok it ic ia sel \<Rightarrow>
       (if op \<in> set leaf_ops then leaf_shape U op tok it ic ia
        else if op \<in> set cmp_ops then two l r (cmp_opcode (code_op op) (expr_type e)) 0
        else if op \<in> set bin_ops then two l r (Some (code_op op)) 0
        else if op \<in> {''TK_LSHIFT'', ''TK_RSHIFT''} then two r l (Some (code_op op)) 0
        else if op = ''TK_CONCAT'' then two l r (Some OP_Concat) 2
        else if op = ''TK_UMINUS'' then (case l of None \<Rightarrow> Bad | Some e \<Rightarrow> minus_shape e)
        else if op \<in> {''TK_BITNOT'', ''TK_NOT''} then (case l of None \<Rightarrow> Bad | Some e \<Rightarrow> Unary e (code_op op))
        else if op \<in> {''TK_ISNULL'', ''TK_NOTNULL''} then (case l of None \<Rightarrow> Bad | Some e \<Rightarrow> Null_test e (code_op op))
        else if op \<in> {''TK_GLOB'', ''TK_LIKE'', ''TK_FUNCTION''} then
          (case callee H op tok (nExpr es) of None \<Rightarrow> Bad
           | Some f \<Rightarrow> Call (case es of None \<Rightarrow> [] | Some xs \<Rightarrow> xs) f)
        else if op = ''TK_BETWEEN'' then
          (case l of None \<Rightarrow> Bad
           | Some x \<Rightarrow> (case es of Some (lo # hi # _) \<Rightarrow> Between x lo hi | _ \<Rightarrow> Bad))
        else if op \<in> {''TK_UPLUS'', ''TK_AS''} then (case l of None \<Rightarrow> Bad | Some e \<Rightarrow> Same e)
        else if op = ''TK_CASE'' then
          (case es of Some xs \<Rightarrow> (if odd (length xs) \<or> xs = [] then Bad else Choose l xs r) | None \<Rightarrow> Bad)
        else Bad))"

lemma leaf_shape_not [simp]:
  "leaf_shape U op tok it ic ia \<noteq> Binary x y c k" "leaf_shape U op tok it ic ia \<noteq> Unary x c"
  "leaf_shape U op tok it ic ia \<noteq> Null_test x c" "leaf_shape U op tok it ic ia \<noteq> Call xs f"
  "leaf_shape U op tok it ic ia \<noteq> Between x y z" "leaf_shape U op tok it ic ia \<noteq> Same x"
  "leaf_shape U op tok it ic ia \<noteq> Choose l xs r"
  by (auto simp: leaf_shape_def split: option.splits if_splits)

lemma two_eq [simp]:
  "two l r c k = Binary x y d j \<longleftrightarrow> l = Some x \<and> r = Some y \<and> c = Some d \<and> k = j"
  "two l r c k \<noteq> One i" "two l r c k \<noteq> Unary x j" "two l r c k \<noteq> Null_test x j" "two l r c k \<noteq> Call xs f"
  "two l r c k \<noteq> Between x y z" "two l r c k \<noteq> Same x" "two l r c k \<noteq> Choose l' xs r'"
  by (auto simp: two_def split: option.splits)

lemma minus_shape_not [simp]:
  "minus_shape e \<noteq> Binary x y c k" "minus_shape e \<noteq> Null_test x c" "minus_shape e \<noteq> Call xs f"
  "minus_shape e \<noteq> Between x y z" "minus_shape e \<noteq> Same x" "minus_shape e \<noteq> Choose l xs r"
  by (auto simp: minus_shape_def split: option.splits)

lemma minus_shape_Unary: "minus_shape e = Unary x c \<Longrightarrow> x = e"
  by (auto simp: minus_shape_def split: option.splits if_splits)

lemma size_mem: "x \<in> set xs \<Longrightarrow> size x < size_list size xs"
  by (induction xs) auto

text \<open>Every operand is smaller.\<close>

lemma shape_size:
  "shape U H e = Binary x y c k \<Longrightarrow> size x < size e \<and> size y < size e"
  "shape U H e = Unary x c \<Longrightarrow> size x < size e"
  "shape U H e = Null_test x c \<Longrightarrow> size x < size e"
  "shape U H e = Call xs f \<Longrightarrow> size_list size xs < size e"
  "shape U H e = Between x y z \<Longrightarrow> size x < size e \<and> size y < size e \<and> size z < size e"
  "shape U H e = Same x \<Longrightarrow> size x < size e"
  "shape U H e = Choose l xs r \<Longrightarrow> size_option size l < size e \<and> size_list size xs < size e \<and> size_option size r < size e"
  by (cases e; auto simp: shape_def split: if_splits option.splits list.splits dest: minus_shape_Unary)+

section \<open>The code of a value\<close>

definition arm_ops :: "bool \<Rightarrow> int \<Rightarrow> 'f vdbe_op list" where
  "arm_ops hl x =
     (if hl then [mk OP_Dup 1 1, mk OP_Ne 1 x, mk OP_Pop 1 0] else [mk OP_IfNot 1 x])"

function (sequential) code :: "bool \<Rightarrow> 'f func_def list hash \<Rightarrow> expr \<Rightarrow> nat \<Rightarrow> 'f func_def vdbe_op list"
  and opt_ops :: "bool \<Rightarrow> 'f func_def list hash \<Rightarrow> 'f func_def vdbe_op list \<Rightarrow> expr option \<Rightarrow> nat \<Rightarrow> 'f func_def vdbe_op list"
  and args_ops :: "bool \<Rightarrow> 'f func_def list hash \<Rightarrow> expr list \<Rightarrow> nat \<Rightarrow> 'f func_def vdbe_op list"
  and arms_ops :: "bool \<Rightarrow> 'f func_def list hash \<Rightarrow> bool \<Rightarrow> int \<Rightarrow> expr list \<Rightarrow> nat \<Rightarrow> 'f func_def vdbe_op list" where
  "code U H e a =
     (case shape U H e of
        One x \<Rightarrow> [x]
      | Binary x y c k \<Rightarrow> (let X = code U H x a; Y = code U H y (a + length X) in X @ Y @ [mk c k 0])
      | Unary x c \<Rightarrow> code U H x a @ [mk c 0 0]
      | Null_test x c \<Rightarrow>
          (let X = code U H x (a + 1)
           in mk OP_Integer 1 0 # X @ [mk c 1 (int (a + 1 + length X) + 2), mk OP_AddImm (-1) 0])
      | Call xs f \<Rightarrow> args_ops U H xs a @ [mk_call (length xs) f]
      | Between x lo hi \<Rightarrow>
          (let X = code U H x a; Y = code U H lo (a + length X + 1); Z = code U H hi (a + length X + length Y + 3)
           in X @ [mk OP_Dup 0 0] @ Y @ [mk OP_Ge 0 0, mk OP_Pull 1 0] @ Z @ [mk OP_Le 0 0, mk OP_And 0 0])
      | Same x \<Rightarrow> code U H x a
      | Choose l xs r \<Rightarrow>
          (let X = opt_ops U H [] l a; b = a + length X;
               Y = arms_ops U H (l \<noteq> None) 0 xs b;
               W = (if l \<noteq> None then [mk OP_Pop 1 0] else []);
               Z = opt_ops U H [mk OP_String 0 0] r (b + length Y + length W)
           in X @ arms_ops U H (l \<noteq> None) (int (b + length Y + length W + length Z)) xs b @ W @ Z)
      | Bad \<Rightarrow> [])"
| "opt_ops U H D None a = D"
| "opt_ops U H D (Some e) a = code U H e a"
| "args_ops U H [] a = []"
| "args_ops U H (x # xs) a = (let X = code U H x a in X @ args_ops U H xs (a + length X))"
| "arms_ops U H hl lend (w # t # xs) a =
     (let X = code U H w a; k = (if hl then 3 else 1); Y = code U H t (a + length X + k);
          n = a + length X + k + length Y + 1
      in X @ arm_ops hl (int n) @ Y @ [mk OP_Goto 0 lend] @ arms_ops U H hl lend xs n)"
| "arms_ops U H hl lend _ a = []"
  by pat_completeness auto
termination
  by (relation "measure (\<lambda>x. case x of Inl (Inl (_, _, e, _)) \<Rightarrow> 2 * size e | Inl (Inr (_, _, _, e, _)) \<Rightarrow> 2 * size_option size e + 1
      | Inr (Inl (_, _, xs, _)) \<Rightarrow> 2 * size_list size xs + 1 | Inr (Inr (_, _, _, _, xs, _)) \<Rightarrow> 2 * size_list size xs + 1)")
    (auto dest: shape_size)

declare code.simps [simp del]

lemma code_shape:
  "shape U H e = One i \<Longrightarrow> code U H e a = [i]"
  "shape U H e = Binary x y c k \<Longrightarrow> code U H e a =
     code U H x a @ code U H y (a + length (code U H x a)) @ [mk c k 0]"
  "shape U H e = Unary x c \<Longrightarrow> code U H e a = code U H x a @ [mk c 0 0]"
  "shape U H e = Call xs f \<Longrightarrow> code U H e a = args_ops U H xs a @ [mk_call (length xs) f]"
  "shape U H e = Same x \<Longrightarrow> code U H e a = code U H x a"
  by (simp_all add: code.simps [of U H e a] Let_def)

lemma code_Null_test:
  "shape U H e = Null_test x c \<Longrightarrow> code U H e a =
     mk OP_Integer 1 0 # code U H x (a + 1)
       @ [mk c 1 (int (a + 1 + length (code U H x (a + 1))) + 2), mk OP_AddImm (-1) 0]"
  by (simp add: code.simps [of U H e a] Let_def)

lemma code_Between:
  assumes "shape U H e = Between x lo hi" and "X = code U H x a" and "Y = code U H lo (a + length X + 1)"
    and "Z = code U H hi (a + length X + length Y + 3)"
  shows "code U H e a = X @ [mk OP_Dup 0 0] @ Y @ [mk OP_Ge 0 0, mk OP_Pull 1 0] @ Z @ [mk OP_Le 0 0, mk OP_And 0 0]"
  using assms by (simp add: code.simps [of U H e a] Let_def)

lemma code_Choose:
  assumes "shape U H e = Choose l xs r" and "X = opt_ops U H [] l a" and "b = a + length X"
    and "n = length (arms_ops U H (l \<noteq> None) 0 xs b)" and "W = (if l \<noteq> None then [mk OP_Pop 1 0] else [])"
    and "Z = opt_ops U H [mk OP_String 0 0] r (b + n + length W)"
  shows "code U H e a = X @ arms_ops U H (l \<noteq> None) (int (b + n + length W + length Z)) xs b @ W @ Z"
  using assms by (simp add: code.simps [of U H e a] Let_def)

lemma shape_size_mem:
  "shape U H e = Call xs f \<Longrightarrow> x \<in> set xs \<Longrightarrow> size x < size e"
  "shape U H e = Choose l xs r \<Longrightarrow> x \<in> set xs \<Longrightarrow> size x < size e"
  "shape U H e = Choose l xs r \<Longrightarrow> x \<in> set_option l \<union> set_option r \<Longrightarrow> size x < size e"
  using shape_size(4,7) size_mem [of x xs] by fastforce+

text \<open>Expressions all of whose parts have a shape.\<close>

function fits :: "bool \<Rightarrow> 'f func_def list hash \<Rightarrow> expr \<Rightarrow> bool" where
  "fits U H e =
     (case shape U H e of
        One x \<Rightarrow> True
      | Binary x y c k \<Rightarrow> fits U H x \<and> fits U H y
      | Unary x c \<Rightarrow> fits U H x
      | Null_test x c \<Rightarrow> fits U H x
      | Call xs f \<Rightarrow> list_all (fits U H) xs
      | Between x lo hi \<Rightarrow> fits U H x \<and> fits U H lo \<and> fits U H hi
      | Same x \<Rightarrow> fits U H x
      | Choose l xs r \<Rightarrow> pred_option (fits U H) l \<and> list_all (fits U H) xs \<and> pred_option (fits U H) r
      | Bad \<Rightarrow> False)"
  by pat_completeness auto
termination
  by (relation "measure (\<lambda>(U, H, e). size e)") (auto dest: shape_size shape_size_mem)

declare fits.simps [simp del]

lemma fits_shape:
  "fits U H e \<Longrightarrow> shape U H e \<noteq> Bad"
  "shape U H e = Binary x y c k \<Longrightarrow> fits U H e \<longleftrightarrow> fits U H x \<and> fits U H y"
  "shape U H e = Unary x c \<Longrightarrow> fits U H e \<longleftrightarrow> fits U H x"
  "shape U H e = Null_test x c \<Longrightarrow> fits U H e \<longleftrightarrow> fits U H x"
  "shape U H e = Call xs f \<Longrightarrow> fits U H e \<longleftrightarrow> (\<forall>x \<in> set xs. fits U H x)"
  "shape U H e = Between x lo hi \<Longrightarrow> fits U H e \<longleftrightarrow> fits U H x \<and> fits U H lo \<and> fits U H hi"
  "shape U H e = Same x \<Longrightarrow> fits U H e \<longleftrightarrow> fits U H x"
  "shape U H e = Choose l xs r \<Longrightarrow> fits U H e \<longleftrightarrow>
     (\<forall>x \<in> set_option l \<union> set xs \<union> set_option r. fits U H x)"
  by (auto simp: fits.simps [of U H e] list_all_iff option.pred_set)

lemma fits_induct [consumes 1, case_names One Binary Unary Null_test Call Between Same Choose]:
  assumes fit: "fits U H e"
    and One: "\<And>e i. shape U H e = One i \<Longrightarrow> P e"
    and Binary: "\<And>e x y c k. shape U H e = Binary x y c k \<Longrightarrow> P x \<Longrightarrow> P y \<Longrightarrow> P e"
    and Unary: "\<And>e x c. shape U H e = Unary x c \<Longrightarrow> P x \<Longrightarrow> P e"
    and Null_test: "\<And>e x c. shape U H e = Null_test x c \<Longrightarrow> P x \<Longrightarrow> P e"
    and Call: "\<And>e xs f. shape U H e = Call xs f \<Longrightarrow> (\<And>x. x \<in> set xs \<Longrightarrow> P x) \<Longrightarrow> P e"
    and Between: "\<And>e x lo hi. shape U H e = Between x lo hi \<Longrightarrow> P x \<Longrightarrow> P lo \<Longrightarrow> P hi \<Longrightarrow> P e"
    and Same: "\<And>e x. shape U H e = Same x \<Longrightarrow> P x \<Longrightarrow> P e"
    and Choose: "\<And>e l xs r. shape U H e = Choose l xs r \<Longrightarrow> (\<And>x. l = Some x \<Longrightarrow> P x) \<Longrightarrow>
      (\<And>x. x \<in> set xs \<Longrightarrow> P x) \<Longrightarrow> (\<And>x. r = Some x \<Longrightarrow> P x) \<Longrightarrow> P e"
  shows "P e"
  using fit
proof (induction "size e" arbitrary: e rule: less_induct)
  case less
  note IH = less.hyps and fit = less.prems
  show ?case
  proof (cases "shape U H e")
    case (One i) then show ?thesis by (rule assms(2))
  next
    case (Binary x y c k)
    then show ?thesis using IH fit shape_size(1) [OF Binary] fits_shape(2) [OF Binary] by (intro assms(3) [OF Binary]) auto
  next
    case (Unary x c)
    then show ?thesis using IH fit shape_size(2) [OF Unary] fits_shape(3) [OF Unary] by (intro assms(4) [OF Unary]) auto
  next
    case (Null_test x c)
    then show ?thesis using IH fit shape_size(3) [OF Null_test] fits_shape(4) [OF Null_test] by (intro assms(5) [OF Null_test]) auto
  next
    case (Call xs f)
    then show ?thesis using IH fit shape_size_mem(1) [OF Call] fits_shape(5) [OF Call] by (intro assms(6) [OF Call]) auto
  next
    case (Between x lo hi)
    then show ?thesis using IH fit shape_size(5) [OF Between] fits_shape(6) [OF Between] by (intro assms(7) [OF Between]) auto
  next
    case (Same x)
    then show ?thesis using IH fit shape_size(6) [OF Same] fits_shape(7) [OF Same] by (intro assms(8) [OF Same]) auto
  next
    case (Choose l xs r)
    then show ?thesis using IH fit shape_size_mem(2,3) [OF Choose] fits_shape(8) [OF Choose] by (intro assms(9) [OF Choose]) auto
  next
    case Bad
    then show ?thesis using fit fits_shape(1) by blast
  qed
qed

lemma args_len:
  "(\<And>x a b. x \<in> set xs \<Longrightarrow> length (code U H x a) = length (code U H x b)) \<Longrightarrow>
    length (args_ops U H xs a) = length (args_ops U H xs b)"
proof (induction xs arbitrary: a b)
  case (Cons x xs)
  then show ?case by (simp add: Let_def) (metis Cons.prems list.set_intros(1))
qed simp

lemma arm_ops_len [simp]: "length (arm_ops hl x) = (if hl then 3 else 1)"
  by (simp add: arm_ops_def)

lemma arms_len:
  "(\<And>x a b. x \<in> set xs \<Longrightarrow> length (code U H x a) = length (code U H x b)) \<Longrightarrow>
    length (arms_ops U H hl l xs a) = length (arms_ops U H hl m xs b)"
proof (induction xs arbitrary: a b rule: induct_list012)
  case (3 w t xs)
  have w: "length (code U H w a) = length (code U H w b)" and t: "length (code U H t a) = length (code U H t b)" for a b
    by (rule "3.prems"; simp)+
  have xs: "length (arms_ops U H hl l xs a) = length (arms_ops U H hl m xs b)" for a b
    by (rule "3.IH"(1)) (rule "3.prems", simp)
  show ?case
    unfolding arms_ops.simps Let_def length_append by (intro arg_cong2 [where f = "(+)"] w t xs) simp_all
qed simp_all

text \<open>The length of the code does not depend on where it is placed.\<close>

lemma code_len: "fits U H e \<Longrightarrow> length (code U H e a) = length (code U H e b)"
proof (induction arbitrary: a b rule: fits_induct)
  case (Between e x lo hi)
  show ?case
    unfolding code_Between [OF Between.hyps refl refl refl] length_append
    by (intro arg_cong2 [where f = "(+)"] Between.IH refl)
next
  case (Choose e l xs r)
  have X: "length (opt_ops U H D l a) = length (opt_ops U H D l b)" for D a b
    using Choose.IH(1) by (cases l) auto
  have Z: "length (opt_ops U H D r a) = length (opt_ops U H D r b)" for D a b
    using Choose.IH(3) by (cases r) auto
  have Y: "length (arms_ops U H hl m xs a) = length (arms_ops U H hl m' xs b)" for hl m m' a b
    by (rule arms_len) (rule Choose.IH(2))
  show ?case
    unfolding code_Choose [OF Choose.hyps refl refl refl refl refl] length_append
    by (intro arg_cong2 [where f = "(+)"] X Y Z refl)
next
  case (Binary e x y c k)
  show ?case
    unfolding code_shape(2) [OF Binary.hyps] length_append by (intro arg_cong2 [where f = "(+)"] Binary.IH) simp
next
  case (Call e xs f)
  show ?case unfolding code_shape(4) [OF Call.hyps] using args_len [of xs U H a b] Call.IH by simp
next
  case (Unary e x c)
  show ?case using Unary.IH [of a b] by (simp add: code_shape(3) [OF Unary.hyps])
next
  case (Null_test e x c)
  show ?case using Null_test.IH [of "a + 1" "b + 1"] by (simp add: code_Null_test [OF Null_test.hyps])
next
  case (Same e x)
  show ?case using Same.IH [of a b] by (simp add: code_shape(5) [OF Same.hyps])
qed (simp add: code_shape)

section \<open>Operands of the code\<close>

lemma mk_simps [simp]: "p2 (mk c x y) = y" "p2 (mk_text c x z) = 0" "p2 (mk_call n f) = 0"
  by (simp_all add: mk_def mk_text_def mk_call_def)

lemma shape_One_nonneg: "shape U H e = One i \<Longrightarrow> 0 \<le> p2 i"
  by (cases e) (auto simp: shape_def leaf_shape_def minus_shape_def number_op_def split: if_splits option.splits list.splits)

lemma args_nonneg:
  "(\<And>x a i. x \<in> set xs \<Longrightarrow> i \<in> set (code U H x a) \<Longrightarrow> 0 \<le> p2 i) \<Longrightarrow> i \<in> set (args_ops U H xs a) \<Longrightarrow> 0 \<le> p2 i"
  by (induction xs arbitrary: a) (auto simp: Let_def)

lemma arms_nonneg:
  "(\<And>x a i. x \<in> set xs \<Longrightarrow> i \<in> set (code U H x a) \<Longrightarrow> 0 \<le> p2 i) \<Longrightarrow> i \<in> set (arms_ops U H hl l xs a) \<Longrightarrow>
    0 \<le> p2 i \<or> p2 i = l"
proof (induction xs arbitrary: a rule: induct_list012)
  case (3 w t xs)
  have IH: "i \<in> set (arms_ops U H hl l xs a) \<Longrightarrow> 0 \<le> p2 i \<or> p2 i = l" for a
    by (rule "3.IH"(1)) (rule "3.prems"(1), simp_all)
  have "i \<in> set (code U H w a) \<Longrightarrow> 0 \<le> p2 i" "i \<in> set (code U H t a) \<Longrightarrow> 0 \<le> p2 i" for a
    by (rule "3.prems"(1); simp)+
  then show ?case using "3.prems"(2) IH by (auto simp: Let_def arm_ops_def split: if_splits)
qed simp_all

lemma code_nonneg: "fits U H e \<Longrightarrow> i \<in> set (code U H e a) \<Longrightarrow> 0 \<le> p2 i"
proof (induction arbitrary: a i rule: fits_induct)
  case (One e j)
  then show ?case using shape_One_nonneg by (auto simp: code_shape)
next
  case (Between e x lo hi)
  then show ?case by (auto simp: code_Between [OF Between.hyps refl refl refl])
next
  case (Choose e l xs r)
  have X: "i \<in> set (opt_ops U H [] l a) \<Longrightarrow> 0 \<le> p2 i" for i a using Choose.IH(1) by (cases l) auto
  have Z: "i \<in> set (opt_ops U H [mk OP_String 0 0] r a) \<Longrightarrow> 0 \<le> p2 i" for i a using Choose.IH(3) by (cases r) auto
  show ?case
    using Choose.prems X Z arms_nonneg [OF Choose.IH(2)]
    unfolding code_Choose [OF Choose.hyps refl refl refl refl refl]
    by (fastforce split: if_splits)
next
  case (Call e xs f)
  show ?case using Call.prems args_nonneg [OF Call.IH] by (auto simp: code_shape(4) [OF Call.hyps])
qed (auto simp: code_shape code_Null_test)

text \<open>Resolving a label changes exactly the operands that are the label.\<close>

definition patch :: "int \<Rightarrow> int \<Rightarrow> 'f vdbe_op \<Rightarrow> 'f vdbe_op" where
  "patch l v i = (if p2 i = l then i\<lparr>p2 := v\<rparr> else i)"

lemma patch_other: "(\<And>i. i \<in> set xs \<Longrightarrow> p2 i \<noteq> l) \<Longrightarrow> map (patch l v) xs = xs"
  by (simp add: patch_def map_idI)

lemma patch_code: "fits U H e \<Longrightarrow> l < 0 \<Longrightarrow> map (patch l v) (code U H e a) = code U H e a"
  using code_nonneg by (intro patch_other) force

lemma patch_mk [simp]: "patch l v (mk c x y) = mk c x (if y = l then v else y)"
  by (simp add: patch_def mk_def)

lemma patch_arm: "l < 0 \<Longrightarrow> 0 \<le> n \<Longrightarrow> map (patch l v) (arm_ops hl n) = arm_ops hl n"
  by (simp add: arm_ops_def)

lemma patch_arms:
  "(\<And>x. x \<in> set xs \<Longrightarrow> fits U H x) \<Longrightarrow> l < 0 \<Longrightarrow>
    map (patch l v) (arms_ops U H hl l xs a) = arms_ops U H hl v xs a"
  by (induction xs arbitrary: a rule: induct_list012) (simp_all add: Let_def patch_code patch_arm)

section \<open>The program builder\<close>

text \<open>A builder whose jumps go to labels it has made, and operands that are not labels already
  resolved.\<close>

definition binv :: "'f vdbe_prog \<Rightarrow> bool" where
  "binv v \<longleftrightarrow> prog_wf v \<and> (\<forall>i \<in> set (program v). - int (nLabel v) \<le> p2 i)"

definition open_dest :: "'f vdbe_prog \<Rightarrow> int \<Rightarrow> bool" where
  "open_dest v x \<longleftrightarrow> - int (nLabel v) \<le> x \<and> label_target v x = x"

lemma open_dest_nonneg [simp]: "0 \<le> x \<Longrightarrow> open_dest v x"
  by (simp add: open_dest_def label_target_def)

text \<open>The parser after instructions were appended: only the program and the number of labels grow.\<close>

definition ext :: "'f cgen \<Rightarrow> 'f func_def vdbe_op list \<Rightarrow> 'f cgen \<Rightarrow> bool" where
  "ext p ops q \<longleftrightarrow> q = p\<lparr>gen_vm := gen_vm q\<rparr> \<and> binv (gen_vm q) \<and> program (gen_vm q) = program (gen_vm p) @ ops
     \<and> nLabel (gen_vm p) \<le> nLabel (gen_vm q)
     \<and> take (nLabel (gen_vm p)) (aLabel (gen_vm q)) = aLabel (gen_vm p)"

definition appends :: "'f cgen option \<Rightarrow> 'f cgen \<Rightarrow> 'f func_def vdbe_op list \<Rightarrow> bool" where
  "appends r p ops \<longleftrightarrow> (\<exists>q. r = Some q \<and> ext p ops q)"

lemma prog_len: "prog_wf v \<Longrightarrow> length (program v) = nOp v"
  by (simp add: prog_wf_def program_def)

lemma ext_keeps:
  assumes "ext p ops q" and "binv (gen_vm p)"
  shows "binv (gen_vm q)" "nOp (gen_vm q) = nOp (gen_vm p) + length ops" "useAgg q = useAgg p" "gen_fns q = gen_fns p"
    "nLabel (gen_vm p) \<le> nLabel (gen_vm q)" "open_dest (gen_vm p) x \<Longrightarrow> open_dest (gen_vm q) x"
proof -
  have q: "q = p\<lparr>gen_vm := gen_vm q\<rparr>" and b: "binv (gen_vm q)"
    and P: "program (gen_vm q) = program (gen_vm p) @ ops" and n: "nLabel (gen_vm p) \<le> nLabel (gen_vm q)"
    and L: "take (nLabel (gen_vm p)) (aLabel (gen_vm q)) = aLabel (gen_vm p)"
    using assms(1) by (auto simp: ext_def)
  show "binv (gen_vm q)" "nLabel (gen_vm p) \<le> nLabel (gen_vm q)" by fact+
  show "useAgg q = useAgg p" "gen_fns q = gen_fns p" using q by (metis cgen.select_convs cgen.surjective cgen.update_convs(1))+
  have "length (program (gen_vm q)) = nOp (gen_vm q)" "length (program (gen_vm p)) = nOp (gen_vm p)"
    using assms(2) b by (auto simp: binv_def prog_len)
  then show "nOp (gen_vm q) = nOp (gen_vm p) + length ops" using P by simp
  show "open_dest (gen_vm p) x \<Longrightarrow> open_dest (gen_vm q) x"
    using n L nth_take [of "nat (-1 - x)" "nLabel (gen_vm p)" "aLabel (gen_vm q)"]
    by (auto simp: open_dest_def label_target_def split: if_splits)
qed

lemma ext_trans:
  assumes "ext p A q" and "ext q B r" shows "ext p (A @ B) r"
proof -
  have "take (nLabel (gen_vm p)) (aLabel (gen_vm r)) = take (nLabel (gen_vm p)) (take (nLabel (gen_vm q)) (aLabel (gen_vm r)))"
    using assms(1) by (simp add: ext_def min_absorb1)
  moreover have "r = p\<lparr>gen_vm := gen_vm r\<rparr>"
    using assms unfolding ext_def by (metis cgen.surjective cgen.update_convs(1))
  moreover have "take (nLabel (gen_vm p)) (aLabel (gen_vm q)) = aLabel (gen_vm p)"
    "take (nLabel (gen_vm q)) (aLabel (gen_vm r)) = aLabel (gen_vm q)"
    using assms by (simp_all add: ext_def)
  ultimately show ?thesis using assms by (simp add: ext_def)
qed

lemma appends_bind:
  "appends r p A \<Longrightarrow> (\<And>q. ext p A q \<Longrightarrow> appends (g q) q B) \<Longrightarrow> appends (r \<bind> g) p (A @ B)"
  unfolding appends_def by (metis Option.bind.simps(2) ext_trans)

lemma appends_Nil: "binv (gen_vm p) \<Longrightarrow> appends (Some p) p []"
  by (auto simp: appends_def ext_def binv_def prog_wf_def)

lemma emit_ext:
  assumes "binv (gen_vm p)" and "open_dest (gen_vm p) x2"
  shows "\<exists>q. emit op x1 x2 p = Some (int (nOp (gen_vm p)), q) \<and> ext p [mk op x1 x2] q"
proof -
  let ?v = "gen_vm p"
  define ops where
    "ops = (if nOp ?v \<ge> length (aOp ?v) then aOp ?v @ replicate (length (aOp ?v) + 100) zero_op else aOp ?v)"
  have w: "prog_wf ?v" and n: "nOp ?v < length ops" and t: "take (nOp ?v) ops = program ?v"
    using assms(1) by (auto simp: ops_def binv_def prog_wf_def program_def)
  have l: "label_target (?v\<lparr>nOp := nOp ?v + 1\<rparr>) x2 = x2"
    using assms(2) by (auto simp: open_dest_def label_target_def split: if_splits)
  let ?w = "?v\<lparr>nOp := nOp ?v + 1, aOp := ops[nOp ?v := mk op x1 x2]\<rparr>"
  have step: "vdbe_add_op True ?v op x1 x2 = Some (int (nOp ?v), ?w)"
    using n w l by (auto simp: vdbe_add_op_def Let_def ops_def mk_def prog_wf_def)
  have "program ?w = program ?v @ [mk op x1 x2]"
    using n t by (simp add: program_def take_Suc_conv_app_nth)
  moreover have "prog_wf ?w" using w n by (auto simp: prog_wf_def)
  ultimately have "ext p [mk op x1 x2] (p\<lparr>gen_vm := ?w\<rparr>)"
    using assms w by (auto simp: ext_def binv_def prog_wf_def open_dest_def)
  then show ?thesis using step by (simp add: emit_def)
qed

lemma emit_op_ext: "binv (gen_vm p) \<Longrightarrow> open_dest (gen_vm p) x2 \<Longrightarrow> appends (emit_op op x1 x2 p) p [mk op x1 x2]"
  using emit_ext [of p x2 op x1] by (auto simp: appends_def emit_op_def)

text \<open>Changing an instruction that was appended.\<close>

definition upd_op :: "nat \<Rightarrow> 'f func_def vdbe_op \<Rightarrow> 'f cgen \<Rightarrow> 'f cgen" where
  "upd_op n j q = q\<lparr>gen_vm := (gen_vm q)\<lparr>aOp := (aOp (gen_vm q))[n := j]\<rparr>\<rparr>"

lemma ext_upd:
  assumes e: "ext p (A @ i # B) q" and b: "binv (gen_vm p)" and j: "- int (nLabel (gen_vm p)) \<le> p2 j"
  shows "ext p (A @ j # B) (upd_op (nOp (gen_vm p) + length A) j q)"
    and "nOp (gen_vm p) + length A < nOp (gen_vm q)" and "nOp (gen_vm q) \<le> length (aOp (gen_vm q))"
    and "aOp (gen_vm q) ! (nOp (gen_vm p) + length A) = i" and "magic (gen_vm q) = MAGIC_INIT"
proof -
  let ?v = "gen_vm q" and ?n = "nOp (gen_vm p) + length A"
  have w: "prog_wf ?v" and P: "program ?v = program (gen_vm p) @ A @ i # B" and l: "length (program (gen_vm p)) = nOp (gen_vm p)"
    using e b by (auto simp: ext_def binv_def prog_len)
  have n: "nOp ?v = ?n + 1 + length B" using ext_keeps(2) [OF e b] by simp
  then show n1: "?n < nOp ?v" by simp
  show n2: "nOp ?v \<le> length (aOp ?v)" and "magic ?v = MAGIC_INIT" using w by (simp_all add: prog_wf_def)
  have "aOp ?v ! ?n = program ?v ! ?n" using n1 by (simp add: program_def)
  then show "aOp ?v ! ?n = i" using P l by (simp add: nth_append)
  have U: "program (?v\<lparr>aOp := (aOp ?v)[?n := j]\<rparr>) = program (gen_vm p) @ A @ j # B"
    using P l n1 by (simp add: program_def take_update_swap list_update_append)
  have "- int (nLabel ?v) \<le> p2 j" using j ext_keeps(5) [OF e b] by linarith
  moreover have "q\<lparr>gen_vm := x\<rparr> = p\<lparr>gen_vm := x\<rparr>" for x
    using e unfolding ext_def by (metis cgen.surjective cgen.update_convs(1))
  ultimately show "ext p (A @ j # B) (upd_op ?n j q)"
    using e U w P by (auto simp: ext_def upd_op_def binv_def prog_wf_def)
qed

lemma ext_last:
  assumes "ext p [i] q" and "binv (gen_vm p)"
  shows "op_index (gen_vm q) (-1) = Some (nOp (gen_vm p))" "aOp (gen_vm q) \<noteq> []" "magic (gen_vm q) = MAGIC_INIT"
    "nOp (gen_vm p) < length (aOp (gen_vm q))" "aOp (gen_vm q) ! nOp (gen_vm p) = i"
    "0 \<le> p2 j \<Longrightarrow> ext p [j] (upd_op (nOp (gen_vm p)) j q)"
proof -
  note u = ext_upd [where A = "[]" and B = "[]", simplified, OF assms]
  show "op_index (gen_vm q) (-1) = Some (nOp (gen_vm p))"
    using ext_keeps(2) [OF assms] by (simp add: op_index_def)
  have "0 \<le> p2 (zero_op :: 'a func_def vdbe_op)" by (simp add: zero_op_def)
  then show "nOp (gen_vm p) < length (aOp (gen_vm q))" "aOp (gen_vm q) ! nOp (gen_vm p) = i" "magic (gen_vm q) = MAGIC_INIT"
    using u(2,3,4,5) [of "zero_op :: 'a func_def vdbe_op"] by auto
  then show "aOp (gen_vm q) \<noteq> []" by auto
  show "0 \<le> p2 j \<Longrightarrow> ext p [j] (upd_op (nOp (gen_vm p)) j q)" using u(1) [of j] by simp
qed

lemma text_op_ext:
  assumes b: "binv (gen_vm p)" and n: "0 \<le> n"
  shows "appends (emit_op op x 0 p \<bind> set_p3 (Some (P3_text z)) n) p
    [mk_text op x (cstr (str_nappend [(z, n)]))]"
proof -
  obtain q where q: "emit_op op x 0 p = Some q" "ext p [mk op x 0] q"
    using emit_op_ext [OF b, of 0 op x] by (auto simp: appends_def)
  note l = ext_last [OF q(2) b]
  have "set_p3 (Some (P3_text z)) n q = Some (upd_op (nOp (gen_vm p)) (mk_text op x (cstr (str_nappend [(z, n)]))) q)"
    using n l by (simp add: set_p3_def with_vm_def vdbe_change_p3_def upd_op_def mk_def mk_text_def)
  then show ?thesis using q l(6) by (simp add: appends_def)
qed

lemma call_op_ext:
  assumes b: "binv (gen_vm p)"
  shows "appends (emit_op OP_Function (int n) 0 p \<bind> set_p3 (Some (P3_object f)) P3_POINTER) p [mk_call n f]"
proof -
  obtain q where q: "emit_op OP_Function (int n) 0 p = Some q" "ext p [mk OP_Function (int n) 0] q"
    using emit_op_ext [OF b, of 0 OP_Function "int n"] by (auto simp: appends_def)
  note l = ext_last [OF q(2) b]
  have "set_p3 (Some (P3_object f)) P3_POINTER q = Some (upd_op (nOp (gen_vm p)) (mk_call n f) q)"
    using l by (simp add: set_p3_def with_vm_def vdbe_change_p3_def upd_op_def mk_def mk_call_def P3_POINTER_def)
  then show ?thesis using q l(6) by (simp add: appends_def)
qed

lemma nappend_all: "str_nappend [(z, int (length z))] = z"
  by (simp add: str_nappend_def nappend_piece_def)

lemma str_unquote_Nil [simp]: "str_unquote [] = []"
  by (simp add: str_unquote_def)

lemma negative_ext: "binv (gen_vm p) \<Longrightarrow> appends (negative_code op z p) p [number_op op (CHR ''-'' # z) (cstr (CHR ''-'' # z))]"
  using text_op_ext [of p "int (length (CHR ''-'' # z))" _ _ "CHR ''-'' # z"]
  unfolding nappend_all by (simp add: negative_code_def number_op_def Let_def)

lemma literal_ext:
  fixes p :: "'f cgen"
  assumes b: "binv (gen_vm p)"
  shows "appends (literal_code op z p) p [number_op op z (str_unquote (cstr z))]"
proof -
  obtain c x where c: "(number_op op z t :: 'f func_def vdbe_op) = mk_text c x t"
    "(if op = ''TK_INTEGER'' \<and> str_int_in32b z then emit_op OP_Integer (sint (atoi z)) 0 p else emit_op OP_String 0 0 p)
     = emit_op c x 0 p" for t
    by (cases "op = ''TK_INTEGER'' \<and> str_int_in32b z") (simp_all add: number_op_def)
  obtain q where q: "emit_op c x 0 p \<bind> set_p3 (Some (P3_text z)) (int (length z)) = Some q" "ext p [mk_text c x (cstr z)] q"
    using text_op_ext [OF b, of "int (length z)" c x z] by (auto simp: appends_def nappend_all)
  note l = ext_last [OF q(2) b]
  let ?j = "mk_text c x (str_unquote (cstr z))"
  have "vdbe_dequote_p3 (gen_vm q) (-1) = Some (gen_vm (upd_op (nOp (gen_vm p)) ?j q))"
  proof (cases "cstr z = []")
    case True
    then have "(aOp (gen_vm q))[nOp (gen_vm p) := ?j] = aOp (gen_vm q)" using l(4,5) by (simp add: list_update_same_conv)
    then show ?thesis using True l by (simp add: vdbe_dequote_p3_def upd_op_def mk_text_def)
  next
    case False
    then show ?thesis using l by (simp add: vdbe_dequote_p3_def upd_op_def mk_text_def p3_defs)
  qed
  then have "with_vm (\<lambda>v. vdbe_dequote_p3 v (-1)) q = Some (upd_op (nOp (gen_vm p)) ?j q)"
    by (simp add: with_vm_def upd_op_def)
  moreover have "literal_code op z p =
      (emit_op c x 0 p \<bind> set_p3 (Some (P3_text z)) (int (length z))) \<bind> with_vm (\<lambda>v. vdbe_dequote_p3 v (-1))"
    unfolding literal_code_def c(2) by simp
  ultimately show ?thesis using q l(6) [of ?j] c(1) by (simp add: appends_def)
qed

section \<open>The generator appends the code\<close>

lemma leaf_code_None: "op \<notin> set leaf_ops \<Longrightarrow> op \<noteq> ''TK_RAISE'' \<Longrightarrow> leaf_code op tok it ic ia p = None"
  by (simp add: leaf_code_def leaf_ops_def)

lemma callee_code: "call_code op tok n p = callee (gen_fns p) op tok n"
  by (simp add: call_code_def callee_def)

lemma op_classes:
  "op \<in> set cmp_ops \<Longrightarrow> op \<notin> set leaf_ops \<and> op \<noteq> ''TK_RAISE''"
  "op \<in> set bin_ops \<Longrightarrow> op \<notin> set leaf_ops \<and> op \<noteq> ''TK_RAISE'' \<and> op \<notin> set cmp_ops"
  by (auto simp: cmp_ops_def bin_ops_def leaf_ops_def)

declare expr_code.simps [simp del]

text \<open>The routine on each class of operators.\<close>

lemma expr_code_leaf:
  "leaf_code op tok it ic ia p = Some q \<Longrightarrow> expr_code (Expr op d l r es tok it ic ia sel) p = q"
  by (simp only: expr_code.simps option.case)

lemma expr_code_cmp: "op \<in> set cmp_ops \<Longrightarrow> expr_code (Expr op d l r es tok it ic ia sel) p =
    do { c \<leftarrow> cmp_opcode (code_op op) (expr_type (Expr op d l r es tok it ic ia sel));
         p \<leftarrow> opt_code l p; p \<leftarrow> opt_code r p; emit_op c 0 0 p }"
  using op_classes(1) [of op] by (simp add: expr_code.simps leaf_code_None)

lemma expr_code_bin: "op \<in> set bin_ops \<Longrightarrow> expr_code (Expr op d l r es tok it ic ia sel) p =
    do { p \<leftarrow> opt_code l p; p \<leftarrow> opt_code r p; emit_op (code_op op) 0 0 p }"
  using op_classes(2) [of op] by (simp add: expr_code.simps leaf_code_None)

lemmas op_lists = cmp_ops_def bin_ops_def leaf_ops_def

lemma expr_code_shift: "op \<in> {''TK_LSHIFT'', ''TK_RSHIFT''} \<Longrightarrow> expr_code (Expr op d l r es tok it ic ia sel) p =
    do { p \<leftarrow> opt_code r p; p \<leftarrow> opt_code l p; emit_op (code_op op) 0 0 p }"
  by (elim insertE emptyE; simp add: expr_code.simps leaf_code_None op_lists)

lemma expr_code_concat: "expr_code (Expr ''TK_CONCAT'' d l r es tok it ic ia sel) p =
    do { p \<leftarrow> opt_code l p; p \<leftarrow> opt_code r p; emit_op OP_Concat 2 0 p }"
  by (simp add: expr_code.simps leaf_code_None op_lists)

lemma expr_code_minus: "expr_code (Expr ''TK_UMINUS'' d (Some e) r es tok it ic ia sel) p =
    (if eop e \<in> {''TK_FLOAT'', ''TK_INTEGER''} then do { z \<leftarrow> etoken e; negative_code (eop e) z p }
     else do { p \<leftarrow> expr_code e p; emit_op OP_Negative 0 0 p })"
  by (simp add: expr_code.simps [where op = "''TK_UMINUS''"] leaf_code_None op_lists)

lemma expr_code_not: "op \<in> {''TK_BITNOT'', ''TK_NOT''} \<Longrightarrow> expr_code (Expr op d l r es tok it ic ia sel) p =
    do { p \<leftarrow> opt_code l p; emit_op (code_op op) 0 0 p }"
  by (elim insertE emptyE; simp add: expr_code.simps leaf_code_None op_lists)

lemma expr_code_null: "op \<in> {''TK_ISNULL'', ''TK_NOTNULL''} \<Longrightarrow> expr_code (Expr op d l r es tok it ic ia sel) p =
    do { p \<leftarrow> emit_op OP_Integer 1 0 p; p \<leftarrow> opt_code l p; addr \<leftarrow> here p;
         p \<leftarrow> emit_op (code_op op) 1 (addr + 2) p; emit_op OP_AddImm (-1) 0 p }"
  by (elim insertE emptyE; simp add: expr_code.simps leaf_code_None op_lists)

lemma expr_code_call: "op \<in> {''TK_GLOB'', ''TK_LIKE'', ''TK_FUNCTION''} \<Longrightarrow> expr_code (Expr op d l r es tok it ic ia sel) p =
    do { f \<leftarrow> callee (gen_fns p) op tok (nExpr es);
         p \<leftarrow> (case es of None \<Rightarrow> Some p | Some xs \<Rightarrow> args_code xs p);
         p \<leftarrow> emit_op OP_Function (int (nExpr es)) 0 p;
         set_p3 (Some (P3_object f)) P3_POINTER p }"
  by (elim insertE emptyE; simp add: expr_code.simps leaf_code_None op_lists callee_code)

lemma expr_code_between: "expr_code (Expr ''TK_BETWEEN'' d l r (Some (lo # hi # xs)) tok it ic ia sel) p =
    do { p \<leftarrow> opt_code l p; p \<leftarrow> emit_op OP_Dup 0 0 p; p \<leftarrow> expr_code lo p; p \<leftarrow> emit_op OP_Ge 0 0 p;
         p \<leftarrow> emit_op OP_Pull 1 0 p; p \<leftarrow> expr_code hi p; p \<leftarrow> emit_op OP_Le 0 0 p; emit_op OP_And 0 0 p }"
  by (simp add: expr_code.simps [where op = "''TK_BETWEEN''"] leaf_code_None op_lists)

lemma expr_code_same: "op \<in> {''TK_UPLUS'', ''TK_AS''} \<Longrightarrow> expr_code (Expr op d l r es tok it ic ia sel) p = opt_code l p"
  by (elim insertE emptyE; simp add: expr_code.simps leaf_code_None op_lists)

lemma expr_code_case: "even (length xs) \<Longrightarrow> xs \<noteq> [] \<Longrightarrow> expr_code (Expr ''TK_CASE'' d l r (Some xs) tok it ic ia sel) p =
    do { (lend, p) \<leftarrow> new_label p;
         p \<leftarrow> opt_code l p;
         p \<leftarrow> arms_code (l \<noteq> None) lend xs p;
         p \<leftarrow> (if l \<noteq> None then emit_op OP_Pop 1 0 p else Some p);
         p \<leftarrow> (case r of Some e \<Rightarrow> expr_code e p | None \<Rightarrow> emit_op OP_String 0 0 p);
         place_label lend p }"
  by (simp add: expr_code.simps [where op = "''TK_CASE''"] leaf_code_None op_lists)

lemma shape_BinaryD:
  assumes "shape U H (Expr op d l r es tok it ic ia sel) = Binary x y c k"
  shows "op \<in> set cmp_ops \<and> l = Some x \<and> r = Some y \<and> k = 0
        \<and> cmp_opcode (code_op op) (expr_type (Expr op d l r es tok it ic ia sel)) = Some c
    \<or> op \<in> set bin_ops \<and> l = Some x \<and> r = Some y \<and> k = 0 \<and> c = code_op op
    \<or> op \<in> {''TK_LSHIFT'', ''TK_RSHIFT''} \<and> r = Some x \<and> l = Some y \<and> k = 0 \<and> c = code_op op
    \<or> op = ''TK_CONCAT'' \<and> l = Some x \<and> r = Some y \<and> k = 2 \<and> c = OP_Concat"
  using assms by (auto simp: shape_def split: if_splits option.splits list.splits)

lemma expr_code_Binary:
  assumes "shape U H e = Binary x y c k"
  shows "expr_code e p = do { p \<leftarrow> expr_code x p; p \<leftarrow> expr_code y p; emit_op c k 0 p }"
proof (cases e)
  case (Expr op d l r es tok it ic ia sel)
  then show ?thesis
    using shape_BinaryD [OF assms [unfolded Expr]]
    by (elim disjE conjE) (simp_all add: expr_code_cmp expr_code_bin expr_code_shift expr_code_concat)
qed

lemma column_ext:
  assumes "leaf_shape (useAgg p) ''TK_COLUMN'' tok it ic ia = One i" and "binv (gen_vm p)"
  shows "appends (column_code it ic ia p) p [i]"
  using assms(1) emit_op_ext [OF assms(2)] by (auto simp: leaf_shape_def column_code_def split: if_splits)

lemma leaf_ext:
  assumes "op \<in> set leaf_ops" and "leaf_shape (useAgg p) op tok it ic ia = One i" and "binv (gen_vm p)"
  shows "\<exists>q. leaf_code op tok it ic ia p = Some q \<and> appends q p [i]"
proof -
  consider "op = ''TK_COLUMN''" | "op \<in> {''TK_STRING'', ''TK_FLOAT'', ''TK_INTEGER''}" | "op = ''TK_NULL''"
    | "op = ''TK_VARIABLE''" | "op = ''TK_AGG_FUNCTION''" | "op = ''TK_SELECT''"
    using assms(1) unfolding leaf_ops_def list.set insert_iff empty_iff by argo
  then show ?thesis
  proof cases
    case 1
    then show ?thesis using column_ext assms(2,3) by (simp add: leaf_code_def)
  next
    case 2
    then obtain z where "tok = Some z" "i = number_op op z (str_unquote (cstr z))"
      using assms(2) by (auto simp: leaf_shape_def split: option.splits)
    then show ?thesis using 2 literal_ext [OF assms(3), of op z] by (auto simp: leaf_code_def)
  qed (use assms(2) emit_op_ext [OF assms(3)] in \<open>auto simp: leaf_code_def leaf_shape_def split: if_splits\<close>)
qed

lemma expr_code_One:
  assumes "shape (useAgg p) H e = One i" and "binv (gen_vm p)"
  shows "appends (expr_code e p) p [i]"
proof (cases e)
  case (Expr op d l r es tok it ic ia sel)
  consider (leaf) "op \<in> set leaf_ops" "leaf_shape (useAgg p) op tok it ic ia = One i"
    | (minus) x where "op = ''TK_UMINUS''" "l = Some x" "minus_shape x = One i"
    using assms(1) Expr by (auto simp: shape_def split: if_splits option.splits list.splits)
  then show ?thesis
  proof cases
    case leaf
    then have "\<exists>q. leaf_code op tok it ic ia p = Some q \<and> appends q p [i]"
      by (rule leaf_ext [OF _ _ assms(2)])
    then show ?thesis unfolding Expr using expr_code_leaf by metis
  next
    case minus
    then show ?thesis
      using negative_ext [OF assms(2)]
      by (auto simp: Expr expr_code_minus minus_shape_def split: if_splits option.splits)
  qed
qed

lemma expr_code_Unary:
  fixes H :: "'a func_def list hash"
  assumes "shape U H e = Unary x c"
  shows "expr_code e p = do { p \<leftarrow> expr_code x p; emit_op c 0 0 p }"
proof (cases e)
  case (Expr op d l r es tok it ic ia sel)
  have "l = Some x \<and> (op = ''TK_UMINUS'' \<and> (minus_shape x :: 'a shape) = Unary x c \<or> op \<in> {''TK_BITNOT'', ''TK_NOT''} \<and> c = code_op op)"
    using assms Expr by (auto simp: shape_def two_def leaf_shape_def split: if_splits option.splits list.splits dest: minus_shape_Unary)
  then show ?thesis
    by (auto simp: Expr expr_code_minus expr_code_not minus_shape_def split: if_splits option.splits)
qed

lemma shape_inv:
  "shape U H (Expr op d l r es tok it ic ia sel) = Null_test x c \<Longrightarrow>
    op \<in> {''TK_ISNULL'', ''TK_NOTNULL''} \<and> l = Some x \<and> c = code_op op"
  "shape U H (Expr op d l r es tok it ic ia sel) = Call xs f \<Longrightarrow>
    op \<in> {''TK_GLOB'', ''TK_LIKE'', ''TK_FUNCTION''} \<and> callee H op tok (nExpr es) = Some f
    \<and> xs = (case es of None \<Rightarrow> [] | Some xs \<Rightarrow> xs)"
  "shape U H (Expr op d l r es tok it ic ia sel) = Between x lo hi \<Longrightarrow>
    op = ''TK_BETWEEN'' \<and> l = Some x \<and> (\<exists>ys. es = Some (lo # hi # ys))"
  "shape U H (Expr op d l r es tok it ic ia sel) = Same x \<Longrightarrow> op \<in> {''TK_UPLUS'', ''TK_AS''} \<and> l = Some x"
  "shape U H (Expr op d l r es tok it ic ia sel) = Choose l' xs r' \<Longrightarrow>
    op = ''TK_CASE'' \<and> l' = l \<and> r' = r \<and> es = Some xs \<and> even (length xs) \<and> xs \<noteq> []"
  by (auto simp: shape_def split: if_splits option.splits list.splits)

definition gen_ok :: "bool \<Rightarrow> 'f func_def list hash \<Rightarrow> 'f cgen \<Rightarrow> bool" where
  "gen_ok U H p \<longleftrightarrow> binv (gen_vm p) \<and> useAgg p = U \<and> gen_fns p = H"

lemma gen_ok_binv: "gen_ok U H p \<Longrightarrow> binv (gen_vm p)"
  by (simp add: gen_ok_def)

lemma ext_gen_ok: "gen_ok U H p \<Longrightarrow> ext p A q \<Longrightarrow> gen_ok U H q"
  using ext_keeps(1,3,4) unfolding gen_ok_def by metis

lemma appends_seq:
  assumes "gen_ok U H p" and "appends r p A"
    and "\<And>q. gen_ok U H q \<Longrightarrow> ext p A q \<Longrightarrow> nOp (gen_vm q) = nOp (gen_vm p) + length A \<Longrightarrow> appends (g q) q B"
  shows "appends (r \<bind> g) p (A @ B)"
  using assms ext_gen_ok ext_keeps(2) [OF _ gen_ok_binv [OF assms(1)]] by (intro appends_bind) blast+

lemma appends_emit:
  assumes "gen_ok U H p" and "open_dest (gen_vm p) x2"
    and "\<And>q. gen_ok U H q \<Longrightarrow> ext p [mk op x1 x2] q \<Longrightarrow> nOp (gen_vm q) = nOp (gen_vm p) + 1 \<Longrightarrow> appends (g q) q B"
  shows "appends (emit_op op x1 x2 p \<bind> g) p (mk op x1 x2 # B)"
  using appends_seq [OF assms(1) emit_op_ext [OF gen_ok_binv [OF assms(1)] assms(2)]] assms(3) by fastforce

lemma appends_last: "gen_ok U H p \<Longrightarrow> open_dest (gen_vm p) x2 \<Longrightarrow> appends (emit_op op x1 x2 p) p [mk op x1 x2]"
  using emit_op_ext gen_ok_binv by blast

lemma here_addr: "gen_ok U H p \<Longrightarrow> here p = Some (int (nOp (gen_vm p)))"
  by (simp add: here_def vdbe_current_addr_def gen_ok_def binv_def prog_wf_def)

subsection \<open>Labels\<close>

lemma new_label_ext:
  assumes "binv (gen_vm p)"
  shows "\<exists>q. new_label p = Some (-1 - int (nLabel (gen_vm p)), q) \<and> ext p [] q \<and> nLabel (gen_vm q) = nLabel (gen_vm p) + 1
    \<and> aLabel (gen_vm q) = aLabel (gen_vm p) @ [-1] \<and> nOp (gen_vm q) = nOp (gen_vm p)
    \<and> open_dest (gen_vm q) (-1 - int (nLabel (gen_vm p)))"
proof -
  let ?v = "gen_vm p"
  obtain n where v: "vdbe_make_label True ?v = Some (-1 - int (nLabel ?v),
      ?v\<lparr>nLabel := nLabel ?v + 1, nLabelAlloc := n, aLabel := aLabel ?v @ [-1]\<rparr>)" and n: "nLabel ?v + 1 \<le> n"
  proof (cases "nLabel ?v \<ge> nLabelAlloc ?v")
    case True
    then show ?thesis using assms that [of "nLabelAlloc ?v * 2 + 10"] by (simp add: vdbe_make_label_def Let_def binv_def prog_wf_def)
  next
    case False
    then show ?thesis using assms that [of "nLabelAlloc ?v"] by (simp add: vdbe_make_label_def Let_def binv_def prog_wf_def)
  qed
  have "ext p [] (p\<lparr>gen_vm := ?v\<lparr>nLabel := nLabel ?v + 1, nLabelAlloc := n, aLabel := aLabel ?v @ [-1]\<rparr>\<rparr>)"
    using assms n by (auto simp: ext_def binv_def prog_wf_def program_def)
  moreover have "nLabel ?v = length (aLabel ?v)" using assms by (simp add: binv_def prog_wf_def)
  ultimately show ?thesis using v by (simp add: new_label_def open_dest_def label_target_def)
qed

lemma label_scope:
  assumes b: "binv (gen_vm p)" and new: "ext p [] pa" "nLabel (gen_vm pa) = nLabel (gen_vm p) + 1"
      "aLabel (gen_vm pa) = aLabel (gen_vm p) @ [-1]"
    and e: "ext pa ops q" and ne: "ops \<noteq> []" and L: "L = -1 - int (nLabel (gen_vm p))"
  shows "appends (place_label L q) p (map (patch L (int (nOp (gen_vm q)))) ops)"
proof -
  let ?v = "gen_vm q" and ?n = "nLabel (gen_vm p)"
  have pq: "ext p ops q" using ext_trans [OF new(1) e] by simp
  have w: "prog_wf ?v" "prog_wf (gen_vm p)" and P: "program ?v = program (gen_vm p) @ ops"
    using pq b by (auto simp: ext_def binv_def)
  have T: "take (?n + 1) (aLabel ?v) = aLabel (gen_vm p) @ [-1]" and n1: "?n + 1 \<le> nLabel ?v"
    using e new by (auto simp: ext_def)
  have len: "length (aLabel (gen_vm p)) = ?n" "length (aLabel ?v) = nLabel ?v" using w by (auto simp: prog_wf_def)
  have u: "aLabel ?v ! ?n = -1"
  proof -
    have "aLabel ?v ! ?n = take (?n + 1) (aLabel ?v) ! ?n" by simp
    then show ?thesis unfolding T using len by (simp add: nth_append)
  qed
  have ne': "aOp ?v \<noteq> []" using P ne by (auto simp: program_def)
  let ?ops = "map (\<lambda>j. if j < nOp ?v \<and> p2 (aOp ?v ! j) = L then (aOp ?v ! j)\<lparr>p2 := int (nOp ?v)\<rparr> else aOp ?v ! j)
      [0..<length (aOp ?v)]"
  let ?w = "?v\<lparr>aLabel := (aLabel ?v)[?n := int (nOp ?v)], aOp := ?ops\<rparr>"
  have step: "vdbe_resolve_label ?v L = Some ?w"
    using w u ne' n1 L by (auto simp: vdbe_resolve_label_def prog_wf_def)
  have old: "\<And>i. i \<in> set (program (gen_vm p)) \<Longrightarrow> p2 i \<noteq> L" using b L by (fastforce simp: binv_def)
  have "program ?w = map (patch L (int (nOp ?v))) (program ?v)"
    using take_map_patch [of "nOp ?v" "aOp ?v" "\<lambda>i. p2 i = L" "\<lambda>i. i\<lparr>p2 := int (nOp ?v)\<rparr>"] w
    by (simp add: program_def prog_wf_def patch_def [abs_def])
  also have "\<dots> = program (gen_vm p) @ map (patch L (int (nOp ?v))) ops"
    using patch_other [OF old] P by simp
  finally have P': "program ?w = program (gen_vm p) @ map (patch L (int (nOp ?v))) ops" .
  have low: "\<And>i. i \<in> set (program ?v) \<Longrightarrow> - int (nLabel ?v) \<le> p2 i" using pq by (auto simp: ext_def binv_def)
  have "binv ?w"
    using w low P' P by (auto simp: binv_def prog_wf_def patch_def)
  moreover have "take ?n (aLabel ?w) = aLabel (gen_vm p)"
  proof -
    have "take ?n (aLabel ?v) = take ?n (take (?n + 1) (aLabel ?v))" by simp
    also have "\<dots> = aLabel (gen_vm p)" unfolding T using len by simp
    finally show ?thesis by simp
  qed
  moreover have "q\<lparr>gen_vm := x\<rparr> = p\<lparr>gen_vm := x\<rparr>" for x
    using pq unfolding ext_def by (metis cgen.surjective cgen.update_convs(1))
  ultimately show ?thesis
    using step P' n1 by (simp add: place_label_def with_vm_def appends_def ext_def)
qed

subsection \<open>Values\<close>

text \<open>What is shown of the code of an expression.\<close>

definition compiles :: "bool \<Rightarrow> 'f func_def list hash \<Rightarrow> expr \<Rightarrow> bool" where
  "compiles U H e \<longleftrightarrow> (\<forall>p. gen_ok U H p \<longrightarrow> appends (expr_code e p) p (code U H e (nOp (gen_vm p))))"

lemma compilesD: "compiles U H e \<Longrightarrow> gen_ok U H p \<Longrightarrow> nOp (gen_vm p) = a \<Longrightarrow> appends (expr_code e p) p (code U H e a)"
  by (auto simp: compiles_def)

lemma change_p2_ext:
  assumes "ext p (A @ i # B) q" and "binv (gen_vm p)" and "0 \<le> v"
  shows "appends (with_vm (\<lambda>w. vdbe_change_p2 w (int (nOp (gen_vm p) + length A)) v) q) p (A @ (i\<lparr>p2 := v\<rparr>) # B)"
proof -
  have j: "- int (nLabel (gen_vm p)) \<le> p2 (i\<lparr>p2 := v\<rparr>)" using assms(3) by simp
  note u = ext_upd [OF assms(1,2) j]
  have "vdbe_change_p2 (gen_vm q) (int (nOp (gen_vm p) + length A)) v =
      Some ((gen_vm q)\<lparr>aOp := (aOp (gen_vm q))[nOp (gen_vm p) + length A := i\<lparr>p2 := v\<rparr>]\<rparr>)"
    using u(2-5) assms(3) by (auto simp: vdbe_change_p2_def nat_int_add)
  then show ?thesis using u(1) by (simp add: with_vm_def upd_op_def appends_def)
qed

lemma args_ext:
  "(\<And>x. x \<in> set xs \<Longrightarrow> compiles U H x) \<Longrightarrow> gen_ok U H p \<Longrightarrow> appends (args_code xs p) p (args_ops U H xs (nOp (gen_vm p)))"
proof (induction xs arbitrary: p)
  case Nil
  then show ?case by (simp add: appends_Nil gen_ok_binv)
next
  case (Cons x xs)
  have x: "appends (expr_code x p) p (code U H x (nOp (gen_vm p)))" using Cons.prems by (intro compilesD) auto
  have "appends (args_code xs q) q (args_ops U H xs (nOp (gen_vm q)))" if "gen_ok U H q" for q
    by (rule Cons.IH [OF _ that]) (rule Cons.prems(1), simp)
  then have "appends (expr_code x p \<bind> args_code xs) p
      (code U H x (nOp (gen_vm p)) @ args_ops U H xs (nOp (gen_vm p) + length (code U H x (nOp (gen_vm p)))))"
    by (intro appends_seq [OF Cons.prems(2) x]) metis
  then show ?case by (simp add: Let_def)
qed

lemma arm_test_ext:
  assumes "gen_ok U H p"
  shows "\<exists>q. arm_test hl p = Some (int (nOp (gen_vm p) + (if hl then 1 else 0)), q) \<and> ext p (arm_ops hl 0) q"
proof (cases hl)
  case False
  then show ?thesis using emit_ext [of p 0 OP_IfNot 1] gen_ok_binv [OF assms] by (auto simp: arm_test_def arm_ops_def)
next
  case True
  obtain q1 where 1: "emit_op OP_Dup 1 1 p = Some q1" "ext p [mk OP_Dup 1 1] q1"
    using emit_op_ext [OF gen_ok_binv [OF assms], of 1 OP_Dup 1] by (auto simp: appends_def)
  have g1: "gen_ok U H q1" and n1: "nOp (gen_vm q1) = nOp (gen_vm p) + 1"
    using ext_gen_ok [OF assms 1(2)] ext_keeps(2) [OF 1(2) gen_ok_binv [OF assms]] by auto
  obtain q2 where 2: "emit OP_Ne 1 0 q1 = Some (int (nOp (gen_vm q1)), q2)" "ext q1 [mk OP_Ne 1 0] q2"
    using emit_ext [OF gen_ok_binv [OF g1], of 0 OP_Ne 1] by auto
  obtain q3 where 3: "emit_op OP_Pop 1 0 q2 = Some q3" "ext q2 [mk OP_Pop 1 0] q3"
    using emit_op_ext [OF gen_ok_binv [OF ext_gen_ok [OF g1 2(2)]], of 0 OP_Pop 1] by (auto simp: appends_def)
  have "ext p (arm_ops True 0) q3" using ext_trans [OF ext_trans [OF 1(2) 2(2)] 3(2)] by (simp add: arm_ops_def)
  then show ?thesis using True 1 2 3 n1 by (simp add: arm_test_def)
qed

lemma arm_ext:
  assumes g: "gen_ok U H p" and t: "compiles U H t" and l: "open_dest (gen_vm p) lend"
    and k: "k = (if hl then 3 else 1)" and Y: "Y = code U H t (nOp (gen_vm p) + k)"
    and n: "n = nOp (gen_vm p) + k + length Y + 1"
  shows "appends (do { (j, p) \<leftarrow> arm_test hl p; p \<leftarrow> expr_code t p; arm_end j lend p }) p
    (arm_ops hl (int n) @ Y @ [mk OP_Goto 0 lend])"
proof -
  note b = gen_ok_binv [OF g]
  obtain q1 where 1: "arm_test hl p = Some (int (nOp (gen_vm p) + (if hl then 1 else 0)), q1)" "ext p (arm_ops hl 0) q1"
    using arm_test_ext [OF g] by blast
  have g1: "gen_ok U H q1" and n1: "nOp (gen_vm q1) = nOp (gen_vm p) + k"
    using ext_gen_ok [OF g 1(2)] ext_keeps(2) [OF 1(2) b] k by auto
  obtain q2 where 2: "expr_code t q1 = Some q2" "ext q1 Y q2"
    using compilesD [OF t g1 n1] Y by (auto simp: appends_def)
  have e2: "ext p (arm_ops hl 0 @ Y) q2" by (rule ext_trans [OF 1(2) 2(2)])
  obtain q3 where 3: "emit_op OP_Goto 0 lend q2 = Some q3" "ext q2 [mk OP_Goto 0 lend] q3"
    using emit_op_ext [OF gen_ok_binv [OF ext_gen_ok [OF g e2]] ext_keeps(6) [OF e2 b l], of OP_Goto 0] by (auto simp: appends_def)
  have e3: "ext p (arm_ops hl 0 @ Y @ [mk OP_Goto 0 lend]) q3" using ext_trans [OF e2 3(2)] by simp
  have n3: "nOp (gen_vm q3) = n" using ext_keeps(2) [OF e3 b] k n by simp
  have h: "here q3 = Some (int n)" using here_addr [OF ext_gen_ok [OF g e3]] n3 by simp
  let ?A = "if hl then [mk OP_Dup 1 1] else []" and ?i = "if hl then mk OP_Ne 1 0 else mk OP_IfNot 1 0"
    and ?B = "(if hl then [mk OP_Pop 1 0] else []) @ Y @ [mk OP_Goto 0 lend]"
  have "ext p (?A @ ?i # ?B) q3" using e3 by (simp add: arm_ops_def split: if_splits)
  from change_p2_ext [OF this b, of "int n"]
  have "appends (with_vm (\<lambda>w. vdbe_change_p2 w (int (nOp (gen_vm p) + (if hl then 1 else 0))) (int n)) q3) p
      (arm_ops hl (int n) @ Y @ [mk OP_Goto 0 lend])"
    by (cases hl) (simp_all add: arm_ops_def mk_def)
  then show ?thesis using 1(1) 2(1) 3(1) h by (simp add: arm_end_def)
qed

lemma arms_ext:
  assumes "\<And>x. x \<in> set xs \<Longrightarrow> compiles U H x" and "gen_ok U H p" and "open_dest (gen_vm p) lend"
  shows "appends (arms_code hl lend xs p) p (arms_ops U H hl lend xs (nOp (gen_vm p)))"
  using assms
proof (induction xs arbitrary: p rule: induct_list012)
  case (3 w t xs)
  let ?a = "nOp (gen_vm p)" and ?k = "if hl then 3 else (1 :: nat)"
  let ?X = "code U H w ?a"
  let ?Y = "code U H t (?a + length ?X + ?k)"
  let ?n = "?a + length ?X + ?k + length ?Y + 1"
  have w: "compiles U H w" and t: "compiles U H t" and IH: "\<And>x. x \<in> set xs \<Longrightarrow> compiles U H x"
    using "3.prems"(1) by auto
  have "appends (expr_code w p \<bind> (\<lambda>q. do { (j, p) \<leftarrow> arm_test hl q; p \<leftarrow> expr_code t p; arm_end j lend p })) p
      (?X @ arm_ops hl (int ?n) @ ?Y @ [mk OP_Goto 0 lend])" (is "appends ?r p ?C")
  proof (rule appends_seq [OF "3.prems"(2) compilesD [OF w "3.prems"(2) refl]])
    fix q assume q: "gen_ok U H q" "ext p ?X q" "nOp (gen_vm q) = ?a + length ?X"
    have "open_dest (gen_vm q) lend" using ext_keeps(6) [OF q(2) gen_ok_binv [OF "3.prems"(2)]] "3.prems"(3) by blast
    from arm_ext [OF q(1) t this refl refl refl, of hl]
    show "appends (do { (j, p) \<leftarrow> arm_test hl q; p \<leftarrow> expr_code t p; arm_end j lend p }) q
        (arm_ops hl (int ?n) @ ?Y @ [mk OP_Goto 0 lend])" by (simp add: q(3) add.assoc)
  qed
  then have "appends (?r \<bind> arms_code hl lend xs) p (?C @ arms_ops U H hl lend xs ?n)"
  proof (rule appends_seq [OF "3.prems"(2)])
    fix q assume q: "gen_ok U H q" "ext p ?C q" "nOp (gen_vm q) = ?a + length ?C"
    have "open_dest (gen_vm q) lend" using ext_keeps(6) [OF q(2) gen_ok_binv [OF "3.prems"(2)]] "3.prems"(3) by blast
    from "3.IH"(1) [OF IH q(1) this] show "appends (arms_code hl lend xs q) q (arms_ops U H hl lend xs ?n)"
      by (simp add: q(3) add.assoc split: if_splits)
  qed
  then show ?case by (simp add: Let_def case_prod_beta')
qed (simp_all add: appends_Nil gen_ok_binv)


lemma opt_ext:
  assumes "\<And>x. eo = Some x \<Longrightarrow> compiles U H x" and "gen_ok U H p"
  shows "appends (opt_code eo p) p (opt_ops U H [] eo (nOp (gen_vm p)))"
  using assms by (cases eo) (auto simp: appends_Nil gen_ok_binv compiles_def)

lemma else_ext:
  assumes "\<And>x. eo = Some x \<Longrightarrow> compiles U H x" and "gen_ok U H p"
  shows "appends (case eo of Some e \<Rightarrow> expr_code e p | None \<Rightarrow> emit_op OP_String 0 0 p) p
    (opt_ops U H [mk OP_String 0 0] eo (nOp (gen_vm p)))"
  using assms by (cases eo) (auto simp: compiles_def intro: appends_last)

lemma pop_ext: "gen_ok U H p \<Longrightarrow> appends (if b then emit_op OP_Pop 1 0 p else Some p) p (if b then [mk OP_Pop 1 0] else [])"
  by (auto intro: appends_last simp: appends_Nil gen_ok_binv)

lemma opt_nonneg:
  assumes "\<And>x. eo = Some x \<Longrightarrow> fits U H x" and "\<And>i. i \<in> set D \<Longrightarrow> 0 \<le> p2 i" and "l < 0"
  shows "map (patch l v) (opt_ops U H D eo a) = opt_ops U H D eo a"
proof (cases eo)
  case None
  then show ?thesis using assms(2,3) by (force intro!: patch_other)
next
  case (Some e)
  then show ?thesis using assms(1,3) by (simp add: patch_code)
qed

lemma shape_ChooseD:
  assumes "shape U H e = Choose l xs r"
  obtains d tok it ic ia sel w t ys where "e = Expr ''TK_CASE'' d l r (Some xs) tok it ic ia sel" "even (length xs)" "xs = w # t # ys"
proof (cases e)
  case (Expr op d l1 r1 es tok it ic ia sel)
  have *: "op = ''TK_CASE'' \<and> l = l1 \<and> r = r1 \<and> es = Some xs \<and> even (length xs) \<and> xs \<noteq> []"
    using shape_inv(5) [OF assms [unfolded Expr]] .
  then obtain w t ys where "xs = w # t # ys" by (cases xs; cases "tl xs") auto
  then show ?thesis using that * Expr by blast
qed

text \<open>CASE makes a label for its end; the jumps to it are patched when it is placed.  First the code
  between, with the label as an operand.\<close>

definition case_body :: "int \<Rightarrow> expr option \<Rightarrow> expr list \<Rightarrow> expr option \<Rightarrow> 'f cgen \<Rightarrow> 'f cgen option" where
  "case_body lend l xs r p =
     do { p \<leftarrow> opt_code l p;
          p \<leftarrow> arms_code (l \<noteq> None) lend xs p;
          p \<leftarrow> (if l \<noteq> None then emit_op OP_Pop 1 0 p else Some p);
          (case r of Some e \<Rightarrow> expr_code e p | None \<Rightarrow> emit_op OP_String 0 0 p) }"

definition case_ops :: "bool \<Rightarrow> 'f func_def list hash \<Rightarrow> int \<Rightarrow> expr option \<Rightarrow> expr list \<Rightarrow> expr option \<Rightarrow> nat \<Rightarrow> 'f func_def vdbe_op list" where
  "case_ops U H lend l xs r a =
     (let X = opt_ops U H [] l a; Y = arms_ops U H (l \<noteq> None) lend xs (a + length X);
          W = (if l \<noteq> None then [mk OP_Pop 1 0] else [])
      in X @ Y @ W @ opt_ops U H [mk OP_String 0 0] r (a + length X + length Y + length W))"

lemma case_body_ext:
  assumes g: "gen_ok U H p" and L: "open_dest (gen_vm p) lend"
    and C: "\<And>x. x \<in> set_option l \<union> set xs \<union> set_option r \<Longrightarrow> compiles U H x"
  shows "appends (case_body lend l xs r p) p (case_ops U H lend l xs r (nOp (gen_vm p)))"
proof -
  let ?a = "nOp (gen_vm p)"
  let ?X = "opt_ops U H [] l ?a"
  let ?Y = "arms_ops U H (l \<noteq> None) lend xs (?a + length ?X)"
  let ?W = "if l \<noteq> None then [mk OP_Pop 1 0] else [] :: 'a func_def vdbe_op list"
  let ?Z = "opt_ops U H [mk OP_String 0 0] r (?a + length ?X + length ?Y + length ?W)"
  have x: "appends (opt_code l p) p ?X" by (rule opt_ext [OF C g]) simp
  have z: "appends (case r of Some e \<Rightarrow> expr_code e q | None \<Rightarrow> emit_op OP_String 0 0 q) q (opt_ops U H [mk OP_String 0 0] r (nOp (gen_vm q)))"
    if "gen_ok U H q" for q by (rule else_ext [OF C that]) simp
  have "appends (case_body lend l xs r p) p (?X @ ?Y @ ?W @ ?Z)"
    unfolding case_body_def
  proof (rule appends_seq [OF g x], rule appends_seq)
    fix q assume q: "gen_ok U H q" "ext p ?X q" "nOp (gen_vm q) = ?a + length ?X"
    show "gen_ok U H q" by fact
    show "appends (arms_code (l \<noteq> None) lend xs q) q ?Y"
      using arms_ext [OF C q(1) ext_keeps(6) [OF q(2) gen_ok_binv [OF g] L], of xs] q(3) by simp
    fix q1 assume q1: "gen_ok U H q1" "nOp (gen_vm q1) = nOp (gen_vm q) + length ?Y"
    show "appends (do { p \<leftarrow> (if l \<noteq> None then emit_op OP_Pop 1 0 q1 else Some q1);
          (case r of Some e \<Rightarrow> expr_code e p | None \<Rightarrow> emit_op OP_String 0 0 p) }) q1 (?W @ ?Z)"
    proof (rule appends_seq [OF q1(1) pop_ext [OF q1(1)]])
      fix q2 assume q2: "gen_ok U H q2" "nOp (gen_vm q2) = nOp (gen_vm q1) + length ?W"
      have n: "nOp (gen_vm q2) = ?a + length ?X + length ?Y + length ?W" using q2(2) q1(2) q(3) by simp
      show "appends (case r of Some e \<Rightarrow> expr_code e q2 | None \<Rightarrow> emit_op OP_String 0 0 q2) q2 ?Z"
        using z [OF q2(1)] unfolding n .
    qed
  qed
  then show ?thesis by (simp add: case_ops_def Let_def)
qed

lemma case_ops_code:
  assumes sh: "shape U H e = Choose l xs r" and fit: "fits U H e" and L: "L < 0"
  shows "map (patch L (int (a + length (case_ops U H L l xs r a)))) (case_ops U H L l xs r a) = code U H e a"
proof -
  have fit': "\<And>x. x \<in> set_option l \<union> set xs \<union> set_option r \<Longrightarrow> fits U H x" using fit fits_shape(8) [OF sh] by blast
  define X where "X = opt_ops U H [] l a"
  define m where "m = length (arms_ops U H (l \<noteq> None) 0 xs (a + length X))"
  define W where "W = (if l \<noteq> None then [mk OP_Pop 1 0 :: 'a func_def vdbe_op] else [])"
  define Z where "Z = opt_ops U H [mk OP_String 0 0] r (a + length X + m + length W)"
  define Y where "Y v = arms_ops U H (l \<noteq> None) v xs (a + length X)" for v
  have m: "length (Y v) = m" for v
    unfolding Y_def m_def using fit' by (intro arms_len code_len) blast
  then have ops: "case_ops U H L l xs r a = X @ Y L @ W @ Z"
    by (simp add: case_ops_def Let_def X_def Y_def W_def Z_def)
  let ?v = "int (a + length X + m + length W + length Z)"
  have "map (patch L ?v) (Y L) = Y ?v" unfolding Y_def using fit' L by (intro patch_arms) auto
  moreover have "map (patch L ?v) X = X" "map (patch L ?v) Z = Z"
    unfolding X_def Z_def using fit' L by (intro opt_nonneg; auto)+
  moreover have "map (patch L ?v) W = W" using L by (simp add: W_def)
  ultimately have "map (patch L ?v) (X @ Y L @ W @ Z) = code U H e a"
    unfolding code_Choose [OF sh refl refl refl refl refl]
    by (simp only: map_append X_def [symmetric] W_def [symmetric] Y_def [symmetric] m Z_def [symmetric])
  then show ?thesis unfolding ops by (simp add: m add.assoc)
qed

lemma case_ext:
  assumes g: "gen_ok U H p" and sh: "shape U H e = Choose l xs r"
    and fit: "fits U H e" and C: "\<And>x. x \<in> set_option l \<union> set xs \<union> set_option r \<Longrightarrow> compiles U H x"
  shows "appends (expr_code e p) p (code U H e (nOp (gen_vm p)))"
proof -
  note b = gen_ok_binv [OF g]
  let ?L = "-1 - int (nLabel (gen_vm p))"
  obtain p0 where new: "new_label p = Some (?L, p0)" "ext p [] p0" "nLabel (gen_vm p0) = nLabel (gen_vm p) + 1"
      "aLabel (gen_vm p0) = aLabel (gen_vm p) @ [-1]" "nOp (gen_vm p0) = nOp (gen_vm p)" "open_dest (gen_vm p0) ?L"
    using new_label_ext [OF b] by blast
  let ?ops = "case_ops U H ?L l xs r (nOp (gen_vm p))"
  obtain q where q: "case_body ?L l xs r p0 = Some q" "ext p0 ?ops q"
    using case_body_ext [OF ext_gen_ok [OF g new(2)] new(6) C, of l xs r] new(5) by (auto simp: appends_def)
  obtain d tok it ic ia sel w t ys where e: "e = Expr ''TK_CASE'' d l r (Some xs) tok it ic ia sel" "even (length xs)" "xs = w # t # ys"
    by (rule shape_ChooseD [OF sh])
  have "?ops \<noteq> []" using e(3) by (simp add: case_ops_def Let_def)
  moreover have "nOp (gen_vm q) = nOp (gen_vm p) + length ?ops"
    using ext_keeps(2) [OF q(2) gen_ok_binv [OF ext_gen_ok [OF g new(2)]]] new(5) by simp
  ultimately have "appends (place_label ?L q) p (code U H e (nOp (gen_vm p)))"
    using label_scope [OF b new(2-4) q(2) _ refl] case_ops_code [OF sh fit, of ?L "nOp (gen_vm p)"] by simp
  moreover have "expr_code e p = case_body ?L l xs r p0 \<bind> place_label ?L"
    using e(2,3) new(1) by (simp add: e(1) expr_code_case case_body_def)
  ultimately show ?thesis using q(1) by simp
qed


text \<open>The steps of a routine one after the other; the destinations in \<open>D\<close> stay open.\<close>

definition ready :: "bool \<Rightarrow> 'f func_def list hash \<Rightarrow> int set \<Rightarrow> nat \<Rightarrow> 'f cgen \<Rightarrow> bool" where
  "ready U H D a p \<longleftrightarrow> gen_ok U H p \<and> nOp (gen_vm p) = a \<and> (\<forall>d \<in> D. open_dest (gen_vm p) d)"

lemma ready_ext:
  assumes "ready U H D a p" and "ext p A q" shows "ready U H D (a + length A) q"
  using assms ext_gen_ok [of U H p A q] ext_keeps(2,6) [OF assms(2)] by (auto simp: ready_def gen_ok_def)

lemma seq_append:
  assumes "ready U H D a p" and "appends r p A" and "\<And>q. ready U H D (a + length A) q \<Longrightarrow> appends (g q) q B"
  shows "appends (r \<bind> g) p (A @ B)"
  using assms ready_ext by (intro appends_bind) blast+

lemma seq_code:
  assumes "ready U H D a p" and "compiles U H x"
    and "\<And>q. ready U H D (a + length (code U H x a)) q \<Longrightarrow> appends (g q) q B"
  shows "appends (expr_code x p \<bind> g) p (code U H x a @ B)"
  using assms by (intro seq_append [OF assms(1) compilesD]) (auto simp: ready_def)

lemma seq_code_at:
  assumes "ready U H D b p" and "compiles U H x" and "a = b"
    and "\<And>q. ready U H D (a + length (code U H x a)) q \<Longrightarrow> appends (g q) q B"
  shows "appends (expr_code x p \<bind> g) p (code U H x a @ B)"
  using seq_code [of U H D b p x] assms by simp

lemma last_emit: "ready U H D a p \<Longrightarrow> 0 \<le> x2 \<or> x2 \<in> D \<Longrightarrow> appends (emit_op op x1 x2 p) p [mk op x1 x2]"
  by (auto simp: ready_def intro: appends_last)

lemma seq_emit:
  assumes "ready U H D a p" and "0 \<le> x2 \<or> x2 \<in> D" and "\<And>q. ready U H D (a + 1) q \<Longrightarrow> appends (g q) q B"
  shows "appends (emit_op op x1 x2 p \<bind> g) p (mk op x1 x2 # B)"
  using seq_append [OF assms(1) last_emit [OF assms(1,2)]] assms(3) by fastforce

lemma seq_here:
  assumes "ready U H D a p" and "appends (g (int a)) p B" shows "appends (here p \<bind> g) p B"
  using assms here_addr [of U H p] by (auto simp: ready_def)

lemma ready_gen_ok: "gen_ok U H p \<Longrightarrow> ready U H {} (nOp (gen_vm p)) p"
  by (simp add: ready_def)

lemma binary_ext:
  assumes "gen_ok U H p" and "shape U H e = Binary x y c k" and "compiles U H x" and "compiles U H y"
  shows "appends (expr_code e p) p (code U H e (nOp (gen_vm p)))"
  unfolding expr_code_Binary [OF assms(2)] code_shape(2) [OF assms(2)]
  by (rule seq_code [OF ready_gen_ok [OF assms(1)] assms(3)], rule seq_code [OF _ assms(4)], assumption, rule last_emit, assumption) simp

lemma null_test_ext:
  assumes "gen_ok U H p" and "shape U H e = Null_test x c" and "compiles U H x"
  shows "appends (expr_code e p) p (code U H e (nOp (gen_vm p)))"
proof (cases e)
  case (Expr op d l r es tok it ic ia sel)
  then have *: "op \<in> {''TK_ISNULL'', ''TK_NOTNULL''}" "l = Some x" "c = code_op op"
    using shape_inv(1) assms(2) by blast+
  show ?thesis
    unfolding code_Null_test [OF assms(2)] unfolding Expr expr_code_null [OF *(1)] *(2,3) opt_code.simps
    apply (rule seq_emit [OF ready_gen_ok [OF assms(1)]], simp)
    apply (rule seq_code [OF _ assms(3)], assumption)
    apply (rule seq_here, assumption)
    apply (rule seq_emit, assumption, simp)
    apply (rule last_emit, assumption, simp)
    done
qed

lemma call_ext:
  assumes "gen_ok U H p" and "shape U H e = Call xs f" and "\<And>x. x \<in> set xs \<Longrightarrow> compiles U H x"
  shows "appends (expr_code e p) p (code U H e (nOp (gen_vm p)))"
proof (cases e)
  case (Expr op d l r es tok it ic ia sel)
  then have *: "op \<in> {''TK_GLOB'', ''TK_LIKE'', ''TK_FUNCTION''}" "callee H op tok (nExpr es) = Some f"
      "xs = (case es of None \<Rightarrow> [] | Some xs \<Rightarrow> xs)"
    using shape_inv(2) assms(2) by blast+
  have n: "nExpr es = length xs" using *(3) by (simp add: nExpr_def split: option.splits)
  have "expr_code e p = args_code xs p \<bind> (\<lambda>p. emit_op OP_Function (int (length xs)) 0 p \<bind> set_p3 (Some (P3_object f)) P3_POINTER)"
    using *(2,3) assms(1) n unfolding Expr expr_code_call [OF *(1)] by (cases es) (simp_all add: gen_ok_def)
  moreover have "appends (args_code xs p) p (args_ops U H xs (nOp (gen_vm p)))" by (rule args_ext [OF assms(3,1)])
  ultimately show ?thesis
    unfolding code_shape(4) [OF assms(2)]
    by (simp only:) (rule seq_append [OF ready_gen_ok [OF assms(1)]], assumption, rule call_op_ext, simp add: ready_def gen_ok_def)
qed

lemma between_ext:
  assumes "gen_ok U H p" and "shape U H e = Between x lo hi" and C: "compiles U H x" "compiles U H lo" "compiles U H hi"
  shows "appends (expr_code e p) p (code U H e (nOp (gen_vm p)))"
proof (cases e)
  case (Expr op d l r es tok it ic ia sel)
  then obtain ys where *: "op = ''TK_BETWEEN''" "l = Some x" "es = Some (lo # hi # ys)"
    using shape_inv(3) assms(2) by blast
  show ?thesis
    unfolding code_Between [OF assms(2) refl refl refl]
    unfolding Expr * expr_code_between opt_code.simps append_Cons append_Nil
    apply (rule seq_code [OF ready_gen_ok [OF assms(1)] C(1)])
    apply (rule seq_emit, assumption, simp)
    apply (rule seq_code [OF _ C(2)], assumption)
    apply (rule seq_emit, assumption, simp)
    apply (rule seq_emit, assumption, simp)
    apply (rule seq_code_at [OF _ C(3)], assumption, simp)
    apply (rule seq_emit, assumption, simp)
    apply (rule last_emit, assumption, simp)
    done
qed

text \<open>The generator appends the code.\<close>

lemma fits_compiles: "fits U H e \<Longrightarrow> compiles U H e"
proof (induction "size e" arbitrary: e rule: less_induct)
  case less
  note fit = less.prems
  have C: "compiles U H x" if "size x < size e" "fits U H x" for x using less.hyps that by blast
  have "appends (expr_code e p) p (code U H e (nOp (gen_vm p)))" if g: "gen_ok U H p" for p :: "'a cgen"
  proof (cases "shape U H e")
    case (One i)
    then show ?thesis using expr_code_One [of p H e i] g by (simp add: code_shape gen_ok_def)
  next
    case (Binary x y c k)
    then show ?thesis
      using shape_size(1) [OF Binary] fit fits_shape(2) [OF Binary] by (intro binary_ext [OF g Binary] C) auto
  next
    case (Unary x c)
    have "compiles U H x" using C shape_size(2) [OF Unary] fit fits_shape(3) [OF Unary] by auto
    then show ?thesis
      unfolding expr_code_Unary [OF Unary] code_shape(3) [OF Unary]
      by (intro seq_code [OF ready_gen_ok [OF g]] last_emit) auto
  next
    case (Same x)
    have "compiles U H x" using C shape_size(6) [OF Same] fit fits_shape(7) [OF Same] by auto
    moreover have "expr_code e p = expr_code x p"
    proof (cases e)
      case (Expr op d l r es tok it ic ia sel)
      then show ?thesis using shape_inv(4) [OF Same [unfolded Expr]] by (auto simp: expr_code_same)
    qed
    ultimately show ?thesis using compilesD [OF _ g refl] by (simp add: code_shape(5) [OF Same])
  next
    case (Choose l xs r)
    then show ?thesis
      using shape_size_mem(2,3) [OF Choose] fit fits_shape(8) [OF Choose] by (intro case_ext [OF g Choose fit] C) auto
  next
    case (Null_test x c)
    then show ?thesis
      using shape_size(3) [OF Null_test] fit fits_shape(4) [OF Null_test] by (intro null_test_ext [OF g Null_test] C) auto
  next
    case (Call xs f)
    then show ?thesis
      using shape_size_mem(1) [OF Call] fit fits_shape(5) [OF Call] by (intro call_ext [OF g Call] C) auto
  next
    case (Between x lo hi)
    then show ?thesis
      using shape_size(5) [OF Between] fit fits_shape(6) [OF Between] by (intro between_ext [OF g Between] C) auto
  next
    case Bad
    then show ?thesis using fit fits_shape(1) by blast
  qed
  then show ?case by (simp add: compiles_def)
qed

section \<open>The code of a jump\<close>

datatype jshape =
    JJunct bool expr expr
  | JNot expr
  | JCmp expr expr int int
  | JNull expr int int
  | JIn expr int
  | JBetween expr expr expr
  | JVal
  | JBad

definition jshape :: "expr \<Rightarrow> jshape" where
  "jshape e =
     (case e of Expr op d l r es tok it ic ia sel \<Rightarrow>
        (if op = ''TK_AND'' \<or> op = ''TK_OR'' then
           (case l of None \<Rightarrow> JBad | Some x \<Rightarrow> (case r of None \<Rightarrow> JBad | Some y \<Rightarrow> JJunct (op = ''TK_AND'') x y))
         else if op = ''TK_NOT'' then (case l of None \<Rightarrow> JBad | Some x \<Rightarrow> JNot x)
         else if op \<in> set cmp_ops then
           (case l of None \<Rightarrow> JBad
            | Some x \<Rightarrow> (case r of None \<Rightarrow> JBad
              | Some y \<Rightarrow> (case cmp_opcode (code_op op) (expr_type e) of None \<Rightarrow> JBad
                | Some c \<Rightarrow> (case cmp_opcode (false_op op) (expr_type e) of None \<Rightarrow> JBad
                  | Some f \<Rightarrow> JCmp x y c f))))
         else if op \<in> {''TK_ISNULL'', ''TK_NOTNULL''} then
           (case l of None \<Rightarrow> JBad | Some x \<Rightarrow> JNull x (code_op op) (false_op op))
         else if op = ''TK_IN'' then
           (if sel \<noteq> None then JBad else case l of None \<Rightarrow> JBad | Some x \<Rightarrow> JIn x it)
         else if op = ''TK_BETWEEN'' then
           (case l of None \<Rightarrow> JBad | Some x \<Rightarrow> (case es of Some (lo # hi # _) \<Rightarrow> JBetween x lo hi | _ \<Rightarrow> JBad))
         else JVal))"

lemma jshape_size:
  "jshape e = JJunct c x y \<Longrightarrow> size x < size e \<and> size y < size e"
  "jshape e = JNot x \<Longrightarrow> size x < size e"
  by (cases e; auto simp: jshape_def split: if_splits option.splits list.splits)+

abbreviation bit1 :: "bool \<Rightarrow> int" where "bit1 b \<equiv> (if b then 1 else 0)"

definition jleaf :: "bool \<Rightarrow> 'f func_def list hash \<Rightarrow> bool \<Rightarrow> expr \<Rightarrow> int \<Rightarrow> bool \<Rightarrow> nat \<Rightarrow> 'f func_def vdbe_op list" where
  "jleaf U H s e dest jin a =
     (case jshape e of
        JCmp x y c f \<Rightarrow>
          (let X = code U H x a; Y = code U H y (a + length X)
           in X @ Y @ [mk (if s then c else f) (bit1 jin) dest])
      | JNull x c f \<Rightarrow> code U H x a @ [mk (if s then c else f) 1 dest]
      | JIn x it \<Rightarrow>
          (let X = code U H x a; b = int (a + length X)
           in X @ [mk OP_NotNull (-1) (b + 3), mk OP_Pop 1 0, mk OP_Goto 0 (if jin then dest else b + 4),
                   mk (if s then OP_SetFound else OP_SetNotFound) it dest])
      | JBetween x lo hi \<Rightarrow>
          (let X = code U H x a; Y = code U H lo (a + length X + 1); b = a + length X + 1 + length Y
           in if s then
                (let Z = code U H hi (b + 1)
                 in X @ [mk OP_Dup 0 0] @ Y @ [mk OP_Lt (bit1 (\<not> jin)) (int (b + 1 + length Z + 2))] @ Z
                    @ [mk OP_Le (bit1 jin) dest, mk OP_Integer 0 0, mk OP_Pop 1 0])
              else X @ [mk OP_Dup 0 0] @ Y @ [mk OP_Ge (bit1 (\<not> jin)) (int b + 3), mk OP_Pop 1 0, mk OP_Goto 0 dest]
                   @ code U H hi (b + 3) @ [mk OP_Gt (bit1 jin) dest])
      | JVal \<Rightarrow> code U H e a @ [mk (if s then OP_If else OP_IfNot) (bit1 jin) dest]
      | _ \<Rightarrow> [])"

function jcode :: "bool \<Rightarrow> 'f func_def list hash \<Rightarrow> bool \<Rightarrow> expr \<Rightarrow> int \<Rightarrow> bool \<Rightarrow> nat \<Rightarrow> 'f func_def vdbe_op list" where
  "jcode U H s e dest jin a =
     (case jshape e of
        JJunct c x y \<Rightarrow>
          (if c = s then
             (let n = length (jcode U H (\<not> s) x 0 (\<not> jin) a); Y = jcode U H s y dest jin (a + n)
              in jcode U H (\<not> s) x (int (a + n + length Y)) (\<not> jin) a @ Y)
           else (let X = jcode U H s x dest jin a in X @ jcode U H s y dest jin (a + length X)))
      | JNot x \<Rightarrow> jcode U H (\<not> s) x dest jin a
      | _ \<Rightarrow> jleaf U H s e dest jin a)"
  by pat_completeness auto
termination
  by (relation "measure (\<lambda>(U, H, s, e, dest, jin, a). size e)") (auto dest: jshape_size)

function jfits :: "bool \<Rightarrow> 'f func_def list hash \<Rightarrow> expr \<Rightarrow> bool" where
  "jfits U H e =
     (case jshape e of
        JJunct c x y \<Rightarrow> jfits U H x \<and> jfits U H y
      | JNot x \<Rightarrow> jfits U H x
      | JCmp x y c f \<Rightarrow> fits U H x \<and> fits U H y
      | JNull x c f \<Rightarrow> fits U H x
      | JIn x it \<Rightarrow> fits U H x
      | JBetween x lo hi \<Rightarrow> fits U H x \<and> fits U H lo \<and> fits U H hi
      | JVal \<Rightarrow> fits U H e
      | JBad \<Rightarrow> False)"
  by pat_completeness auto
termination
  by (relation "measure (\<lambda>(U, H, e). size e)") (auto dest: jshape_size)

declare jcode.simps [simp del] jfits.simps [simp del]

lemma jcode_shape:
  "jshape e = JJunct c x y \<Longrightarrow> c = s \<Longrightarrow> n = length (jcode U H (\<not> s) x 0 (\<not> jin) a) \<Longrightarrow>
    Y = jcode U H s y dest jin (a + n) \<Longrightarrow>
    jcode U H s e dest jin a = jcode U H (\<not> s) x (int (a + n + length Y)) (\<not> jin) a @ Y"
  "jshape e = JJunct c x y \<Longrightarrow> c \<noteq> s \<Longrightarrow> X = jcode U H s x dest jin a \<Longrightarrow>
    jcode U H s e dest jin a = X @ jcode U H s y dest jin (a + length X)"
  "jshape e = JNot x \<Longrightarrow> jcode U H s e dest jin a = jcode U H (\<not> s) x dest jin a"
  by (simp_all add: jcode.simps [of U H s e] Let_def)

lemma jcode_leaf:
  "\<nexists>c x y. jshape e = JJunct c x y \<Longrightarrow> \<nexists>x. jshape e = JNot x \<Longrightarrow> jcode U H s e dest jin a = jleaf U H s e dest jin a"
  by (simp add: jcode.simps [of U H s e] split: jshape.split)

lemma jfits_induct [consumes 1, case_names Junct Not Leaf]:
  assumes "jfits U H e"
    and "\<And>e c x y. jshape e = JJunct c x y \<Longrightarrow> jfits U H x \<Longrightarrow> jfits U H y \<Longrightarrow> P x \<Longrightarrow> P y \<Longrightarrow> P e"
    and "\<And>e x. jshape e = JNot x \<Longrightarrow> P x \<Longrightarrow> P e"
    and "\<And>e. \<nexists>c x y. jshape e = JJunct c x y \<Longrightarrow> \<nexists>x. jshape e = JNot x \<Longrightarrow> jfits U H e \<Longrightarrow> P e"
  shows "P e"
  using assms(1)
proof (induction "size e" arbitrary: e rule: less_induct)
  case less
  consider c x y where "jshape e = JJunct c x y" | x where "jshape e = JNot x"
    | "\<nexists>c x y. jshape e = JJunct c x y" "\<nexists>x. jshape e = JNot x" by blast
  then show ?case
  proof cases
    case 1
    then show ?thesis using less jshape_size(1) [OF 1] by (intro assms(2) [OF 1]) (auto simp: jfits.simps [of U H e])
  next
    case 2
    then show ?thesis using less jshape_size(2) [OF 2] by (intro assms(3) [OF 2]) (auto simp: jfits.simps [of U H e])
  next
    case 3
    then show ?thesis using less assms(4) by blast
  qed
qed

lemma len_const: "fits U H e \<Longrightarrow> length (code U H e a) = length (code U H e 0)"
  by (rule code_len)

lemma jleaf_len:
  assumes "jfits U H e"
  shows "length (jleaf U H s e d jin a) = length (jleaf U H s e d' jin' b)"
proof (cases "jshape e")
  case (JCmp x y c f)
  then have "fits U H x" "fits U H y" using assms by (auto simp: jfits.simps [of U H e])
  note l = this [THEN len_const]
  show ?thesis using JCmp by (simp add: jleaf_def Let_def l [of a] l [of b] l [of "_ + _"])
next
  case (JBetween x lo hi)
  then have "fits U H x" "fits U H lo" "fits U H hi" using assms by (auto simp: jfits.simps [of U H e])
  note l = this [THEN len_const]
  show ?thesis using JBetween by (simp add: jleaf_def Let_def l [of a] l [of b] l [of "Suc _"] l [of "_ + _"])
qed (use assms in \<open>auto simp: jfits.simps [of U H e] jleaf_def Let_def intro: code_len\<close>)

lemma jleaf_p2:
  assumes "jfits U H e" and "i \<in> set (jleaf U H s e d jin a)"
  shows "0 \<le> p2 i \<or> p2 i = d"
  using assms code_nonneg
  by (cases "jshape e") (auto simp: jfits.simps [of U H e] jleaf_def Let_def split: if_splits)

lemma patch_jleaf:
  assumes "jfits U H e" and "l < 0"
  shows "map (patch l v) (jleaf U H s e l jin a) = jleaf U H s e v jin a"
  using assms
  by (cases "jshape e") (auto simp: jfits.simps [of U H e] jleaf_def Let_def patch_code)

lemma jcode_len: "jfits U H e \<Longrightarrow> length (jcode U H s e d jin a) = length (jcode U H s e d' jin' b)"
proof (induction arbitrary: s d jin a d' jin' b rule: jfits_induct)
  case (Junct e c x y)
  show ?case
  proof (cases "c = s")
    case True
    show ?thesis
      unfolding jcode_shape(1) [OF Junct.hyps(1) True refl refl] length_append by (intro arg_cong2 [where f = "(+)"] Junct.IH)
  next
    case False
    show ?thesis
      unfolding jcode_shape(2) [OF Junct.hyps(1) False refl] length_append by (intro arg_cong2 [where f = "(+)"] Junct.IH)
  qed
next
  case (Not e x)
  show ?case unfolding jcode_shape(3) [OF Not.hyps] by (rule Not.IH)
next
  case (Leaf e)
  show ?case unfolding jcode_leaf [OF Leaf(1,2)] by (rule jleaf_len [OF Leaf(3)])
qed

lemma jcode_p2: "jfits U H e \<Longrightarrow> i \<in> set (jcode U H s e d jin a) \<Longrightarrow> 0 \<le> p2 i \<or> p2 i = d"
proof (induction arbitrary: s d jin a rule: jfits_induct)
  case (Junct e c x y)
  show ?case
  proof (cases "c = s")
    case True
    show ?thesis
      using Junct.prems Junct.IH unfolding jcode_shape(1) [OF Junct.hyps(1) True refl refl] by force
  next
    case False
    show ?thesis
      using Junct.prems Junct.IH unfolding jcode_shape(2) [OF Junct.hyps(1) False refl] by (metis UnE set_append)
  qed
next
  case (Not e x)
  then show ?case by (auto simp: jcode_shape(3))
next
  case (Leaf e)
  then show ?case using jleaf_p2 [OF Leaf(3)] by (simp add: jcode_leaf)
qed

lemma patch_jcode_other:
  "jfits U H e \<Longrightarrow> l < 0 \<Longrightarrow> d \<noteq> l \<Longrightarrow> map (patch l v) (jcode U H s e d jin a) = jcode U H s e d jin a"
  using jcode_p2 by (intro patch_other) force

lemma patch_jcode: "jfits U H e \<Longrightarrow> l < 0 \<Longrightarrow> map (patch l v) (jcode U H s e l jin a) = jcode U H s e v jin a"
proof (induction arbitrary: s jin a rule: jfits_induct)
  case (Junct e c x y)
  show ?case
  proof (cases "c = s")
    case True
    have Y: "length (jcode U H s y l jin b) = length (jcode U H s y v jin b)" for b by (rule jcode_len [OF Junct.hyps(3)])
    show ?thesis
      unfolding jcode_shape(1) [OF Junct.hyps(1) True refl refl] map_append Junct.IH(2) [OF Junct.prems] Y
      using Junct.hyps(2) Junct.prems by (simp add: patch_jcode_other)
  next
    case False
    have X: "length (jcode U H s x l jin a) = length (jcode U H s x v jin a)" by (rule jcode_len [OF Junct.hyps(2)])
    show ?thesis
      unfolding jcode_shape(2) [OF Junct.hyps(1) False refl] map_append Junct.IH [OF Junct.prems] X ..
  qed
next
  case (Not e x)
  then show ?case by (simp add: jcode_shape(3))
next
  case (Leaf e)
  then show ?case using patch_jleaf [OF Leaf(3)] by (simp add: jcode_leaf)
qed

subsection \<open>The generator of jumps\<close>

definition gen_if :: "bool \<Rightarrow> expr \<Rightarrow> int \<Rightarrow> bool \<Rightarrow> 'f cgen \<Rightarrow> 'f cgen option" where
  "gen_if s = (if s then expr_if_true else expr_if_false)"

declare expr_type.simps [simp del] expr_if_true.simps [simp del] expr_if_false.simps [simp del]

lemmas if_simps = gen_if_def expr_if_true.simps expr_if_false.simps

lemma gen_if_Junct:
  assumes "jshape e = JJunct c x y"
  shows "gen_if s e dest jin p =
    (if c = s then do { (d2, p) \<leftarrow> new_label p; p \<leftarrow> gen_if (\<not> s) x d2 (\<not> jin) p; p \<leftarrow> gen_if s y dest jin p; place_label d2 p }
     else do { p \<leftarrow> gen_if s x dest jin p; gen_if s y dest jin p })"
proof (cases e)
  case (Expr op d l r es tok it ic ia sel)
  have *: "l = Some x" "r = Some y" "op = ''TK_AND'' \<and> c \<or> op = ''TK_OR'' \<and> \<not> c"
    using assms by (auto simp: Expr jshape_def split: if_splits option.splits list.splits)
  show ?thesis using *(3) unfolding Expr *(1,2) by (elim disjE conjE) (simp_all add: if_simps)
qed

lemma gen_if_Not:
  assumes "jshape e = JNot x" shows "gen_if s e dest jin p = gen_if (\<not> s) x dest jin p"
proof (cases e)
  case (Expr op d l r es tok it ic ia sel)
  have *: "l = Some x" "op = ''TK_NOT''"
    using assms by (auto simp: Expr jshape_def split: if_splits option.splits list.splits)
  show ?thesis unfolding Expr * by (simp add: if_simps)
qed

lemma cmp_not_logic: "op \<in> set cmp_ops \<Longrightarrow> op \<noteq> ''TK_AND'' \<and> op \<noteq> ''TK_OR'' \<and> op \<noteq> ''TK_NOT''"
  by (auto simp: cmp_ops_def)

lemma gen_if_Cmp:
  assumes "jshape e = JCmp x y c f"
  shows "gen_if s e dest jin p =
    do { p \<leftarrow> expr_code x p; p \<leftarrow> expr_code y p; emit_op (if s then c else f) (bit1 jin) dest p }"
proof (cases e)
  case (Expr op d l r es tok it ic ia sel)
  have *: "l = Some x" "r = Some y" "op \<in> set cmp_ops" "cmp_opcode (code_op op) (expr_type e) = Some c"
      "cmp_opcode (false_op op) (expr_type e) = Some f"
    using assms by (auto simp: Expr jshape_def split: if_splits option.splits list.splits)
  show ?thesis using *(3-5) cmp_not_logic [OF *(3)] unfolding Expr *(1,2) by (simp add: if_simps)
qed

lemma gen_if_Null:
  assumes "jshape e = JNull x c f"
  shows "gen_if s e dest jin p = do { p \<leftarrow> expr_code x p; emit_op (if s then c else f) 1 dest p }"
proof (cases e)
  case (Expr op d l r es tok it ic ia sel)
  have *: "l = Some x" "op = ''TK_ISNULL'' \<or> op = ''TK_NOTNULL''" "c = code_op op" "f = false_op op"
    using assms by (auto simp: Expr jshape_def split: if_splits option.splits list.splits)
  show ?thesis using *(2) unfolding Expr *(1,3,4) by (elim disjE) (simp_all add: if_simps cmp_ops_def)
qed

lemma gen_if_In:
  assumes "jshape e = JIn x it"
  shows "gen_if s e dest jin p =
    do { p \<leftarrow> expr_code x p; in_jump (if s then OP_SetFound else OP_SetNotFound) it dest jin p }"
proof (cases e)
  case (Expr op d l r es tok it' ic ia sel)
  have *: "l = Some x" "op = ''TK_IN''" "sel = None" "it' = it"
    using assms by (auto simp: Expr jshape_def split: if_splits option.splits list.splits)
  show ?thesis unfolding Expr * by (simp add: if_simps cmp_ops_def)
qed

lemma gen_if_Between:
  assumes "jshape e = JBetween x lo hi"
  shows "gen_if s e dest jin p =
    do { p \<leftarrow> expr_code x p; p \<leftarrow> emit_op OP_Dup 0 0 p; p \<leftarrow> expr_code lo p;
         if s then
           do { (addr, p) \<leftarrow> emit OP_Lt (bit1 (\<not> jin)) 0 p; p \<leftarrow> expr_code hi p;
                p \<leftarrow> emit_op OP_Le (bit1 jin) dest p; p \<leftarrow> emit_op OP_Integer 0 0 p;
                a \<leftarrow> here p; p \<leftarrow> with_vm (\<lambda>v. vdbe_change_p2 v addr a) p; emit_op OP_Pop 1 0 p }
         else
           do { addr \<leftarrow> here p; p \<leftarrow> emit_op OP_Ge (bit1 (\<not> jin)) (addr + 3) p; p \<leftarrow> emit_op OP_Pop 1 0 p;
                p \<leftarrow> emit_op OP_Goto 0 dest p; p \<leftarrow> expr_code hi p; emit_op OP_Gt (bit1 jin) dest p } }"
proof (cases e)
  case (Expr op d l r es tok it ic ia sel)
  obtain ys where *: "l = Some x" "op = ''TK_BETWEEN''" "es = Some (lo # hi # ys)"
    using assms by (auto simp: Expr jshape_def split: if_splits option.splits list.splits)
  show ?thesis unfolding Expr * by (cases jin) (simp_all add: if_simps cmp_ops_def)
qed

lemma gen_if_Val:
  assumes "jshape e = JVal"
  shows "gen_if s e dest jin p = do { p \<leftarrow> expr_code e p; emit_op (if s then OP_If else OP_IfNot) (bit1 jin) dest p }"
proof (cases e)
  case (Expr op d l r es tok it ic ia sel)
  have *: "op \<noteq> ''TK_AND''" "op \<noteq> ''TK_OR''" "op \<noteq> ''TK_NOT''" "op \<notin> set cmp_ops" "op \<notin> {''TK_ISNULL'', ''TK_NOTNULL''}"
      "op \<noteq> ''TK_IN''" "op \<noteq> ''TK_BETWEEN''"
    using assms by (auto simp: Expr jshape_def split: if_splits option.splits list.splits)
  show ?thesis using * unfolding Expr by (simp add: if_simps)
qed

text \<open>The jump over the second test of BETWEEN is patched when the tests are complete.\<close>

lemma between_true_ext:
  assumes R: "ready U H D a p" and hi: "compiles U H hi" and D: "0 \<le> dest \<or> dest \<in> D" and Z: "Z = code U H hi (a + 1)"
  shows "appends (do { (addr, p) \<leftarrow> emit OP_Lt j 0 p; p \<leftarrow> expr_code hi p;
      p \<leftarrow> emit_op OP_Le k dest p; p \<leftarrow> emit_op OP_Integer 0 0 p;
      n \<leftarrow> here p; p \<leftarrow> with_vm (\<lambda>v. vdbe_change_p2 v addr n) p; emit_op OP_Pop 1 0 p }) p
    (mk OP_Lt j (int (a + 1 + length Z + 2)) # Z @ [mk OP_Le k dest, mk OP_Integer 0 0, mk OP_Pop 1 0])"
proof -
  have b: "binv (gen_vm p)" and a: "nOp (gen_vm p) = a" using R by (auto simp: ready_def gen_ok_def)
  obtain q1 where 1: "emit OP_Lt j 0 p = Some (int a, q1)" "ext p [mk OP_Lt j 0] q1"
    using emit_ext [OF b, of 0 OP_Lt j] a by auto
  have R1: "ready U H D (a + 1) q1" using ready_ext [OF R 1(2)] by simp
  have "appends (do { p \<leftarrow> expr_code hi q1; p \<leftarrow> emit_op OP_Le k dest p; emit_op OP_Integer 0 0 p }) q1
      (Z @ [mk OP_Le k dest, mk OP_Integer 0 0])"
    unfolding Z by (rule seq_code [OF R1 hi], rule seq_emit, assumption, rule D, rule last_emit, assumption, simp)
  then obtain q2 where 2: "do { p \<leftarrow> expr_code hi q1; p \<leftarrow> emit_op OP_Le k dest p; emit_op OP_Integer 0 0 p } = Some q2"
      "ext q1 (Z @ [mk OP_Le k dest, mk OP_Integer 0 0]) q2" by (auto simp: appends_def)
  let ?n = "int (a + 1 + length Z + 2)" and ?B = "Z @ [mk OP_Le k dest, mk OP_Integer 0 0]"
  have e: "ext p ([] @ mk OP_Lt j 0 # ?B) q2" using ext_trans [OF 1(2) 2(2)] by simp
  have h: "here q2 = Some ?n" using ready_ext [OF R e] here_addr by (fastforce simp: ready_def)
  have "appends (with_vm (\<lambda>v. vdbe_change_p2 v (int a) ?n) q2) p (mk OP_Lt j ?n # ?B)"
    using change_p2_ext [OF e b, of ?n] a by (simp add: mk_def)
  from seq_append [OF R this, of "emit_op OP_Pop 1 0" "[mk OP_Pop 1 0]"]
  have "appends (with_vm (\<lambda>v. vdbe_change_p2 v (int a) ?n) q2 \<bind> emit_op OP_Pop 1 0) p ((mk OP_Lt j ?n # ?B) @ [mk OP_Pop 1 0])"
    by (auto intro: last_emit)
  moreover have "(do { (addr, p) \<leftarrow> emit OP_Lt j 0 p; p \<leftarrow> expr_code hi p;
      p \<leftarrow> emit_op OP_Le k dest p; p \<leftarrow> emit_op OP_Integer 0 0 p;
      n \<leftarrow> here p; p \<leftarrow> with_vm (\<lambda>v. vdbe_change_p2 v addr n) p; emit_op OP_Pop 1 0 p })
    = do { p \<leftarrow> do { p \<leftarrow> expr_code hi q1; p \<leftarrow> emit_op OP_Le k dest p; emit_op OP_Integer 0 0 p };
        n \<leftarrow> here p; p \<leftarrow> with_vm (\<lambda>v. vdbe_change_p2 v (int a) n) p; emit_op OP_Pop 1 0 p }"
    using 1(1) by simp
  ultimately show ?thesis using 2(1) h by simp
qed

lemma jleaf_shape:
  "jshape e = JCmp x y c f \<Longrightarrow> jleaf U H s e dest jin a =
    code U H x a @ code U H y (a + length (code U H x a)) @ [mk (if s then c else f) (bit1 jin) dest]"
  "jshape e = JNull x c f \<Longrightarrow> jleaf U H s e dest jin a = code U H x a @ [mk (if s then c else f) 1 dest]"
  "jshape e = JVal \<Longrightarrow> jleaf U H s e dest jin a = code U H e a @ [mk (if s then OP_If else OP_IfNot) (bit1 jin) dest]"
  by (simp_all add: jleaf_def Let_def)

lemma jleaf_In:
  assumes "jshape e = JIn x it" and "X = code U H x a" and "b = int (a + length X)"
  shows "jleaf U H s e dest jin a = X @ [mk OP_NotNull (-1) (b + 3), mk OP_Pop 1 0,
    mk OP_Goto 0 (if jin then dest else b + 4), mk (if s then OP_SetFound else OP_SetNotFound) it dest]"
  using assms by (simp add: jleaf_def Let_def)

lemma jleaf_Between:
  assumes "jshape e = JBetween x lo hi" and "X = code U H x a" and "Y = code U H lo (a + length X + 1)"
    and "b = a + length X + 1 + length Y"
  shows "s \<Longrightarrow> Z = code U H hi (b + 1) \<Longrightarrow> jleaf U H s e dest jin a =
      X @ mk OP_Dup 0 0 # Y @ mk OP_Lt (bit1 (\<not> jin)) (int (b + 1 + length Z + 2)) # Z
      @ [mk OP_Le (bit1 jin) dest, mk OP_Integer 0 0, mk OP_Pop 1 0]"
    and "\<not> s \<Longrightarrow> jleaf U H s e dest jin a =
      X @ mk OP_Dup 0 0 # Y @ mk OP_Ge (bit1 (\<not> jin)) (int b + 3) # mk OP_Pop 1 0 # mk OP_Goto 0 dest
      # code U H hi (b + 3) @ [mk OP_Gt (bit1 jin) dest]"
  using assms by (simp_all add: jleaf_def Let_def)

lemma jleaf_not_Nil: "jfits U H e \<Longrightarrow> \<nexists>c x y. jshape e = JJunct c x y \<Longrightarrow> \<nexists>x. jshape e = JNot x \<Longrightarrow> jleaf U H s e dest jin a \<noteq> []"
  by (cases "jshape e") (auto simp: jleaf_def Let_def jfits.simps [of U H e])

lemma jcode_not_Nil: "jfits U H e \<Longrightarrow> jcode U H s e dest jin a \<noteq> []"
proof (induction arbitrary: s dest jin a rule: jfits_induct)
  case (Junct e c x y)
  then show ?case by (cases "c = s") (simp_all add: jcode_shape(1) [OF _ _ refl refl] jcode_shape(2) [OF _ _ refl])
next
  case (Leaf e)
  then show ?case using jleaf_not_Nil by (simp add: jcode_leaf)
qed (simp add: jcode_shape(3))

lemma jleaf_ext:
  assumes fit: "jfits U H e" and R: "ready U H D a p" and d: "0 \<le> dest \<or> dest \<in> D"
    and leaf: "\<nexists>c x y. jshape e = JJunct c x y" "\<nexists>x. jshape e = JNot x"
  shows "appends (gen_if s e dest jin p) p (jleaf U H s e dest jin a)"
proof (cases "jshape e")
  case (JCmp x y c f)
  have "compiles U H x" "compiles U H y" using JCmp fit by (auto simp: jfits.simps [of U H e] fits_compiles)
  then show ?thesis
    unfolding gen_if_Cmp [OF JCmp] jleaf_shape(1) [OF JCmp]
    using R d by (blast intro: seq_code last_emit)
next
  case (JNull x c f)
  have "compiles U H x" using JNull fit by (auto simp: jfits.simps [of U H e] fits_compiles)
  then show ?thesis
    unfolding gen_if_Null [OF JNull] jleaf_shape(2) [OF JNull] using R d by (blast intro: seq_code last_emit)
next
  case JVal
  have "compiles U H e" using JVal fit by (auto simp: jfits.simps [of U H e] fits_compiles)
  then show ?thesis
    unfolding gen_if_Val [OF JVal] jleaf_shape(3) [OF JVal] using R d by (blast intro: seq_code last_emit)
next
  case (JIn x it)
  have "compiles U H x" using JIn fit by (auto simp: jfits.simps [of U H e] fits_compiles)
  then show ?thesis
    unfolding gen_if_In [OF JIn] jleaf_In [OF JIn refl refl] in_jump_def
    apply (rule seq_code [OF R])
    apply (rule seq_here, assumption)
    apply (rule seq_emit, assumption, simp)
    apply (rule seq_emit, assumption, simp)
    apply (rule seq_emit, assumption, use d in auto) []
    apply (auto intro: last_emit d)
    done
next
  case (JBetween x lo hi)
  have C: "compiles U H x" "compiles U H lo" "compiles U H hi" using JBetween fit by (auto simp: jfits.simps [of U H e] fits_compiles)
  show ?thesis
  proof (cases s)
    case True
    show ?thesis
      unfolding gen_if_Between [OF JBetween] jleaf_Between(1) [OF JBetween refl refl refl True refl] if_P [OF True]
      apply (rule seq_code [OF R C(1)])
      apply (rule seq_emit, assumption, simp)
      apply (rule seq_code [OF _ C(2)], assumption)
      apply (rule between_true_ext [OF _ C(3) d refl], assumption)
      done
  next
    case False
    show ?thesis
      unfolding gen_if_Between [OF JBetween] jleaf_Between(2) [OF JBetween refl refl refl False] if_not_P [OF False]
      apply (rule seq_code [OF R C(1)])
      apply (rule seq_emit, assumption, simp)
      apply (rule seq_code [OF _ C(2)], assumption)
      apply (rule seq_here, assumption)
      apply (rule seq_emit, assumption, simp)
      apply (rule seq_emit, assumption, simp)
      apply (rule seq_emit, assumption, rule d)
      apply (rule seq_code_at [OF _ C(3)], assumption, simp)
      apply (rule last_emit, assumption, rule d)
      done
  qed
qed (use leaf fit in \<open>auto simp: jfits.simps [of U H e]\<close>)


text \<open>AND and OR that may skip their second operand make a label for their end.\<close>

lemma junct_ext:
  assumes R: "ready U H D a p" and d: "0 \<le> dest \<or> dest \<in> D" and fx: "jfits U H x" and fy: "jfits U H y"
    and X: "\<And>D a p dest jin s. ready U H D a p \<Longrightarrow> 0 \<le> dest \<or> dest \<in> D \<Longrightarrow> appends (gen_if s x dest jin p) p (jcode U H s x dest jin a)"
    and Y: "\<And>D a p dest jin s. ready U H D a p \<Longrightarrow> 0 \<le> dest \<or> dest \<in> D \<Longrightarrow> appends (gen_if s y dest jin p) p (jcode U H s y dest jin a)"
    and n: "n = length (jcode U H (\<not> s) x 0 (\<not> jin) a)" and C: "C = jcode U H s y dest jin (a + n)"
  shows "appends (do { (d2, p) \<leftarrow> new_label p; p \<leftarrow> gen_if (\<not> s) x d2 (\<not> jin) p; p \<leftarrow> gen_if s y dest jin p; place_label d2 p }) p
    (jcode U H (\<not> s) x (int (a + n + length C)) (\<not> jin) a @ C)"
proof -
  have b: "binv (gen_vm p)" and a: "nOp (gen_vm p) = a" using R by (auto simp: ready_def gen_ok_def)
  let ?L = "-1 - int (nLabel (gen_vm p))"
  obtain p0 where new: "new_label p = Some (?L, p0)" "ext p [] p0" "nLabel (gen_vm p0) = nLabel (gen_vm p) + 1"
      "aLabel (gen_vm p0) = aLabel (gen_vm p) @ [-1]" "open_dest (gen_vm p0) ?L"
    using new_label_ext [OF b] by blast
  have R0: "ready U H (insert ?L D) a p0" using ready_ext [OF R new(2)] new(5) by (simp add: ready_def)
  let ?X = "jcode U H (\<not> s) x ?L (\<not> jin) a"
  have lx: "length ?X = n" using n jcode_len [OF fx] by blast
  have "appends (gen_if (\<not> s) x ?L (\<not> jin) p0 \<bind> gen_if s y dest jin) p0 (?X @ C)"
    by (rule seq_append [OF R0 X [OF R0]]) (use d lx C Y in auto)
  then obtain q where q: "gen_if (\<not> s) x ?L (\<not> jin) p0 \<bind> gen_if s y dest jin = Some q" "ext p0 (?X @ C) q"
    by (auto simp: appends_def)
  have v: "nOp (gen_vm q) = a + n + length C" using ready_ext [OF R0 q(2)] lx by (simp add: ready_def)
  have "?X @ C \<noteq> []" using jcode_not_Nil [OF fx] by simp
  from label_scope [OF b new(2-4) q(2) this refl]
  have P: "appends (place_label ?L q) p (map (patch ?L (int (a + n + length C))) (?X @ C))" unfolding v .
  have "dest \<noteq> ?L" using d R by (auto simp: ready_def open_dest_def)
  then have "map (patch ?L (int (a + n + length C))) (?X @ C) = jcode U H (\<not> s) x (int (a + n + length C)) (\<not> jin) a @ C"
    unfolding map_append C by (simp add: patch_jcode [OF fx] patch_jcode_other [OF fy])
  moreover have "do { (d2, p) \<leftarrow> new_label p; p \<leftarrow> gen_if (\<not> s) x d2 (\<not> jin) p; p \<leftarrow> gen_if s y dest jin p; place_label d2 p }
      = (gen_if (\<not> s) x ?L (\<not> jin) p0 \<bind> gen_if s y dest jin) \<bind> place_label ?L"
    using new(1) by simp
  ultimately show ?thesis using P q(1) by simp
qed

lemma jump_ext:
  "jfits U H e \<Longrightarrow> ready U H D a p \<Longrightarrow> 0 \<le> dest \<or> dest \<in> D \<Longrightarrow>
    appends (gen_if s e dest jin p) p (jcode U H s e dest jin a)"
proof (induction arbitrary: s D a p dest jin rule: jfits_induct)
  case (Junct e c x y)
  note R = Junct.prems
  show ?case
  proof (cases "c = s")
    case True
    show ?thesis
      unfolding gen_if_Junct [OF Junct.hyps(1)] if_P [OF True] jcode_shape(1) [OF Junct.hyps(1) True refl refl]
      by (rule junct_ext [OF R Junct.hyps(2,3) Junct.IH refl refl])
  next
    case False
    show ?thesis
      unfolding gen_if_Junct [OF Junct.hyps(1)] if_not_P [OF False] jcode_shape(2) [OF Junct.hyps(1) False refl]
      by (rule seq_append [OF R(1) Junct.IH(1) [OF R]]) (rule Junct.IH(2) [OF _ R(2)])
  qed
next
  case (Not e x)
  then show ?case by (simp add: gen_if_Not jcode_shape(3))
next
  case (Leaf e)
  then show ?case using jleaf_ext by (simp add: jcode_leaf)
qed

end
