(* ===== verification/ExprSem.thy ===== *)
theory ExprSem
  imports ExprAsm StackProps
begin

text \<open>
  The meaning of an expression: the cell its evaluation leaves, given the machine it runs on.  \<open>None\<close>
  is a computation the language leaves undefined, or an expression that refers to nothing.
\<close>

section \<open>Operations on cells\<close>

text \<open>What an expression may refer to: the machine with its variables, memory cells, aggregates and sets, the columns
  under the cursors, the value of a function, whether aggregates are in use, and the functions of the
  database.\<close>

record ('f, 'r, 'l) world =
  wF :: "('r, 'l) fpu"
  wvm :: "('f func_def, 'r) vdbe"
  wcol :: "int \<Rightarrow> int \<Rightarrow> 'r mem option"
  wfun :: "'f func_def \<Rightarrow> cstring option list \<Rightarrow> 'r mem"
  wagg :: bool
  wfns :: "'f func_def list hash"

definition rel_of :: "tk \<Rightarrow> int \<Rightarrow> bool" where
  "rel_of op c =
     (if op = ''TK_LT'' then c < 0 else if op = ''TK_LE'' then c \<le> 0 else if op = ''TK_GT'' then c > 0
      else if op = ''TK_GE'' then c \<ge> 0 else if op = ''TK_NE'' then c \<noteq> 0 else c = 0)"

text \<open>Comparison of a left and a right value: unknown when one is NULL.\<close>

definition cmp_truth :: "('r mem \<Rightarrow> 'r mem \<Rightarrow> int) \<Rightarrow> (int \<Rightarrow> bool) \<Rightarrow> 'r mem \<Rightarrow> 'r mem \<Rightarrow> bool option" where
  "cmp_truth cmp R a b = (if is_null a \<or> is_null b then None else Some (R (cmp b a)))"

definition cmp_by :: "('r, 'l) fpu \<Rightarrow> int option \<Rightarrow> 'r mem \<Rightarrow> 'r mem \<Rightarrow> int" where
  "cmp_by F t = (if t = Some SO_TEXT then cmp_text F else cmp_values F)"

text \<open>Arithmetic on integers and on reals; dividing by zero gives NULL.\<close>

definition int_of_op :: "tk \<Rightarrow> i32 \<Rightarrow> i32 \<Rightarrow> i32 option option" where
  "int_of_op op x y =
     (if op = ''TK_PLUS'' then Some (Some (x + y))
      else if op = ''TK_MINUS'' then Some (Some (x - y))
      else if op = ''TK_STAR'' then Some (Some (x * y))
      else if y = 0 then Some None
      else if sint y = -1 \<and> sint x = - (2 ^ 31) then None
      else if op = ''TK_SLASH'' then Some (Some (word_of_int (sint x sdiv sint y)))
      else Some (Some (word_of_int (sint x smod sint y))))"

definition real_of_op :: "('r, 'l) fpu \<Rightarrow> tk \<Rightarrow> 'r \<Rightarrow> 'r \<Rightarrow> 'r option option" where
  "real_of_op F op x y =
     (if op = ''TK_PLUS'' then Some (Some (fadd F x y))
      else if op = ''TK_MINUS'' then Some (Some (fsub F x y))
      else if op = ''TK_STAR'' then Some (Some (fmul F x y))
      else if op = ''TK_SLASH'' then (if feq F y (fzero F) then Some None else Some (Some (fdiv F x y)))
      else if f_to_int F y = 0 then Some None
      else if sint (f_to_int F y) = -1 \<and> sint (f_to_int F x) = - (2 ^ 31) then None
      else Some (Some (f_of_int F (word_of_int (sint (f_to_int F x) smod sint (f_to_int F y))))))"

definition null_of :: "'r mem \<Rightarrow> 'r mem" where
  "null_of m = m\<lparr>mflags := {MEM_Null}\<rparr>"

definition arith_cell :: "('r, 'l) fpu \<Rightarrow> tk \<Rightarrow> 'r mem \<Rightarrow> 'r mem \<Rightarrow> 'r mem option" where
  "arith_cell F op a b =
     (if is_null a \<or> is_null b then Some (null_of a)
      else if MEM_Int \<in> mflags a \<and> MEM_Int \<in> mflags b then
        map_option (case_option (null_of a) (\<lambda>v. a\<lparr>mi := v, mflags := {MEM_Int}\<rparr>)) (int_of_op op (mi a) (mi b))
      else
        (let a = entity_to_real F a; b = entity_to_real F b
         in map_option (case_option (null_of a) (\<lambda>v. a\<lparr>mr := v, mflags := {MEM_Real}\<rparr>)) (real_of_op F op (mr a) (mr b))))"

unbundle bit_operations_syntax

definition bits_of_op :: "tk \<Rightarrow> i32 \<Rightarrow> i32 \<Rightarrow> i32 option" where
  "bits_of_op op x y =
     (if op = ''TK_BITAND'' then Some (x AND y)
      else if op = ''TK_BITOR'' then Some (x OR y)
      else if \<not> (0 \<le> sint y \<and> sint y < 32) then None
      else if op = ''TK_LSHIFT'' then Some (push_bit (nat (sint y)) x)
      else Some (signed_drop_bit (nat (sint y)) x))"

text \<open>The result of a bit operation takes the place of the operand pushed first, which \<open>keep\<close> is.\<close>

definition bits_cell :: "('r, 'l) fpu \<Rightarrow> tk \<Rightarrow> 'r mem \<Rightarrow> 'r mem \<Rightarrow> 'r mem \<Rightarrow> 'r mem option" where
  "bits_cell F op keep a b =
     (if is_null a \<or> is_null b then Some (null_mem F)
      else map_option (\<lambda>v. (entity_to_int F keep)\<lparr>mi := v\<rparr>)
             (bits_of_op op (mi (entity_to_int F a)) (mi (entity_to_int F b))))"

definition concat_cell :: "('r, 'l) fpu \<Rightarrow> 'r mem \<Rightarrow> 'r mem \<Rightarrow> 'r mem option" where
  "concat_cell F a b =
     (if is_null a \<or> is_null b then Some (null_mem F)
      else let x = mz (entity_as_string F a); y = mz (entity_as_string F b)
           in if x = [] \<or> y = [] then None else Some (str_mem F MEM_Dyn (butlast x @ butlast y @ [NUL])))"

definition not_cell :: "('r, 'l) fpu \<Rightarrow> (i32 \<Rightarrow> i32) \<Rightarrow> 'r mem \<Rightarrow> 'r mem" where
  "not_cell F f m = (if is_null m then m else (entity_to_int F m)\<lparr>mi := f (mi (entity_to_int F m))\<rparr>)"

definition bin_cell :: "('r, 'l) fpu \<Rightarrow> tk \<Rightarrow> 'r mem \<Rightarrow> 'r mem \<Rightarrow> 'r mem option" where
  "bin_cell F op a b =
     (if op = ''TK_AND'' then Some (truth_cell F (kleene_and (truth F a) (truth F b)))
      else if op = ''TK_OR'' then Some (truth_cell F (kleene_or (truth F a) (truth F b)))
      else if op \<in> {''TK_BITAND'', ''TK_BITOR''} then bits_cell F op a a b
      else if op \<in> {''TK_LSHIFT'', ''TK_RSHIFT''} then bits_cell F op b a b
      else if op = ''TK_CONCAT'' then concat_cell F a b
      else arith_cell F op a b)"

text \<open>A number of the source is an integer when it fits, and its text in any case.\<close>

definition number_cell :: "('r, 'l) fpu \<Rightarrow> tk \<Rightarrow> cstring \<Rightarrow> cstring \<Rightarrow> 'r mem" where
  "number_cell F op z t =
     (if op = ''TK_INTEGER'' \<and> str_int_in32b z
      then (int_mem F (atoi z))\<lparr>mz := t @ [NUL], mflags := {MEM_Int, MEM_Str, MEM_Static}\<rparr>
      else str_mem F MEM_Static (t @ [NUL]))"

definition shared :: "'r mem \<Rightarrow> 'r mem" where
  "shared m = (if MEM_Str \<in> mflags m then m\<lparr>mflags := insert MEM_Ephem (mflags m - {MEM_Dyn, MEM_Static, MEM_Short})\<rparr> else m)"

definition agg_value :: "('f, 'r, 'l) world \<Rightarrow> int \<Rightarrow> 'r mem option" where
  "agg_value K ia = do { i \<leftarrow> pCurrent (agg (wvm K)); map_option shared (agg_cell (wvm K) i ia) }"

definition leaf_value :: "('f, 'r, 'l) world \<Rightarrow> tk \<Rightarrow> cstring option \<Rightarrow> int \<Rightarrow> int \<Rightarrow> int \<Rightarrow> 'r mem option" where
  "leaf_value K op tok it ic ia =
     (if op = ''TK_COLUMN'' then (if wagg K then agg_value K ia else wcol K it (if ic \<ge> 0 then ic else -1))
      else if op = ''TK_NULL'' then Some (null_mem (wF K))
      else if op = ''TK_VARIABLE'' then
        Some (if 1 \<le> it \<and> it \<le> int (length (azVar (wvm K))) \<and> azVar (wvm K) ! nat (it - 1) \<noteq> None
              then str_mem (wF K) MEM_Static (the (azVar (wvm K) ! nat (it - 1))) else null_mem (wF K))
      else if op = ''TK_AGG_FUNCTION'' then agg_value K ia
      else if op = ''TK_SELECT'' then
        (if 0 \<le> ic \<and> ic < int (length (aMem (wvm K))) then Some (shared (aMem (wvm K) ! nat ic)) else None)
      else map_option (\<lambda>z. number_cell (wF K) op z (str_unquote (cstr z))) tok)"

section \<open>The meaning of an expression\<close>

fun ev :: "('f, 'r, 'l) world \<Rightarrow> expr \<Rightarrow> 'r mem option"
  and ev_opt :: "('f, 'r, 'l) world \<Rightarrow> expr option \<Rightarrow> 'r mem option"
  and ev_args :: "('f, 'r, 'l) world \<Rightarrow> expr list \<Rightarrow> 'r mem list option"
  and ev_arms :: "('f, 'r, 'l) world \<Rightarrow> 'r mem option \<Rightarrow> expr list \<Rightarrow> 'r mem option option" where
  "ev K (Expr op d l r es tok it ic ia sel) =
     (let F = wF K
      in if op \<in> set leaf_ops then leaf_value K op tok it ic ia
         else if op \<in> set cmp_ops then
           do { a \<leftarrow> ev_opt K l; b \<leftarrow> ev_opt K r;
                Some (truth_cell F (cmp_truth (cmp_by F (expr_type (Expr op d l r es tok it ic ia sel))) (rel_of op) a b)) }
         else if op \<in> set bin_ops \<or> op \<in> {''TK_LSHIFT'', ''TK_RSHIFT'', ''TK_CONCAT''} then
           do { a \<leftarrow> ev_opt K l; b \<leftarrow> ev_opt K r; bin_cell F op a b }
         else if op = ''TK_UMINUS'' then
           (case l of None \<Rightarrow> None
            | Some e \<Rightarrow>
                (if eop e \<in> {''TK_FLOAT'', ''TK_INTEGER''} then
                   map_option (\<lambda>z. number_cell F (eop e) (CHR ''-'' # z) (cstr (CHR ''-'' # z))) (etoken e)
                 else map_option (sign_op F True) (ev K e)))
         else if op = ''TK_NOT'' then map_option (not_cell F (\<lambda>i. if i = 0 then 1 else 0)) (ev_opt K l)
         else if op = ''TK_BITNOT'' then map_option (not_cell F (\<lambda>i. NOT i)) (ev_opt K l)
         else if op = ''TK_ISNULL'' then map_option (\<lambda>a. truth_cell F (Some (is_null a))) (ev_opt K l)
         else if op = ''TK_NOTNULL'' then map_option (\<lambda>a. truth_cell F (Some (\<not> is_null a))) (ev_opt K l)
         else if op \<in> {''TK_GLOB'', ''TK_LIKE'', ''TK_FUNCTION''} then
           do { f \<leftarrow> callee (wfns K) op tok (nExpr es);
                vs \<leftarrow> (case es of None \<Rightarrow> Some [] | Some xs \<Rightarrow> ev_args K xs);
                Some (wfun K f (map (\<lambda>m. arg_of (stringify F m)) vs)) }
         else if op = ''TK_IN'' then
           do { a \<leftarrow> ev_opt K l;
                if is_null a then Some (null_mem F)
                else do { b \<leftarrow> set_member (wvm K) it (mz (entity_as_string F a)); Some (truth_cell F (Some b)) } }
         else if op = ''TK_BETWEEN'' then
           (case es of
              Some (lo # hi # _) \<Rightarrow>
                do { a \<leftarrow> ev_opt K l; x \<leftarrow> ev K lo; y \<leftarrow> ev K hi;
                     Some (truth_cell F (kleene_and (cmp_truth (cmp_values F) (\<lambda>c. c \<ge> 0) a x)
                                                    (cmp_truth (cmp_values F) (\<lambda>c. c \<le> 0) a y))) }
            | _ \<Rightarrow> None)
         else if op \<in> {''TK_UPLUS'', ''TK_AS''} then ev_opt K l
         else if op = ''TK_CASE'' then
           do { x \<leftarrow> (case l of None \<Rightarrow> Some None | Some e \<Rightarrow> map_option Some (ev K e));
                xs \<leftarrow> es;
                v \<leftarrow> ev_arms K x xs;
                (case v of Some v \<Rightarrow> Some v
                 | None \<Rightarrow> (case r of None \<Rightarrow> Some (null_mem F) | Some e \<Rightarrow> ev K e)) }
         else None)"
| "ev_opt K None = None"
| "ev_opt K (Some e) = ev K e"
| "ev_args K [] = Some []"
| "ev_args K (x # xs) = do { v \<leftarrow> ev K x; vs \<leftarrow> ev_args K xs; Some (v # vs) }"
| "ev_arms K x (w # t # xs) =
     do { a \<leftarrow> ev K w;
          let b = (case x of None \<Rightarrow> truth (wF K) a | Some m \<Rightarrow> cmp_truth (cmp_values (wF K)) (\<lambda>c. c = 0) a m);
          if b = Some True then map_option Some (ev K t) else ev_arms K x xs }"
| "ev_arms K x _ = Some None"

end
