(* ===== verification/ExprMach.thy ===== *)
theory ExprMach
  imports ExprSem
begin

text \<open>
  Running generated code on the machine: code at an address, a run from one state to another, the
  instructions the code generator for expressions uses and the cells they leave.
\<close>

section \<open>Running a piece of code\<close>

text \<open>A machine at an address with a stack; the rest of it stays as it is.\<close>

definition conf :: "('f, 'r) vdbe \<Rightarrow> 'r mem list \<Rightarrow> nat \<Rightarrow> ('f, 'r) vdbe" where
  "conf s stk a = s\<lparr>stack := stk, lpc := int a\<rparr>"

lemma conf_simps [simp]:
  "stack (conf s stk a) = stk" "lpc (conf s stk a) = int a" "nOp (conf s stk a) = nOp s" "aOp (conf s stk a) = aOp s"
  "nStack (conf s stk a) = nStack s" "db (conf s stk a) = db s" "azVar (conf s stk a) = azVar s" "aMem (conf s stk a) = aMem s"
  "agg (conf s stk a) = agg s" "aSet (conf s stk a) = aSet s" "(conf s stk a)\<lparr>stack := stk'\<rparr> = conf s stk' a"
  "(conf s stk a)\<lparr>stack := stk', lpc := int b\<rparr> = conf s stk' b"
  by (simp_all add: conf_def)

definition placed :: "('f, 'r) vdbe \<Rightarrow> nat \<Rightarrow> 'f vdbe_op list \<Rightarrow> bool" where
  "placed s a ops \<longleftrightarrow> a + length ops \<le> nOp s \<and> nOp s \<le> length (aOp s) \<and> take (length ops) (drop a (aOp s)) = ops"

lemma placed_append [simp]:
  "placed s a (X @ Y) \<longleftrightarrow> placed s a X \<and> placed s (a + length X) Y"
proof -
  have "take (length X + length Y) (drop a (aOp s)) = take (length X) (drop a (aOp s)) @ take (length Y) (drop (a + length X) (aOp s))"
    by (simp add: take_add add.commute)
  then show ?thesis by (auto simp: placed_def append_eq_append_conv)
qed

lemma placed_Nil: "placed s a [] \<longleftrightarrow> a \<le> nOp s \<and> nOp s \<le> length (aOp s)"
  by (simp add: placed_def)

lemma placed_one: "placed s a [i] \<longleftrightarrow> a < nOp s \<and> nOp s \<le> length (aOp s) \<and> aOp s ! a = i"
  by (auto simp: placed_def take_Suc_conv_app_nth hd_drop_conv_nth take_Suc hd_conv_nth)

lemma placed_Cons: "placed s a (i # Y) \<longleftrightarrow> placed s a [i] \<and> placed s (a + 1) Y"
  using placed_append [of s a "[i]" Y] by simp

text \<open>A machine without assertions, progress handler and interrupt.\<close>

definition calm :: "('f, 'r, 'l) venv \<Rightarrow> ('f, 'r) vdbe \<Rightarrow> bool" where
  "calm E s \<longleftrightarrow> \<not> diagnostic E \<and> xProgress E = None \<and> \<not> interrupt (db s)"

definition reaches :: "('f, 'r, 'l) venv \<Rightarrow> ('f, 'r) vdbe \<Rightarrow> ('f, 'r) vdbe \<Rightarrow> bool" where
  "reaches E s t \<longleftrightarrow> (\<exists>n. \<forall>k. exec_loop (n + k) E s = exec_loop k E t)"

lemma reaches_refl: "reaches E s s"
  unfolding reaches_def by (intro exI [of _ 0]) simp

lemma reaches_trans:
  assumes "reaches E s t" and "reaches E t u" shows "reaches E s u"
proof -
  obtain n m where "\<forall>k. exec_loop (n + k) E s = exec_loop k E t" "\<forall>k. exec_loop (m + k) E t = exec_loop k E u"
    using assms by (auto simp: reaches_def)
  then have "\<forall>k. exec_loop (n + m + k) E s = exec_loop k E u" by (metis add.assoc)
  then show ?thesis unfolding reaches_def by blast
qed

lemma reaches_step: "vdbe_step E s = Some (Continue t) \<Longrightarrow> reaches E s t"
  unfolding reaches_def by (intro exI [of _ 1]) simp

text \<open>One instruction: it falls through, or jumps to \<open>b\<close>.\<close>

lemma step_next:
  assumes c: "calm E s" and p: "placed s a [i]" and x: "exec_op E i (conf s stk a) = ok (conf s stk' a)"
  shows "reaches E (conf s stk a) (conf s stk' (a + 1))"
proof -
  have "vdbe_step E (conf s stk a) = Some (Continue (conf s stk' (a + 1)))"
    using c p x by (auto simp: vdbe_step_def placed_one calm_def progress_def ok_def after_switch_def Let_def conf_def)
  then show ?thesis by (rule reaches_step)
qed

lemma step_jump:
  assumes c: "calm E s" and p: "placed s a [i]" and b: "0 < p2 i" "p2 i \<le> int (nOp s)"
    and x: "exec_op E i (conf s stk a) = ok (jump i (conf s stk' a))"
  shows "reaches E (conf s stk a) (conf s stk' (nat (p2 i)))"
proof -
  have "vdbe_step E (conf s stk a) = Some (Continue (conf s stk' (nat (p2 i))))"
    using c p x b
    by (auto simp: vdbe_step_def placed_one calm_def progress_def ok_def after_switch_def Let_def conf_def jump_def)
  then show ?thesis by (rule reaches_step)
qed

section \<open>The machine and what it runs in\<close>

text \<open>The cursor instructions push the columns, the functions of the application neither fail nor change the handle,
  and the handle is marked busy as it is while a statement runs.\<close>

definition runs_in :: "('f, 'r, 'l) world \<Rightarrow> ('f func_def, 'r, 'l) venv \<Rightarrow> bool" where
  "runs_in K E \<longleftrightarrow> calm E (wvm K) \<and> wF K = fp E \<and> dbmagic (db (wvm K)) = STATUS_BUSY
     \<and> (\<forall>t c m stk a. wcol K t c = Some m \<longrightarrow> length stk < nStack (wvm K) \<longrightarrow>
          0 \<le> t \<and> storage_op E (if c \<ge> 0 then mk OP_Column t c else mk OP_Recno t 0) (conf (wvm K) stk a)
            = Some (0, conf (wvm K) (m # stk) a))
     \<and> (\<forall>f az d. xFunc E f az d = (wfun K f az, False, d))"

lemma runs_calm: "runs_in K E \<Longrightarrow> calm E (wvm K)"
  by (simp add: runs_in_def)

lemma runs_env: "runs_in K E \<Longrightarrow> \<not> diagnostic E" "runs_in K E \<Longrightarrow> fp E = wF K"
  unfolding runs_in_def calm_def by (elim conjE, simp)+

lemma runs_fpu [simp]: "runs_in K E \<Longrightarrow> fp E = wF K"
  by (simp add: runs_in_def)

section \<open>The meaning by classes of operators\<close>

declare ev.simps [simp del]

lemma ev_leaf: "op \<in> set leaf_ops \<Longrightarrow> ev K (Expr op d l r es tok it ic ia sel) = leaf_value K op tok it ic ia"
  by (simp add: ev.simps)

lemma ev_cmp: "op \<in> set cmp_ops \<Longrightarrow> ev K (Expr op d l r es tok it ic ia sel) =
    do { a \<leftarrow> ev_opt K l; b \<leftarrow> ev_opt K r;
         Some (truth_cell (wF K) (cmp_truth (cmp_by (wF K) (expr_type (Expr op d l r es tok it ic ia sel))) (rel_of op) a b)) }"
  using op_classes(1) [of op] by (simp add: ev.simps Let_def)

lemma ev_bin: "op \<in> set bin_ops \<or> op \<in> {''TK_LSHIFT'', ''TK_RSHIFT'', ''TK_CONCAT''} \<Longrightarrow>
    ev K (Expr op d l r es tok it ic ia sel) = do { a \<leftarrow> ev_opt K l; b \<leftarrow> ev_opt K r; bin_cell (wF K) op a b }"
proof -
  assume op: "op \<in> set bin_ops \<or> op \<in> {''TK_LSHIFT'', ''TK_RSHIFT'', ''TK_CONCAT''}"
  have "op \<notin> set leaf_ops" "op \<notin> set cmp_ops" using op op_classes(2) [of op] by (auto simp: op_lists)
  then show ?thesis using op by (simp add: ev.simps Let_def)
qed

lemma ev_minus: "ev K (Expr ''TK_UMINUS'' d (Some e) r es tok it ic ia sel) =
    (if eop e \<in> {''TK_FLOAT'', ''TK_INTEGER''} then
       map_option (\<lambda>z. number_cell (wF K) (eop e) (CHR ''-'' # z) (cstr (CHR ''-'' # z))) (etoken e)
     else map_option (sign_op (wF K) True) (ev K e))"
  by (simp add: ev.simps [where op = "''TK_UMINUS''"] op_lists)

lemma ev_not:
  "ev K (Expr ''TK_NOT'' d l r es tok it ic ia sel) = map_option (not_cell (wF K) (\<lambda>i. if i = 0 then 1 else 0)) (ev_opt K l)"
  "ev K (Expr ''TK_BITNOT'' d l r es tok it ic ia sel) = map_option (not_cell (wF K) (\<lambda>i. NOT i)) (ev_opt K l)"
  by (simp_all add: ev.simps op_lists)

lemma ev_null:
  "ev K (Expr ''TK_ISNULL'' d l r es tok it ic ia sel) = map_option (\<lambda>a. truth_cell (wF K) (Some (is_null a))) (ev_opt K l)"
  "ev K (Expr ''TK_NOTNULL'' d l r es tok it ic ia sel) = map_option (\<lambda>a. truth_cell (wF K) (Some (\<not> is_null a))) (ev_opt K l)"
  by (simp_all add: ev.simps op_lists)

lemma ev_call: "op \<in> {''TK_GLOB'', ''TK_LIKE'', ''TK_FUNCTION''} \<Longrightarrow> ev K (Expr op d l r es tok it ic ia sel) =
    do { f \<leftarrow> callee (wfns K) op tok (nExpr es);
         vs \<leftarrow> (case es of None \<Rightarrow> Some [] | Some xs \<Rightarrow> ev_args K xs);
         Some (wfun K f (map (\<lambda>m. arg_of (stringify (wF K) m)) vs)) }"
  by (elim insertE emptyE; simp add: ev.simps op_lists)

lemma ev_in: "ev K (Expr ''TK_IN'' d l r es tok it ic ia sel) =
    do { a \<leftarrow> ev_opt K l;
         if is_null a then Some (null_mem (wF K))
         else do { b \<leftarrow> set_member (wvm K) it (mz (entity_as_string (wF K) a)); Some (truth_cell (wF K) (Some b)) } }"
  by (simp add: ev.simps op_lists Let_def)

lemma ev_between: "ev K (Expr ''TK_BETWEEN'' d l r (Some (lo # hi # xs)) tok it ic ia sel) =
    do { a \<leftarrow> ev_opt K l; x \<leftarrow> ev K lo; y \<leftarrow> ev K hi;
         Some (truth_cell (wF K) (kleene_and (cmp_truth (cmp_values (wF K)) (\<lambda>c. c \<ge> 0) a x)
                                        (cmp_truth (cmp_values (wF K)) (\<lambda>c. c \<le> 0) a y))) }"
  by (simp add: ev.simps [where op = "''TK_BETWEEN''"] op_lists Let_def)

lemma ev_same: "op \<in> {''TK_UPLUS'', ''TK_AS''} \<Longrightarrow> ev K (Expr op d l r es tok it ic ia sel) = ev_opt K l"
  by (elim insertE emptyE; simp add: ev.simps op_lists)

lemma ev_case: "ev K (Expr ''TK_CASE'' d l r (Some xs) tok it ic ia sel) =
    do { x \<leftarrow> (case l of None \<Rightarrow> Some None | Some e \<Rightarrow> map_option Some (ev K e));
         v \<leftarrow> ev_arms K x xs;
         (case v of Some v \<Rightarrow> Some v
          | None \<Rightarrow> (case r of None \<Rightarrow> Some (null_mem (wF K)) | Some e \<Rightarrow> ev K e)) }"
  by (simp add: ev.simps [where op = "''TK_CASE''"] op_lists)

section \<open>Single instructions\<close>

lemmas run_op = exec_op_def stack_op_def store_op_def table_op_def

lemma exec_push:
  assumes "length stk < nStack s"
  shows "exec_op E (mk OP_String 0 x) (conf s stk a) = ok (conf s (null_mem (fp E) # stk) a)"
    "exec_op E (mk OP_Integer v x) (conf s stk a) = ok (conf s (int_mem (fp E) (word_of_int v) # stk) a)"
    "exec_op E (mk_text OP_String 0 t) (conf s stk a) = ok (conf s (str_mem (fp E) MEM_Static (t @ [NUL]) # stk) a)"
    "exec_op E (mk_text OP_Integer v t) (conf s stk a) = ok (conf s ((int_mem (fp E) (word_of_int v))\<lparr>mz := t @ [NUL],
        mflags := {MEM_Int, MEM_Str, MEM_Static}\<rparr> # stk) a)"
  using assms by (simp_all add: run_op mk_def mk_text_def op_String_def op_Integer_def p3_text_def next_op_def push_def)

lemma exec_agg:
  assumes "length stk < nStack (wvm K)" and "agg_value K ia = Some v"
  shows "exec_op E (mk OP_AggGet 0 ia) (conf (wvm K) stk a) = ok (conf (wvm K) (v # stk) a)"
proof -
  obtain i m where i: "pCurrent (agg (wvm K)) = Some i" "agg_cell (wvm K) i ia = Some m" "v = shared m"
    using assms(2) by (auto simp: agg_value_def bind_eq_Some_conv)
  have "agg_cell (conf (wvm K) stk a) i ia = agg_cell (wvm K) i ia" by (simp add: agg_cell_def)
  then show ?thesis
    using i assms(1) by (simp add: run_op mk_def op_AggGet_def agg_in_focus_def shared_def next_op_def push_def)
qed

lemma exec_leaf:
  assumes R: "runs_in K E" and room: "length stk < nStack (wvm K)"
    and sh: "leaf_shape (wagg K) op tok it ic ia = One i" and v: "leaf_value K op tok it ic ia = Some v"
  shows "exec_op E i (conf (wvm K) stk a) = ok (conf (wvm K) (v # stk) a)"
proof -
  consider (col) "op = ''TK_COLUMN''" | (null) "op = ''TK_NULL''" | (var) "op = ''TK_VARIABLE''" | (agg) "op = ''TK_AGG_FUNCTION''"
    | (sel) "op = ''TK_SELECT''" | (lit) "op \<notin> {''TK_COLUMN'', ''TK_NULL'', ''TK_VARIABLE'', ''TK_AGG_FUNCTION'', ''TK_SELECT''}"
    by blast
  then show ?thesis
  proof cases
    case col
    show ?thesis
    proof (cases "wagg K")
      case True
      then show ?thesis using col sh v exec_agg [OF room] by (auto simp: leaf_shape_def leaf_value_def split: if_splits)
    next
      case False
      then have "wcol K it (if ic \<ge> 0 then ic else -1) = Some v" using col v by (simp add: leaf_value_def)
      then have "0 \<le> it \<and> storage_op E (if (if ic \<ge> 0 then ic else -1) \<ge> 0 then mk OP_Column it (if ic \<ge> 0 then ic else -1) else mk OP_Recno it 0)
          (conf (wvm K) stk a) = Some (0, conf (wvm K) (v # stk) a)"
        using R room unfolding runs_in_def by blast
      then show ?thesis
        using col False sh by (auto simp: leaf_shape_def run_op mk_def op_Column_def ok_def split: if_splits)
    qed
  next
    case null
    then show ?thesis using sh v exec_push(1) [OF room, of E] R by (auto simp: leaf_shape_def leaf_value_def)
  next
    case var
    have "exec_op E (mk OP_Variable it 0) (conf (wvm K) stk a) = op_Variable E (mk OP_Variable it 0) (conf (wvm K) stk a)"
      by (simp add: run_op mk_def)
    then show ?thesis
      using sh v R room var by (auto simp: leaf_shape_def leaf_value_def mk_def op_Variable_def next_op_def push_def Let_def)
  next
    case agg
    then show ?thesis using sh v exec_agg [OF room] by (auto simp: leaf_shape_def leaf_value_def split: if_splits)
  next
    case sel
    have "exec_op E (mk OP_MemLoad ic 0) (conf (wvm K) stk a) = op_MemLoad (mk OP_MemLoad ic 0) (conf (wvm K) stk a)"
      by (simp add: run_op mk_def)
    moreover have "0 \<le> ic" "ic < int (length (aMem (wvm K)))" "v = shared (aMem (wvm K) ! nat ic)"
      using sel v by (auto simp: leaf_value_def split: if_splits)
    moreover have "insert MEM_Ephem X - {MEM_Dyn, MEM_Static, MEM_Short} = insert MEM_Ephem (X - {MEM_Dyn, MEM_Static, MEM_Short})" for X
      by auto
    ultimately show ?thesis
      using sh room sel by (auto simp: leaf_shape_def mk_def op_MemLoad_def shared_def next_op_def push_def Let_def)
  next
    case lit
    then show ?thesis
      using sh v R exec_push(3,4) [OF room, of E]
      by (auto simp: leaf_shape_def leaf_value_def number_op_def number_cell_def split: if_splits option.splits)
  qed
qed

lemma cmp_codes: "op \<in> set cmp_ops \<Longrightarrow> code_op op \<in> {29..34} \<and> false_op op \<in> {29..34}"
  unfolding cmp_ops_def list.set by (elim insertE emptyE; simp add: code_op_def false_op_def)

lemma cmp_tests:
  "op \<in> set cmp_ops \<Longrightarrow> cmp_test (code_op op) = rel_of op"
  "op \<in> set cmp_ops \<Longrightarrow> cmp_test (false_op op) = (\<lambda>c. \<not> rel_of op c)"
  unfolding cmp_ops_def list.set
  by (elim insertE emptyE; auto simp: code_op_def false_op_def cmp_test_def [abs_def] rel_of_def [abs_def])+

lemma exec_compare:
  assumes "c0 \<in> {29..34}" and "cmp_opcode c0 t = Some c"
  shows "exec_op E (mk c k x) s = compare_op E (cmp_by (fp E) t) c0 (mk c k x) s"
proof -
  have "c0 = 29 \<or> c0 = 30 \<or> c0 = 31 \<or> c0 = 32 \<or> c0 = 33 \<or> c0 = 34" using assms(1) by auto
  moreover have "c = (if t = Some SO_TEXT then c0 + 6 else c0)" using assms(2) by (cases t) (simp_all add: cmp_opcode_def)
  ultimately show ?thesis
    by (cases "t = Some SO_TEXT"; elim disjE)
      (simp_all add: run_op mk_def cmp_by_def op_compare_def op_StrCompare_def)
qed

text \<open>A comparison leaves its truth, or jumps on it.\<close>

lemma compare_value:
  "compare_op E cmp c0 (mk c k 0) (conf s (b # a # stk) n) =
    ok (conf s (truth_cell (fp E) (cmp_truth cmp (cmp_test c0) a b) # stk) n)"
  by (simp add: compare_op_def Let_def mk_def truth_cell_def cmp_truth_def)

definition jumps :: "bool \<Rightarrow> bool option \<Rightarrow> bool" where
  "jumps jin t = (case t of None \<Rightarrow> jin | Some b \<Rightarrow> b)"

lemma compare_jump:
  assumes "x \<noteq> 0"
  shows "compare_op E cmp c0 (mk c (bit1 jin) x) (conf s (b # a # stk) n) =
    ok (if jumps jin (cmp_truth cmp (cmp_test c0) a b) then jump (mk c (bit1 jin) x) (conf s stk n) else conf s stk n)"
  using assms by (simp add: compare_op_def Let_def mk_def cmp_truth_def jumps_def)

lemma exec_logic:
  assumes "op = ''TK_AND'' \<and> v = truth_cell (fp E) (kleene_and (truth (fp E) a) (truth (fp E) b))
    \<or> op = ''TK_OR'' \<and> v = truth_cell (fp E) (kleene_or (truth (fp E) a) (truth (fp E) b))"
  shows "exec_op E (mk (code_op op) 0 0) (conf s (b # a # stk) n) = ok (conf s (v # stk) n)"
  using assms
  by (elim disjE conjE; cases "truth (fp E) a"; cases "truth (fp E) b")
    (auto simp: run_op mk_def code_op_def op_logic_def Let_def truth_code_truth and_logic_def or_logic_def kleene_or_def
      truth_cell_def split: bool.splits)

lemma exec_arith:
  assumes "op \<in> {''TK_PLUS'', ''TK_MINUS'', ''TK_STAR'', ''TK_SLASH'', ''TK_REM''}" and "arith_cell (fp E) op a b = Some v"
  shows "exec_op E (mk (code_op op) 0 0) (conf s (b # a # stk) n) = ok (conf s (v # stk) n)"
proof -
  have c: "exec_op E (mk (code_op op) 0 0) s = op_arith E (mk (code_op op) 0 0) s" for s
    using assms(1) by (elim insertE emptyE; simp add: run_op mk_def code_op_def)
  have i: "int_arith (code_op op) y x = int_of_op op x y" for x y
    using assms(1) by (elim insertE emptyE; simp add: code_op_def int_arith_def int_of_op_def)
  have r: "real_arith (fp E) (code_op op) y x = real_of_op (fp E) op x y" for x y
    using assms(1) by (elim insertE emptyE; simp add: code_op_def real_arith_def real_of_op_def Let_def)
  show ?thesis
    using assms(2) unfolding c
    by (auto simp: op_arith_def arith_cell_def i r Let_def null_of_def mk_def split: if_splits option.splits)
qed

lemma exec_bits:
  assumes "\<not> diagnostic E"
  shows "op \<in> {''TK_BITAND'', ''TK_BITOR''} \<Longrightarrow> bits_cell (fp E) op a a b = Some v \<Longrightarrow>
      exec_op E (mk (code_op op) 0 0) (conf s (b # a # stk) n) = ok (conf s (v # stk) n)"
    and "op \<in> {''TK_LSHIFT'', ''TK_RSHIFT''} \<Longrightarrow> bits_cell (fp E) op b a b = Some v \<Longrightarrow>
      exec_op E (mk (code_op op) 0 0) (conf s (a # b # stk) n) = ok (conf s (v # stk) n)"
  using assms
  by (elim insertE emptyE;
      auto simp: run_op mk_def code_op_def bits_cell_def bits_of_op_def op_bits_def Let_def bit_arith_def check_def
        and.commute or.commute split: if_splits)+

lemma exec_concat:
  assumes "concat_cell (fp E) a b = Some v" and "length stk < nStack s"
  shows "exec_op E (mk OP_Concat 2 0) (conf s (b # a # stk) n) = ok (conf s (v # stk) n)"
proof -
  have "x \<noteq> [] \<Longrightarrow> 1 \<le> int (length x)" for x :: string by (cases x) auto
  from this [of "mz (entity_as_string (fp E) a)"] this [of "mz (entity_as_string (fp E) b)"] show ?thesis
    using assms
    by (auto simp: run_op mk_def concat_cell_def op_Concat_def p3_text_def Let_def pop_stack_def push_def next_op_def
        split: if_splits)
qed

lemma exec_bin:
  assumes op: "op \<in> set bin_ops" and d: "\<not> diagnostic E" and v: "bin_cell (fp E) op a b = Some v"
  shows "exec_op E (mk (code_op op) 0 0) (conf s (b # a # stk) n) = ok (conf s (v # stk) n)"
proof -
  consider "op = ''TK_AND'' \<or> op = ''TK_OR''" | "op \<in> {''TK_BITAND'', ''TK_BITOR''}"
    | "op \<in> {''TK_PLUS'', ''TK_MINUS'', ''TK_STAR'', ''TK_SLASH'', ''TK_REM''}"
    using op unfolding bin_ops_def list.set insert_iff empty_iff by argo
  then show ?thesis
  proof cases
    case 1
    then show ?thesis using v by (intro exec_logic) (elim disjE; simp add: bin_cell_def)
  next
    case 2
    then have "bits_cell (fp E) op a a b = Some v" using v by (elim insertE emptyE; simp add: bin_cell_def)
    then show ?thesis by (rule exec_bits(1) [OF d 2])
  next
    case 3
    then have "arith_cell (fp E) op a b = Some v" using v by (elim insertE emptyE; simp add: bin_cell_def)
    then show ?thesis by (rule exec_arith [OF 3])
  qed
qed

text \<open>The instruction of an expression with two operands computes its meaning from theirs.\<close>

lemma ev_Binary:
  assumes sh: "shape U H e = Binary x y c k" and ev: "ev K e = Some v" and d: "\<not> diagnostic E" and F: "fp E = wF K"
  obtains a b where "ev K x = Some a" "ev K y = Some b"
    "\<And>s stk n. length stk < nStack s \<Longrightarrow> exec_op E (mk c k 0) (conf s (b # a # stk) n) = ok (conf s (v # stk) n)"
proof (cases e)
  case (Expr op d0 l r es tok it ic ia sel)
  consider (cmp) "op \<in> set cmp_ops" "l = Some x" "r = Some y" "k = 0" "cmp_opcode (code_op op) (expr_type e) = Some c"
    | (bin) "op \<in> set bin_ops" "l = Some x" "r = Some y" "k = 0" "c = code_op op"
    | (shift) "op \<in> {''TK_LSHIFT'', ''TK_RSHIFT''}" "r = Some x" "l = Some y" "k = 0" "c = code_op op"
    | (cat) "op = ''TK_CONCAT''" "l = Some x" "r = Some y" "k = 2" "c = OP_Concat"
    using shape_BinaryD [OF sh [unfolded Expr], folded Expr] by argo
  then show ?thesis
  proof cases
    case cmp
    obtain a b where "ev K x = Some a" "ev K y = Some b"
        "v = truth_cell (wF K) (cmp_truth (cmp_by (wF K) (expr_type e)) (rel_of op) a b)"
      using ev cmp(2,3) unfolding Expr ev_cmp [OF cmp(1)] by (auto simp: bind_eq_Some_conv)
    moreover have "exec_op E (mk c k 0) s = compare_op E (cmp_by (fp E) (expr_type e)) (code_op op) (mk c k 0) s" for s
      using exec_compare cmp_codes [OF cmp(1)] cmp(5) by blast
    ultimately show ?thesis using that by (simp add: compare_value cmp_tests(1) [OF cmp(1)] F)
  next
    case bin
    obtain a b where "ev K x = Some a" "ev K y = Some b" "bin_cell (wF K) op a b = Some v"
      using ev bin unfolding Expr by (auto simp: ev_bin bind_eq_Some_conv)
    then show ?thesis using that bin exec_bin [OF bin(1) d, of a b v] by (simp add: F)
  next
    case shift
    obtain a b where "ev K y = Some a" "ev K x = Some b" and v: "bin_cell (wF K) op a b = Some v"
      using ev shift unfolding Expr by (auto simp: ev_bin bind_eq_Some_conv)
    moreover have "bits_cell (wF K) op b a b = Some v" using v shift(1) by (elim insertE emptyE; simp add: bin_cell_def)
    ultimately show ?thesis using that shift exec_bits(2) [OF d shift(1), of b a v] by (simp add: F)
  next
    case cat
    obtain a b where "ev K x = Some a" "ev K y = Some b" "bin_cell (wF K) op a b = Some v"
      using ev cat unfolding Expr by (auto simp: ev_bin bind_eq_Some_conv)
    then show ?thesis using that cat exec_concat [of E a b v] by (simp add: F bin_cell_def)
  qed
qed

lemma exec_unary:
  assumes "\<not> diagnostic E"
  shows "exec_op E (mk OP_Negative 0 0) (conf s (a # stk) n) = ok (conf s (sign_op (fp E) True a # stk) n)"
    and "exec_op E (mk OP_Not 0 0) (conf s (a # stk) n) = ok (conf s (not_cell (fp E) (\<lambda>i. if i = 0 then 1 else 0) a # stk) n)"
    and "exec_op E (mk OP_BitNot 0 0) (conf s (a # stk) n) = ok (conf s (not_cell (fp E) (\<lambda>i. NOT i) a # stk) n)"
  using assms by (simp_all add: run_op mk_def op_sign_def op_Not_def op_BitNot_def not_cell_def Let_def check_def)

lemma ev_Unary:
  fixes H :: "'f func_def list hash"
  assumes sh: "shape U H e = Unary x c" and ev: "ev K e = Some v" and d: "\<not> diagnostic E" and F: "fp E = wF K"
  obtains a where "ev K x = Some a" "\<And>s stk n. exec_op E (mk c 0 0) (conf s (a # stk) n) = ok (conf s (v # stk) n)"
proof (cases e)
  case (Expr op d0 l r es tok it ic ia sel)
  have "l = Some x \<and> (op = ''TK_UMINUS'' \<and> (minus_shape x :: 'f shape) = Unary x c \<or> op \<in> {''TK_BITNOT'', ''TK_NOT''} \<and> c = code_op op)"
    using sh Expr by (auto simp: shape_def two_def leaf_shape_def split: if_splits option.splits list.splits dest: minus_shape_Unary)
  then consider "l = Some x" "op = ''TK_UMINUS''" "(minus_shape x :: 'f shape) = Unary x c"
    | "l = Some x" "op = ''TK_BITNOT''" "c = OP_BitNot" | "l = Some x" "op = ''TK_NOT''" "c = OP_Not"
    by (auto simp: code_op_def)
  then show ?thesis
  proof cases
    case 1
    then have "c = OP_Negative" "eop x \<notin> {''TK_FLOAT'', ''TK_INTEGER''}"
      by (auto simp: minus_shape_def split: if_splits option.splits)
    then show ?thesis using that ev 1(1) exec_unary(1) [OF d] unfolding Expr 1(2) by (auto simp: ev_minus F)
  qed (use that ev Expr exec_unary(2,3) [OF d] in \<open>auto simp: ev_not F\<close>)
qed

end
