(* ===== verification/ExprRun.thy ===== *)
theory ExprRun
  imports ExprMach
begin

text \<open>
  The code of \<^verbatim>\<open>__expr_code\<close> computes the meaning of the expression: one lemma for each shape of code, and
  their sum by induction on the expression.
\<close>

section \<open>Running the code of a value\<close>

lemma code_not_Nil: "fits U H e \<Longrightarrow> code U H e a \<noteq> []"
proof (induction arbitrary: a rule: fits_induct)
  case (Between e x lo hi)
  then show ?case by (simp add: code_Between [OF Between.hyps refl refl refl])
next
  case (Choose e l xs r)
  obtain w t ys where "xs = w # t # ys" by (rule shape_ChooseD [OF Choose.hyps])
  then show ?case unfolding code_Choose [OF Choose.hyps refl refl refl refl refl] by (simp add: Let_def)
qed (simp_all add: code_shape code_Null_test)

lemma code_pos: "fits U H e \<Longrightarrow> 1 \<le> length (code U H e a)"
  using code_not_Nil [of U H e a] by (cases "code U H e a") auto

text \<open>What is shown of the code of an expression: it pushes the value, given room for as many cells as there
  are instructions.\<close>

definition computes :: "('f, 'r, 'l) world \<Rightarrow> ('f func_def, 'r, 'l) venv \<Rightarrow> expr \<Rightarrow> bool" where
  "computes K E e \<longleftrightarrow> (\<forall>a stk v C. ev K e = Some v \<longrightarrow> C = code (wagg K) (wfns K) e a \<longrightarrow> placed (wvm K) a C \<longrightarrow>
     length stk + length C \<le> nStack (wvm K) \<longrightarrow> reaches E (conf (wvm K) stk a) (conf (wvm K) (v # stk) (a + length C)))"

lemma computesD:
  assumes "computes K E e" and "ev K e = Some v" and "placed (wvm K) a (code (wagg K) (wfns K) e a)"
    and "length stk + length (code (wagg K) (wfns K) e a) \<le> nStack (wvm K)"
    and "reaches E (conf (wvm K) (v # stk) (a + length (code (wagg K) (wfns K) e a))) t"
  shows "reaches E (conf (wvm K) stk a) t"
  using assms unfolding computes_def by (blast intro: reaches_trans)

lemma computesI:
  assumes "\<And>a stk v C. ev K e = Some v \<Longrightarrow> C = code (wagg K) (wfns K) e a \<Longrightarrow> placed (wvm K) a C \<Longrightarrow>
    length stk + length C \<le> nStack (wvm K) \<Longrightarrow> reaches E (conf (wvm K) stk a) (conf (wvm K) (v # stk) (a + length C))"
  shows "computes K E e"
  using assms by (simp add: computes_def)

lemma exec_One:
  assumes R: "runs_in K E" and room: "length stk < nStack (wvm K)"
    and sh: "shape (wagg K) H e = One i" and v: "ev K e = Some v"
  shows "exec_op E i (conf (wvm K) stk a) = ok (conf (wvm K) (v # stk) a)"
proof (cases e)
  case (Expr op d l r es tok it ic ia sel)
  consider (leaf) "op \<in> set leaf_ops" "leaf_shape (wagg K) op tok it ic ia = One i"
    | (minus) x where "op = ''TK_UMINUS''" "l = Some x" "minus_shape x = One i"
    using sh Expr by (auto simp: shape_def split: if_splits option.splits list.splits)
  then show ?thesis
  proof cases
    case leaf
    then show ?thesis using exec_leaf [OF R room leaf(2)] v by (simp add: Expr ev_leaf)
  next
    case minus
    then show ?thesis
      using v R exec_push(3,4) [OF room, of E]
      by (auto simp: Expr ev_minus minus_shape_def number_op_def number_cell_def split: if_splits option.splits)
  qed
qed

lemma one_runs:
  assumes "runs_in K E" and "shape (wagg K) (wfns K) e = One i" shows "computes K E e"
proof (rule computesI)
  fix a and stk :: "'b mem list" and v C
  assume v: "ev K e = Some v" and C: "C = code (wagg K) (wfns K) e a" and P: "placed (wvm K) a C"
    and room: "length stk + length C \<le> nStack (wvm K)"
  have c: "C = [i]" using C by (simp add: code_shape(1) [OF assms(2)])
  show "reaches E (conf (wvm K) stk a) (conf (wvm K) (v # stk) (a + length C))"
    using step_next [OF runs_calm [OF assms(1)] P [unfolded c] exec_One [OF assms(1) _ assms(2) v]] room c by simp
qed

lemma binary_runs:
  assumes R: "runs_in K E" and sh: "shape (wagg K) (wfns K) e = Binary x y c k" and fit: "fits (wagg K) (wfns K) e"
    and x: "computes K E x" and y: "computes K E y"
  shows "computes K E e"
proof (rule computesI)
  fix a and stk :: "'b mem list" and v C
  let ?X = "code (wagg K) (wfns K) x a"
  let ?Y = "code (wagg K) (wfns K) y (a + length ?X)"
  assume v: "ev K e = Some v" and C: "C = code (wagg K) (wfns K) e a" and P: "placed (wvm K) a C"
    and room: "length stk + length C \<le> nStack (wvm K)"
  have c: "C = ?X @ ?Y @ [mk c k 0]" using C by (simp add: code_shape(2) [OF sh])
  have lx: "1 \<le> length ?X" using fit fits_shape(2) [OF sh] by (intro code_pos) blast
  from ev_Binary [OF sh v runs_env [OF R]] obtain va vb where ab: "ev K x = Some va" "ev K y = Some vb"
      "\<And>s stk n. length stk < nStack s \<Longrightarrow> exec_op E (mk c k 0) (conf s (vb # va # stk) n) = ok (conf s (v # stk) n)" by blast
  have "placed (wvm K) (a + length ?X + length ?Y) [mk c k 0]" using P c by (simp add: add.assoc)
  from step_next [OF runs_calm [OF R] this ab(3)] room c
  have "reaches E (conf (wvm K) (vb # va # stk) (a + length ?X + length ?Y)) (conf (wvm K) (v # stk) (a + length C))"
    by (simp add: add.assoc)
  then show "reaches E (conf (wvm K) stk a) (conf (wvm K) (v # stk) (a + length C))"
    using P c room lx by (rule_tac computesD [OF x ab(1)], simp_all) (rule computesD [OF y ab(2)], simp_all)
qed

lemma unary_runs:
  assumes R: "runs_in K E" and sh: "shape (wagg K) (wfns K) e = Unary x c" and x: "computes K E x"
  shows "computes K E e"
proof (rule computesI)
  fix a and stk :: "'b mem list" and v C
  let ?X = "code (wagg K) (wfns K) x a"
  assume v: "ev K e = Some v" and C: "C = code (wagg K) (wfns K) e a" and P: "placed (wvm K) a C"
    and room: "length stk + length C \<le> nStack (wvm K)"
  have c: "C = ?X @ [mk c 0 0]" using C by (simp add: code_shape(3) [OF sh])
  from ev_Unary [OF sh v runs_env [OF R]] obtain va where a: "ev K x = Some va"
      "\<And>s stk n. exec_op E (mk c 0 0) (conf s (va # stk) n) = ok (conf s (v # stk) n)" by blast
  have "placed (wvm K) (a + length ?X) [mk c 0 0]" using P c by simp
  from step_next [OF runs_calm [OF R] this a(2)]
  have "reaches E (conf (wvm K) (va # stk) (a + length ?X)) (conf (wvm K) (v # stk) (a + length C))"
    using c by simp
  then show "reaches E (conf (wvm K) stk a) (conf (wvm K) (v # stk) (a + length C))"
    using P c room by (rule_tac computesD [OF x a(1)]) simp_all
qed

subsection \<open>Tests for NULL\<close>

lemma exec_null_test:
  assumes "c = OP_IsNull \<and> t = is_null a \<or> c = OP_NotNull \<and> t = (\<not> is_null a)"
  shows "exec_op E (mk c 1 x) (conf s (a # stk) n) = ok (if t then jump (mk c 1 x) (conf s stk n) else conf s stk n)"
  using assms
  by (elim disjE conjE) (auto simp: run_op mk_def op_IsNull_def op_NotNull_def pop_stack_def next_op_def jump_def conf_def
      intro!: arg_cong [where f = ok])

lemma exec_AddImm: "exec_op E (mk OP_AddImm (-1) x) (conf s (int_mem (fp E) 1 # stk) n) = ok (conf s (int_mem (fp E) 0 # stk) n)"
  by (simp add: run_op mk_def op_AddImm_def int_mem_def mem0_def entity_to_int_def)

text \<open>An instruction that jumps to an address or falls through.\<close>

lemma step_cond:
  assumes c: "calm E s" and p: "placed s a [i]" and b: "p2 i = int b" "0 < b" "b \<le> nOp s"
    and x: "exec_op E i (conf s stk a) = ok (if t then jump i (conf s stk' a) else conf s stk' a)"
  shows "reaches E (conf s stk a) (conf s stk' (if t then b else a + 1))"
  using step_jump [OF c p, of stk stk'] step_next [OF c p, of stk stk'] x b by (cases t) auto

lemma null_test_runs:
  assumes R: "runs_in K E" and sh: "shape (wagg K) (wfns K) e = Null_test x c" and x: "computes K E x"
  shows "computes K E e"
proof (rule computesI)
  fix a and stk :: "'b mem list" and v C
  let ?s = "wvm K"
  let ?X = "code (wagg K) (wfns K) x (a + 1)"
  let ?b = "a + 1 + length ?X"
  assume v: "ev K e = Some v" and C: "C = code (wagg K) (wfns K) e a" and P: "placed ?s a C"
    and room: "length stk + length C \<le> nStack ?s"
  note cm = runs_calm [OF R]
  have c: "C = [mk OP_Integer 1 0] @ ?X @ [mk c 1 (int ?b + 2)] @ [mk OP_AddImm (-1) 0]"
    using C by (simp add: code_Null_test [OF sh])
  obtain m t where m: "ev K x = Some m" "v = truth_cell (wF K) (Some t)"
      "c = OP_IsNull \<and> t = is_null m \<or> c = OP_NotNull \<and> t = (\<not> is_null m)"
  proof (cases e)
    case (Expr op d l r es tok it ic ia sel)
    then have "op \<in> {''TK_ISNULL'', ''TK_NOTNULL''} \<and> l = Some x \<and> c = code_op op" using shape_inv(1) sh by blast
    then show ?thesis using that v unfolding Expr by (elim conjE insertE emptyE) (auto simp: ev_null code_op_def)
  qed
  have p: "placed ?s a [mk OP_Integer 1 0]" "placed ?s (a + 1) ?X" "placed ?s ?b [mk c 1 (int ?b + 2)]"
      "placed ?s (?b + 1) [mk OP_AddImm (-1) 0]"
    using P unfolding c placed_append by (simp_all add: add.assoc)
  have bnd: "int ?b + 2 \<le> int (nOp ?s)" using p(4) by (simp add: placed_one)
  have 1: "reaches E (conf ?s stk a) (conf ?s (int_mem (wF K) 1 # stk) (a + 1))"
    using step_next [OF cm p(1) exec_push(2)] room c R by simp
  have 2: "reaches E (conf ?s (m # int_mem (wF K) 1 # stk) ?b) (conf ?s (int_mem (wF K) 1 # stk) (if t then ?b + 2 else ?b + 1))"
    by (rule step_cond [OF cm p(3) _ _ _ exec_null_test [OF m(3)]]) (use bnd in auto)
  have 3: "reaches E (conf ?s (int_mem (wF K) 1 # stk) (?b + 1)) (conf ?s (int_mem (wF K) 0 # stk) (?b + 2))"
    using step_next [OF cm p(4)] exec_AddImm [of E 0 ?s stk "?b + 1"] R by simp
  have "reaches E (conf ?s (m # int_mem (wF K) 1 # stk) ?b) (conf ?s (v # stk) (?b + 2))"
    using 2 reaches_trans [OF _ 3] m(2) by (cases t) (auto simp: truth_cell_def)
  then have "reaches E (conf ?s (int_mem (wF K) 1 # stk) (a + 1)) (conf ?s (v # stk) (?b + 2))"
    using p(2) room c by (rule_tac computesD [OF x m(1)]) simp_all
  with 1 show "reaches E (conf ?s stk a) (conf ?s (v # stk) (a + length C))"
    using c by (auto intro: reaches_trans)
qed

subsection \<open>Function calls\<close>

lemma args_runs:
  assumes "\<And>x. x \<in> set xs \<Longrightarrow> computes K E x \<and> fits (wagg K) (wfns K) x" and "ev_args K xs = Some vs"
    and "placed (wvm K) a (args_ops (wagg K) (wfns K) xs a)"
    and "length stk + length (args_ops (wagg K) (wfns K) xs a) \<le> nStack (wvm K)"
  shows "reaches E (conf (wvm K) stk a) (conf (wvm K) (rev vs @ stk) (a + length (args_ops (wagg K) (wfns K) xs a)))"
  using assms
proof (induction xs arbitrary: a stk vs)
  case Nil
  then show ?case by (simp add: reaches_refl)
next
  case (Cons x xs)
  let ?X = "code (wagg K) (wfns K) x a"
  obtain v ws where v: "ev K x = Some v" "ev_args K xs = Some ws" "vs = v # ws"
    using Cons.prems(2) by (auto simp: bind_eq_Some_conv)
  have x: "computes K E x" "1 \<le> length ?X" using Cons.prems(1) [of x] code_pos by auto
  have "reaches E (conf (wvm K) (v # stk) (a + length ?X))
      (conf (wvm K) (rev ws @ v # stk) (a + length ?X + length (args_ops (wagg K) (wfns K) xs (a + length ?X))))"
    by (rule Cons.IH [OF _ v(2)]) (use Cons.prems x(2) in \<open>simp_all add: Let_def\<close>)
  then show ?case
    using Cons.prems v by (rule_tac computesD [OF x(1) v(1)]) (simp_all add: Let_def add.assoc)
qed

lemma busy_again: "dbmagic d = STATUS_BUSY \<Longrightarrow> safety_off d = (False, d\<lparr>dbmagic := STATUS_OPEN\<rparr>)"
  "dbmagic d = STATUS_BUSY \<Longrightarrow> safety_on (d\<lparr>dbmagic := STATUS_OPEN\<rparr>) = (False, d)"
  by (simp_all add: safety_off_def safety_on_def)

lemma exec_call:
  assumes R: "runs_in K E" and n: "length vs = n" and room: "length stk < nStack (wvm K)"
  shows "exec_op E (mk_call n f) (conf (wvm K) (rev vs @ stk) a) =
    ok (conf (wvm K) (wfun K f (map (\<lambda>m. arg_of (stringify (wF K) m)) vs) # stk) a)"
proof -
  let ?s = "conf (wvm K) (rev vs @ stk) a"
  have b: "dbmagic (db (wvm K)) = STATUS_BUSY" and x: "\<And>f az d. xFunc E f az d = (wfun K f az, False, d)"
    using R unfolding runs_in_def by blast+
  have d: "exec_op E (mk_call n f) ?s = op_Function E (mk_call n f) ?s" by (simp add: run_op mk_call_def)
  have t: "stringify_top E n ?s = conf (wvm K) (rev (map (stringify (wF K)) vs) @ stk) a"
    using n R by (simp add: stringify_top_def rev_map)
  have g: "top_args n (conf (wvm K) (rev (map (stringify (wF K)) vs) @ stk) a) = map (\<lambda>m. arg_of (stringify (wF K) m)) vs"
    using n by (simp add: top_args_def comp_def)
  have u: "(conf (wvm K) k a)\<lparr>db := db (wvm K)\<rparr> = conf (wvm K) k a" for k by (simp add: conf_def)
  show ?thesis
    unfolding d using n room
    by (simp add: op_Function_def mk_call_def t g busy_again [OF b] x u pop_stack_def push_def ok_def)
qed

lemma call_runs:
  assumes R: "runs_in K E" and sh: "shape (wagg K) (wfns K) e = Call xs f"
    and x: "\<And>x. x \<in> set xs \<Longrightarrow> computes K E x \<and> fits (wagg K) (wfns K) x"
  shows "computes K E e"
proof (rule computesI)
  fix a and stk :: "'b mem list" and v C
  let ?X = "args_ops (wagg K) (wfns K) xs a"
  assume v: "ev K e = Some v" and C: "C = code (wagg K) (wfns K) e a" and P: "placed (wvm K) a C"
    and room: "length stk + length C \<le> nStack (wvm K)"
  have c: "C = ?X @ [mk_call (length xs) f]" using C by (simp add: code_shape(4) [OF sh])
  obtain vs where vs: "ev_args K xs = Some vs" "v = wfun K f (map (\<lambda>m. arg_of (stringify (wF K) m)) vs)"
  proof (cases e)
    case (Expr op d l r es tok it ic ia sel)
    then have *: "op \<in> {''TK_GLOB'', ''TK_LIKE'', ''TK_FUNCTION''}" "callee (wfns K) op tok (nExpr es) = Some f"
      "xs = (case es of None \<Rightarrow> [] | Some xs \<Rightarrow> xs)" using shape_inv(2) sh by blast+
    show ?thesis using that v *(2,3) unfolding Expr ev_call [OF *(1)] by (cases es) (auto simp: bind_eq_Some_conv)
  qed
  have "length vs = length xs" using vs(1) by (induction xs arbitrary: vs) (auto simp: bind_eq_Some_conv)
  from step_next [OF runs_calm [OF R] _ exec_call [OF R this], of "a + length ?X" f stk]
  have "reaches E (conf (wvm K) (rev vs @ stk) (a + length ?X)) (conf (wvm K) (v # stk) (a + length C))"
    using P c room vs(2) by simp
  moreover have "reaches E (conf (wvm K) stk a) (conf (wvm K) (rev vs @ stk) (a + length ?X))"
    by (rule args_runs [OF x vs(1)]) (use P c room in simp_all)
  ultimately show "reaches E (conf (wvm K) stk a) (conf (wvm K) (v # stk) (a + length C))"
    using reaches_trans by blast
qed

subsection \<open>BETWEEN\<close>

text \<open>Copying a cell may change who owns its text, which a comparison does not see.\<close>

definition same_value :: "'r mem \<Rightarrow> 'r mem \<Rightarrow> bool" where
  "same_value m n \<longleftrightarrow> mi m = mi n \<and> mr m = mr n \<and> mz m = mz n
     \<and> (\<forall>f \<in> {MEM_Null, MEM_Int, MEM_Real, MEM_Str}. f \<in> mflags m \<longleftrightarrow> f \<in> mflags n)"

lemma same_value_cmp:
  assumes "same_value m n"
  shows "cmp_truth (cmp_values F) R m b = cmp_truth (cmp_values F) R n b" "cmp_truth (cmp_values F) R b m = cmp_truth (cmp_values F) R b n"
  using assms
  by (simp_all add: same_value_def cmp_truth_def cmp_values_def is_null_def entity_as_string_def num_text_def)

definition dup_cell :: "int \<Rightarrow> 'r mem \<Rightarrow> 'r mem" where
  "dup_cell y m =
     (if MEM_Str \<in> mflags m then
        (if y \<noteq> 0 \<and> (MEM_Dyn \<in> mflags m \<or> MEM_Ephem \<in> mflags m) then m\<lparr>mflags := insert MEM_Ephem (mflags m - {MEM_Dyn})\<rparr>
         else if MEM_Short \<in> mflags m then m
         else if MEM_Static \<notin> mflags m
         then m\<lparr>mflags := insert MEM_Dyn (mflags m - {MEM_Static, MEM_Ephem, MEM_Short})\<rparr>
         else m)
      else m)"

lemma same_dup: "same_value (dup_cell y m) m"
  by (simp add: dup_cell_def same_value_def)

lemmas dup_cmp [simp] = same_dup [THEN same_value_cmp(1)] same_dup [THEN same_value_cmp(2)]

lemma exec_Dup:
  assumes "n < length stk" and "length stk < nStack s"
  shows "exec_op E (mk OP_Dup (int n) y) (conf s stk a) = ok (conf s (dup_cell y (stk ! n) # stk) a)"
proof -
  have "exec_op E (mk OP_Dup (int n) y) (conf s stk a) = op_Dup (mk OP_Dup (int n) y) (conf s stk a)"
    by (simp add: run_op mk_def)
  then show ?thesis using assms by (simp add: op_Dup_def mk_def next_op_def push_def dup_cell_def Let_def)
qed

lemma exec_Pull:
  assumes "MEM_Ephem \<notin> mflags t"
  shows "exec_op E (mk OP_Pull 1 0) (conf s (t # m # stk) a) = ok (conf s (m # t # stk) a)"
  using assms by (simp add: run_op mk_def op_Pull_def entity_ephem_to_dyn_def)

lemma truth_cell_simps [simp]:
  "MEM_Ephem \<notin> mflags (truth_cell F t)" "truth F (truth_cell F t) = t"
  by (simp_all add: truth_cell_def truth_def int_mem_def null_mem_def mem0_def is_null_def entity_to_int_def split: option.splits)

lemma exec_cmp_value:
  assumes "c \<in> {29..34}"
  shows "exec_op E (mk c 0 0) (conf s (b # a # stk) n) =
    ok (conf s (truth_cell (fp E) (cmp_truth (cmp_values (fp E)) (cmp_test c) a b) # stk) n)"
  using exec_compare [OF assms, of "Some SO_NUM" c E 0 0 "conf s (b # a # stk) n"]
    compare_value [of E "cmp_values (fp E)" c c 0 s b a stk n]
  by (simp add: cmp_opcode_def cmp_by_def SO_TEXT_def SO_NUM_def)

lemma ge_le_test: "cmp_test OP_Ge = (\<lambda>c. 0 \<le> c)" "cmp_test OP_Le = (\<lambda>c. c \<le> 0)"
  by (auto simp: cmp_test_def)

lemma between_runs:
  assumes R: "runs_in K E" and sh: "shape (wagg K) (wfns K) e = Between x lo hi" and fit: "fits (wagg K) (wfns K) e"
    and C: "computes K E x" "computes K E lo" "computes K E hi"
  shows "computes K E e"
proof (rule computesI)
  fix a and stk :: "'b mem list" and v C
  let ?s = "wvm K" and ?F = "wF K"
  define X where "X = code (wagg K) (wfns K) x a"
  define Y where "Y = code (wagg K) (wfns K) lo (a + length X + 1)"
  define Z where "Z = code (wagg K) (wfns K) hi (a + length X + length Y + 3)"
  assume v: "ev K e = Some v" and Cd: "C = code (wagg K) (wfns K) e a" and P: "placed ?s a C"
    and room: "length stk + length C \<le> nStack ?s"
  have c: "C = X @ [mk OP_Dup 0 0] @ Y @ [mk OP_Ge 0 0] @ [mk OP_Pull 1 0] @ Z @ [mk OP_Le 0 0] @ [mk OP_And 0 0]"
    unfolding Cd code_Between [OF sh X_def Y_def Z_def] by simp
  let ?b = "a + length X + 1 + length Y"
  have p: "placed ?s a X" "placed ?s (a + length X) [mk OP_Dup 0 0]" "placed ?s (a + length X + 1) Y"
      "placed ?s ?b [mk OP_Ge 0 0]" "placed ?s (?b + 1) [mk OP_Pull 1 0]" "placed ?s (?b + 2) Z"
      "placed ?s (?b + 2 + length Z) [mk OP_Le 0 0]" "placed ?s (?b + 2 + length Z + 1) [mk OP_And 0 0]"
    using P unfolding c placed_append by (simp_all add: add.assoc add.commute add.left_commute)
  obtain va vl vh where e: "ev K x = Some va" "ev K lo = Some vl" "ev K hi = Some vh"
      and v': "v = truth_cell ?F (kleene_and (cmp_truth (cmp_values ?F) (\<lambda>c. c \<ge> 0) va vl) (cmp_truth (cmp_values ?F) (\<lambda>c. c \<le> 0) va vh))"
  proof (cases e)
    case (Expr op d l r es tok it ic ia sel)
    then obtain ys where *: "op = ''TK_BETWEEN''" "l = Some x" "es = Some (lo # hi # ys)" using shape_inv(3) sh by blast
    show ?thesis using that v unfolding Expr * by (auto simp: ev_between bind_eq_Some_conv)
  qed
  let ?t1 = "truth_cell ?F (cmp_truth (cmp_values ?F) (\<lambda>c. c \<ge> 0) va vl)"
  let ?t2 = "truth_cell ?F (cmp_truth (cmp_values ?F) (\<lambda>c. c \<le> 0) va vh)"
  have "a + length X + length Y + 3 = ?b + 2" by simp
  then have Zb: "Z = code (wagg K) (wfns K) hi (?b + 2)" unfolding Z_def by (simp only:)
  note cm = runs_calm [OF R] and F = runs_env(2) [OF R]
  have lx: "1 \<le> length X" "1 \<le> length Y" unfolding X_def Y_def using fit fits_shape(6) [OF sh] code_pos by blast+
  have r2: "reaches E (conf ?s (va # stk) (a + length X)) (conf ?s (dup_cell 0 va # va # stk) (a + length X + 1))"
    by (rule step_next [OF cm p(2)]) (use exec_Dup [of 0 "va # stk" ?s E 0] room c lx in simp)
  have r4: "reaches E (conf ?s (vl # dup_cell 0 va # va # stk) ?b) (conf ?s (?t1 # va # stk) (?b + 1))"
    by (rule step_next [OF cm p(4)]) (use exec_cmp_value [of OP_Ge E] in \<open>simp add: F ge_le_test\<close>)
  have r5: "reaches E (conf ?s (?t1 # va # stk) (?b + 1)) (conf ?s (va # ?t1 # stk) (?b + 2))"
    using step_next [OF cm p(5) exec_Pull [of ?t1]] by simp
  have r7: "reaches E (conf ?s (vh # va # ?t1 # stk) (?b + 2 + length Z)) (conf ?s (?t2 # ?t1 # stk) (?b + 2 + length Z + 1))"
    by (rule step_next [OF cm p(7)]) (use exec_cmp_value [of OP_Le E] in \<open>simp add: F ge_le_test\<close>)
  have r8: "reaches E (conf ?s (?t2 # ?t1 # stk) (?b + 2 + length Z + 1)) (conf ?s (v # stk) (a + length C))"
    using step_next [OF cm p(8), of "?t2 # ?t1 # stk" "v # stk"] exec_logic [of "''TK_AND''" v E ?t1 ?t2 ?s stk]
    by (simp add: v' F code_op_def c add.assoc)
  have r1: "reaches E (conf ?s stk a) (conf ?s (va # stk) (a + length X))"
    unfolding X_def by (rule computesD [OF C(1) e(1) _ _ reaches_refl]) (use p room c in \<open>simp_all add: X_def\<close>)
  have r3: "reaches E (conf ?s (dup_cell 0 va # va # stk) (a + length X + 1)) (conf ?s (vl # dup_cell 0 va # va # stk) ?b)"
    unfolding Y_def by (rule computesD [OF C(2) e(2) _ _ reaches_refl]) (use p room c lx in \<open>simp_all add: Y_def\<close>)
  have r6: "reaches E (conf ?s (va # ?t1 # stk) (?b + 2)) (conf ?s (vh # va # ?t1 # stk) (?b + 2 + length Z))"
    using computesD [OF C(3) e(3) _ _ reaches_refl, of "?b + 2" "va # ?t1 # stk", folded Zb] p(6) room c lx by simp
  from r1 r2 r3 r4 r5 r6 r7 r8
  show "reaches E (conf ?s stk a) (conf ?s (v # stk) (a + length C))" by (blast intro: reaches_trans)
qed

subsection \<open>CASE\<close>

lemma exec_Pop: "exec_op E (mk OP_Pop 1 0) (conf s (m # stk) n) = ok (conf s stk n)"
  by (simp add: run_op mk_def op_Pop_def pop_stack_def next_op_def)

lemma exec_Goto: "calm E s \<Longrightarrow> exec_op E (mk OP_Goto 0 x) (conf s stk n) = ok (jump (mk OP_Goto 0 x) (conf s stk n))"
  by (simp add: run_op mk_def op_Goto_def check_interrupt_def calm_def)

lemma exec_cmp_jump:
  assumes "c \<in> {29..34}" and "x \<noteq> 0"
  shows "exec_op E (mk c (bit1 jin) x) (conf s (b # a # stk) n) =
    ok (if jumps jin (cmp_truth (cmp_values (fp E)) (cmp_test c) a b) then jump (mk c (bit1 jin) x) (conf s stk n) else conf s stk n)"
  using exec_compare [OF assms(1), of "Some SO_NUM" c E "bit1 jin" x "conf s (b # a # stk) n"]
    compare_jump [OF assms(2), of E "cmp_values (fp E)" c c jin s b a stk n]
  by (simp add: cmp_opcode_def cmp_by_def SO_TEXT_def SO_NUM_def)

lemma exec_If:
  assumes "\<not> diagnostic E"
  shows "exec_op E (mk OP_IfNot (bit1 jin) x) (conf s (a # stk) n) =
      ok (if jumps jin (kleene_not (truth (fp E) a)) then jump (mk OP_IfNot (bit1 jin) x) (conf s stk n) else conf s stk n)"
    and "exec_op E (mk OP_If (bit1 jin) x) (conf s (a # stk) n) =
      ok (if jumps jin (truth (fp E) a) then jump (mk OP_If (bit1 jin) x) (conf s stk n) else conf s stk n)"
  using assms by (simp_all add: run_op mk_def op_If_def Let_def check_def truth_def jumps_def)

text \<open>The test of one arm: the stack holds the value of the WHEN part above the value after CASE, if there
  is one, which stays for the next arm.\<close>

lemma arm_runs:
  assumes R: "runs_in K E" and P: "placed (wvm K) a (arm_ops (x \<noteq> None) (int n))" and n: "0 < n" "n \<le> nOp (wvm K)"
    and room: "length stk + 3 \<le> nStack (wvm K)"
    and b: "b = (case x of None \<Rightarrow> truth (wF K) w | Some m \<Rightarrow> cmp_truth (cmp_values (wF K)) (\<lambda>c. c = 0) w m)"
  shows "reaches E (conf (wvm K) (w # (case x of None \<Rightarrow> stk | Some m \<Rightarrow> m # stk)) a)
    (if b = Some True then conf (wvm K) stk (a + length (arm_ops (x \<noteq> None) (int n)))
     else conf (wvm K) (case x of None \<Rightarrow> stk | Some m \<Rightarrow> m # stk) n)"
proof (cases x)
  case None
  have "placed (wvm K) a [mk OP_IfNot (bit1 True) (int n)]" using P None by (simp add: arm_ops_def)
  from step_cond [OF runs_calm [OF R] this _ _ _ exec_If(1) [OF runs_env(1) [OF R]], of n w stk] n
  show ?thesis
    using None b R by (cases "truth (wF K) w") (auto simp: jumps_def arm_ops_def)
next
  case (Some m)
  let ?s = "wvm K"
  have p: "placed ?s a [mk OP_Dup 1 1]" "placed ?s (a + 1) [mk OP_Ne (bit1 True) (int n)]" "placed ?s (a + 2) [mk OP_Pop 1 0]"
    using P Some placed_Cons [of ?s a "mk OP_Dup 1 1" "[mk OP_Ne 1 (int n), mk OP_Pop 1 0]"]
      placed_Cons [of ?s "a + 1" "mk OP_Ne 1 (int n)" "[mk OP_Pop 1 0]"]
    by (simp_all add: arm_ops_def)
  have 1: "reaches E (conf ?s (w # m # stk) a) (conf ?s (dup_cell 1 m # w # m # stk) (a + 1))"
    by (rule step_next [OF runs_calm [OF R] p(1)]) (use exec_Dup [of 1 "w # m # stk" ?s E 1] room in simp)
  have t: "jumps True (cmp_truth (cmp_values (fp E)) (cmp_test OP_Ne) w (dup_cell 1 m)) \<longleftrightarrow> b \<noteq> Some True"
    unfolding dup_cmp using Some b R by (auto simp: jumps_def cmp_truth_def cmp_test_def [abs_def])
  have 2: "reaches E (conf ?s (dup_cell 1 m # w # m # stk) (a + 1)) (conf ?s (m # stk) (if b \<noteq> Some True then n else a + 1 + 1))"
    unfolding t [symmetric] by (rule step_cond [OF runs_calm [OF R] p(2) _ _ _ exec_cmp_jump]) (use n in auto)
  have 3: "reaches E (conf ?s (m # stk) (a + 2)) (conf ?s stk (a + 3))"
    using step_next [OF runs_calm [OF R] p(3) exec_Pop] by (simp add: numeral_3_eq_3)
  show ?thesis
    using Some 1 2 3 by (cases "b = Some True") (auto simp: arm_ops_def numeral_3_eq_3 intro: reaches_trans)
qed

definition mstack :: "'r mem option \<Rightarrow> 'r mem list \<Rightarrow> 'r mem list" where
  "mstack x stk = (case x of None \<Rightarrow> stk | Some m \<Rightarrow> m # stk)"

lemma arms_runs:
  assumes R: "runs_in K E" and C: "\<And>e. e \<in> set xs \<Longrightarrow> computes K E e \<and> fits (wagg K) (wfns K) e"
    and v: "ev_arms K x xs = Some v" and ops: "A = arms_ops (wagg K) (wfns K) (x \<noteq> None) (int lend) xs a"
    and P: "placed (wvm K) a A" and l: "0 < lend" "lend \<le> nOp (wvm K)"
    and room: "length (mstack x stk) + length A \<le> nStack (wvm K)"
  shows "reaches E (conf (wvm K) (mstack x stk) a)
    (case v of Some r \<Rightarrow> conf (wvm K) (r # stk) lend | None \<Rightarrow> conf (wvm K) (mstack x stk) (a + length A))"
  using C v ops P room
proof (induction xs arbitrary: a A rule: induct_list012)
  case (3 w t xs)
  let ?s = "wvm K" and ?k = "if x \<noteq> None then 3 else (1 :: nat)"
  define X where "X = code (wagg K) (wfns K) w a"
  define Y where "Y = code (wagg K) (wfns K) t (a + length X + ?k)"
  define n where "n = a + length X + ?k + length Y + 1"
  define B where "B = arms_ops (wagg K) (wfns K) (x \<noteq> None) (int lend) xs n"
  have A: "A = X @ arm_ops (x \<noteq> None) (int n) @ Y @ [mk OP_Goto 0 (int lend)] @ B"
    using "3.prems"(3) by (simp add: Let_def X_def Y_def n_def B_def)
  have p: "placed ?s a X" "placed ?s (a + length X) (arm_ops (x \<noteq> None) (int n))" "placed ?s (a + length X + ?k) Y"
      "placed ?s (n - 1) [mk OP_Goto 0 (int lend)]" "placed ?s n B"
    using "3.prems"(4) unfolding A placed_append by (simp_all add: n_def add.assoc)
  have w: "computes K E w" "1 \<le> length X" and t: "computes K E t" "1 \<le> length Y"
    using "3.prems"(1) [of w] "3.prems"(1) [of t] code_pos unfolding X_def Y_def by (simp_all only: list.set_intros) blast+
  obtain vw where vw: "ev K w = Some vw" using "3.prems"(2) by (auto simp: bind_eq_Some_conv)
  define b where "b = (case x of None \<Rightarrow> truth (wF K) vw | Some m \<Rightarrow> cmp_truth (cmp_values (wF K)) (\<lambda>c. c = 0) vw m)"
  have n: "0 < n" "n \<le> nOp ?s" using p(5) by (auto simp: n_def placed_def)
  have rm: "length (mstack x stk) + length X + ?k + length Y + 1 + length B \<le> nStack ?s" using "3.prems"(5) A by simp
  have 1: "reaches E (conf ?s (mstack x stk) a) (conf ?s (vw # mstack x stk) (a + length X))"
    unfolding X_def by (rule computesD [OF w(1) vw _ _ reaches_refl]) (use p(1) rm in \<open>simp_all add: X_def\<close>)
  have 2: "reaches E (conf ?s (vw # mstack x stk) (a + length X))
      (if b = Some True then conf ?s stk (a + length X + ?k) else conf ?s (mstack x stk) n)"
    using arm_runs [OF R p(2) n _ b_def, of stk] rm w t by (simp add: mstack_def split: option.splits if_splits)
  show ?case
  proof (cases "b = Some True")
    case True
    then obtain vt where vt: "ev K t = Some vt" "v = Some vt"
      using "3.prems"(2) vw by (auto simp: bind_eq_Some_conv b_def)
    have 3: "reaches E (conf ?s stk (a + length X + ?k)) (conf ?s (vt # stk) (n - 1))"
      using computesD [OF t(1) vt(1) _ _ reaches_refl, of "a + length X + ?k" stk] p(3) rm
      by (simp add: Y_def n_def mstack_def split: option.splits)
    have 4: "reaches E (conf ?s (vt # stk) (n - 1)) (conf ?s (vt # stk) lend)"
      using step_jump [OF runs_calm [OF R] p(4) _ _ exec_Goto [OF runs_calm [OF R]]] l by simp
    show ?thesis using 1 2 3 4 True vt(2) by (auto intro: reaches_trans)
  next
    case False
    then have "ev_arms K x xs = Some v" using "3.prems"(2) vw by (auto simp: bind_eq_Some_conv b_def Let_def split: if_splits)
    then have "reaches E (conf ?s (mstack x stk) n)
        (case v of Some r \<Rightarrow> conf ?s (r # stk) lend | None \<Rightarrow> conf ?s (mstack x stk) (n + length B))"
      using "3.IH"(1) [OF _ _ B_def p(5)] "3.prems"(1) rm by simp
    moreover have "n + length B = a + length A" by (simp add: A n_def)
    moreover have "reaches E (conf ?s (mstack x stk) a) (conf ?s (mstack x stk) n)" using 1 2 False by (auto intro: reaches_trans)
    ultimately show ?thesis using reaches_trans by (simp only:) blast
  qed
qed (auto simp: reaches_refl)


lemma else_runs:
  assumes R: "runs_in K E" and P: "placed (wvm K) a W" "placed (wvm K) (a + length W) Z"
    and W: "W = (if l \<noteq> None then [mk OP_Pop 1 0] else [])"
    and Z: "Z = opt_ops (wagg K) (wfns K) [mk OP_String 0 0] r (a + length W)"
    and x: "x \<noteq> None \<longleftrightarrow> l \<noteq> None" and C: "\<And>e. r = Some e \<Longrightarrow> computes K E e"
    and v: "(case r of None \<Rightarrow> Some (null_mem (wF K)) | Some e \<Rightarrow> ev K e) = Some v"
    and room: "length stk + length Z \<le> nStack (wvm K)"
  shows "reaches E (conf (wvm K) (mstack x stk) a) (conf (wvm K) (v # stk) (a + length W + length Z))"
proof -
  have 1: "reaches E (conf (wvm K) (mstack x stk) a) (conf (wvm K) stk (a + length W))"
    using x step_next [OF runs_calm [OF R] _ exec_Pop] P(1) by (cases x) (auto simp: W mstack_def reaches_refl)
  have 2: "reaches E (conf (wvm K) stk (a + length W)) (conf (wvm K) (v # stk) (a + length W + length Z))"
  proof (cases r)
    case None
    then show ?thesis
      using step_next [OF runs_calm [OF R] _ exec_push(1), of "a + length W" 0 stk] P(2) v room R by (simp add: Z)
  next
    case (Some e)
    then show ?thesis
      using computesD [OF C _ _ _ reaches_refl, of e v "a + length W" stk] P(2) v room by (simp add: Z)
  qed
  from 1 2 show ?thesis by (rule reaches_trans)
qed

lemma case_runs:
  assumes R: "runs_in K E" and sh: "shape (wagg K) (wfns K) e = Choose l xs r" and fit: "fits (wagg K) (wfns K) e"
    and C: "\<And>x. x \<in> set_option l \<union> set xs \<union> set_option r \<Longrightarrow> computes K E x"
  shows "computes K E e"
proof (rule computesI)
  fix a and stk :: "'b mem list" and v B
  let ?s = "wvm K"
  define X where "X = opt_ops (wagg K) (wfns K) [] l a"
  define b where "b = a + length X"
  define m where "m = length (arms_ops (wagg K) (wfns K) (l \<noteq> None) 0 xs b)"
  define W where "W = (if l \<noteq> None then [mk OP_Pop 1 0 :: 'a func_def vdbe_op] else [])"
  define Z where "Z = opt_ops (wagg K) (wfns K) [mk OP_String 0 0] r (b + m + length W)"
  define lend where "lend = b + m + length W + length Z"
  define A where "A = arms_ops (wagg K) (wfns K) (l \<noteq> None) (int lend) xs b"
  assume v: "ev K e = Some v" and Bd: "B = code (wagg K) (wfns K) e a" and P: "placed ?s a B"
    and room: "length stk + length B \<le> nStack ?s"
  have fx: "\<And>x. x \<in> set_option l \<union> set xs \<union> set_option r \<Longrightarrow> fits (wagg K) (wfns K) x" using fit fits_shape(8) [OF sh] by blast
  have B: "B = X @ A @ W @ Z"
    unfolding Bd code_Choose [OF sh X_def b_def m_def W_def Z_def] A_def lend_def by simp
  have lA: "length A = m" unfolding A_def m_def using fx by (intro arms_len code_len) blast
  have le: "a + length B = lend" by (simp add: B lA lend_def b_def)
  have p: "placed ?s a X" "placed ?s b A" "placed ?s (b + m) W" "placed ?s (b + m + length W) Z"
    using P lA unfolding B placed_append by (simp_all add: b_def)
  obtain x w where x: "(case l of None \<Rightarrow> Some None | Some e \<Rightarrow> map_option Some (ev K e)) = Some x" "ev_arms K x xs = Some w"
      "(case w of Some v \<Rightarrow> Some v | None \<Rightarrow> (case r of None \<Rightarrow> Some (null_mem (wF K)) | Some e \<Rightarrow> ev K e)) = Some v"
  proof (rule shape_ChooseD [OF sh])
    fix d tok it ic ia sel assume "e = Expr ''TK_CASE'' d l r (Some xs) tok it ic ia sel"
    then show ?thesis using that v by (auto simp: ev_case bind_eq_Some_conv)
  qed
  have lx: "x \<noteq> None \<longleftrightarrow> l \<noteq> None" using x(1) by (cases l) auto
  have lX: "length (mstack x stk) \<le> length stk + length X"
  proof (cases l)
    case None
    then show ?thesis using x(1) by (simp add: mstack_def)
  next
    case (Some e)
    then show ?thesis using x(1) fx code_pos [of "wagg K" "wfns K" e a] by (auto simp: mstack_def X_def)
  qed
  have 1: "reaches E (conf ?s stk a) (conf ?s (mstack x stk) b)"
  proof (cases l)
    case None
    then show ?thesis using x(1) by (simp add: mstack_def b_def X_def reaches_refl)
  next
    case (Some e)
    then obtain u where u: "ev K e = Some u" "x = Some u" using x(1) by auto
    show ?thesis
      using computesD [OF _ u(1) _ _ reaches_refl, of E a stk] C [of e] Some u(2) p(1) room B
      by (simp add: mstack_def b_def X_def)
  qed
  obtain w0 t0 ys where "xs = w0 # t0 # ys" by (rule shape_ChooseD [OF sh])
  then have "0 < length A" by (simp add: A_def Let_def)
  then have l: "0 < lend" "lend \<le> nOp ?s" using p(4) lA by (auto simp: lend_def placed_def)
  have 2: "reaches E (conf ?s (mstack x stk) b) (case w of Some r \<Rightarrow> conf ?s (r # stk) lend | None \<Rightarrow> conf ?s (mstack x stk) (b + m))"
    unfolding lA [symmetric] by (rule arms_runs [OF R _ x(2) _ p(2) l]) (use C fx lx lX room B in \<open>auto simp: A_def\<close>)
  have "reaches E (conf ?s (mstack x stk) (b + m)) (conf ?s (v # stk) lend)" if w: "w = None"
    unfolding lend_def
  proof (rule else_runs [OF R p(3,4) W_def Z_def])
    show "computes K E e'" if "r = Some e'" for e' using C that by simp
    show "(case r of None \<Rightarrow> Some (null_mem (wF K)) | Some e \<Rightarrow> ev K e) = Some v" using x(3) w by simp
    show "length stk + length Z \<le> nStack ?s" using room B by simp
  qed (use lx in auto)
  then have "reaches E (case w of Some r \<Rightarrow> conf ?s (r # stk) lend | None \<Rightarrow> conf ?s (mstack x stk) (b + m)) (conf ?s (v # stk) lend)"
    using x(3) by (cases w) (auto simp: reaches_refl)
  with 1 2 show "reaches E (conf ?s stk a) (conf ?s (v # stk) (a + length B))" unfolding le by (blast intro: reaches_trans)
qed


text \<open>The code of an expression leaves its meaning on the stack.\<close>

lemma fits_computes: "runs_in K E \<Longrightarrow> fits (wagg K) (wfns K) e \<Longrightarrow> computes K E e"
proof (induction "size e" arbitrary: e rule: less_induct)
  case less
  note R = less.prems(1) and fit = less.prems(2)
  have C: "computes K E x" if "size x < size e" "fits (wagg K) (wfns K) x" for x using less.hyps [OF that(1) R that(2)] .
  show ?case
  proof (cases "shape (wagg K) (wfns K) e")
    case (One i)
    then show ?thesis by (rule one_runs [OF R])
  next
    case (Binary x y c k)
    then show ?thesis
      using shape_size(1) [OF Binary] fit fits_shape(2) [OF Binary] by (intro binary_runs [OF R Binary fit] C) auto
  next
    case (Unary x c)
    then show ?thesis
      using shape_size(2) [OF Unary] fit fits_shape(3) [OF Unary] by (intro unary_runs [OF R Unary] C) auto
  next
    case (Same x)
    have "ev K e = ev K x"
    proof (cases e)
      case (Expr op d l r es tok it ic ia sel)
      then show ?thesis using shape_inv(4) [OF Same [unfolded Expr]] by (auto simp: ev_same)
    qed
    moreover have "computes K E x" using C shape_size(6) [OF Same] fit fits_shape(7) [OF Same] by auto
    ultimately show ?thesis by (simp add: computes_def code_shape(5) [OF Same])
  next
    case (Choose l xs r)
    then show ?thesis
      using shape_size_mem(2,3) [OF Choose] fit fits_shape(8) [OF Choose] by (intro case_runs [OF R Choose fit] C) auto
  next
    case (Null_test x c)
    then show ?thesis
      using shape_size(3) [OF Null_test] fit fits_shape(4) [OF Null_test] by (intro null_test_runs [OF R Null_test] C) auto
  next
    case (Call xs f)
    then show ?thesis
      using shape_size_mem(1) [OF Call] fit fits_shape(5) [OF Call] by (intro call_runs [OF R Call] conjI C) auto
  next
    case (Between x lo hi)
    then show ?thesis
      using shape_size(5) [OF Between] fit fits_shape(6) [OF Between] by (intro between_runs [OF R Between fit] C) auto
  next
    case Bad
    then show ?thesis using fit fits_shape(1) by blast
  qed
qed

end
