(* ===== verification/ExprJump.thy ===== *)
theory ExprJump
  imports ExprRun
begin

text \<open>
  The code of \<^verbatim>\<open>__expr_if_true\<close> and \<^verbatim>\<open>__expr_if_false\<close> jumps on the truth of the expression, where an unknown
  truth jumps as the caller asks.
\<close>

section \<open>Running the code of a jump\<close>

text \<open>Whether a jump on the truth \<open>s\<close> is taken; a jump on an unknown value is as asked for.\<close>

definition taken :: "bool \<Rightarrow> bool \<Rightarrow> bool option \<Rightarrow> bool" where
  "taken s jin t = (case t of None \<Rightarrow> jin | Some b \<Rightarrow> b = s)"

definition decides :: "('f, 'r, 'l) world \<Rightarrow> ('f func_def, 'r, 'l) venv \<Rightarrow> expr \<Rightarrow> bool" where
  "decides K E e \<longleftrightarrow> (\<forall>s dest jin a stk v C. ev K e = Some v \<longrightarrow> C = jcode (wagg K) (wfns K) s e (int dest) jin a \<longrightarrow>
     placed (wvm K) a C \<longrightarrow> 0 < dest \<longrightarrow> dest \<le> nOp (wvm K) \<longrightarrow> length stk + length C \<le> nStack (wvm K) \<longrightarrow>
     reaches E (conf (wvm K) stk a) (conf (wvm K) stk (if taken s jin (truth (wF K) v) then dest else a + length C)))"

lemma decidesI:
  assumes "\<And>s dest jin a stk v C. ev K e = Some v \<Longrightarrow> C = jcode (wagg K) (wfns K) s e (int dest) jin a \<Longrightarrow>
     placed (wvm K) a C \<Longrightarrow> 0 < dest \<Longrightarrow> dest \<le> nOp (wvm K) \<Longrightarrow> length stk + length C \<le> nStack (wvm K) \<Longrightarrow>
     reaches E (conf (wvm K) stk a) (conf (wvm K) stk (if taken s jin (truth (wF K) v) then dest else a + length C))"
  shows "decides K E e"
  using assms by (simp add: decides_def)

lemma decidesD:
  assumes "decides K E e" and "ev K e = Some v" and "C = jcode (wagg K) (wfns K) s e (int dest) jin a"
    and "placed (wvm K) a C" and "0 < dest" and "dest \<le> nOp (wvm K)" and "length stk + length C \<le> nStack (wvm K)"
  shows "reaches E (conf (wvm K) stk a) (conf (wvm K) stk (if taken s jin (truth (wF K) v) then dest else a + length C))"
  using assms unfolding decides_def by blast

text \<open>The meaning of an expression by the shape of its jump.\<close>

lemma ev_Junct:
  assumes "jshape e = JJunct c x y" and "ev K e = Some v"
  obtains a b where "ev K x = Some a" "ev K y = Some b"
    "truth (wF K) v = (if c then kleene_and else kleene_or) (truth (wF K) a) (truth (wF K) b)"
proof (cases e)
  case (Expr op d l r es tok it ic ia sel)
  have *: "l = Some x" "r = Some y" "op = ''TK_AND'' \<and> c \<or> op = ''TK_OR'' \<and> \<not> c"
    using assms(1) by (auto simp: Expr jshape_def split: if_splits option.splits list.splits)
  show ?thesis
    using *(3) assms(2) that unfolding Expr *(1,2)
    by (elim disjE conjE) (auto simp: ev_bin bin_ops_def bind_eq_Some_conv bin_cell_def)
qed

lemma truth_not: "truth F (not_cell F (\<lambda>i. if i = 0 then 1 else 0) m) = kleene_not (truth F m)"
  by (auto simp: truth_def not_cell_def is_null_def entity_to_int_def)

lemma ev_Not:
  assumes "jshape e = JNot x" and "ev K e = Some v"
  obtains a where "ev K x = Some a" "truth (wF K) v = kleene_not (truth (wF K) a)"
proof (cases e)
  case (Expr op d l r es tok it ic ia sel)
  have *: "l = Some x" "op = ''TK_NOT''"
    using assms(1) by (auto simp: Expr jshape_def split: if_splits option.splits list.splits)
  show ?thesis using assms(2) that unfolding Expr * by (auto simp: ev_not truth_not)
qed

lemma taken_not: "taken s jin (kleene_not t) = taken (\<not> s) jin t"
  by (cases t) (auto simp: taken_def)

lemma tv_cases: obtains "(t :: bool option) = None" | "t = Some True" | "t = Some False"
  by (cases t) auto

text \<open>The two ways to take a conjunction or a disjunction apart.\<close>

lemma taken_skip: "taken s jin ((if s then kleene_and else kleene_or) x y) \<longleftrightarrow> \<not> taken (\<not> s) (\<not> jin) x \<and> taken s jin y"
  by (rule tv_cases [of x]; rule tv_cases [of y]; cases s; simp add: taken_def kleene_or_def)

lemma taken_both: "taken s jin ((if \<not> s then kleene_and else kleene_or) x y) \<longleftrightarrow> taken s jin x \<or> taken s jin y"
  by (rule tv_cases [of x]; rule tv_cases [of y]; cases s; simp add: taken_def kleene_or_def)

lemma junct_decides:
  assumes sh: "jshape e = JJunct c x y" and fit: "jfits (wagg K) (wfns K) x" "jfits (wagg K) (wfns K) y"
    and x: "decides K E x" and y: "decides K E y"
  shows "decides K E e"
proof (rule decidesI)
  fix s dest jin a and stk :: "'b mem list" and v C
  let ?s = "wvm K" and ?J = "jcode (wagg K) (wfns K)"
  assume v: "ev K e = Some v" and C: "C = ?J s e (int dest) jin a" and P: "placed ?s a C"
    and d: "0 < dest" "dest \<le> nOp ?s" and room: "length stk + length C \<le> nStack ?s"
  obtain va vb where ab: "ev K x = Some va" "ev K y = Some vb"
      and t: "truth (wF K) v = (if c then kleene_and else kleene_or) (truth (wF K) va) (truth (wF K) vb)"
    by (rule ev_Junct [OF sh v])
  let ?ta = "truth (wF K) va" and ?tb = "truth (wF K) vb"
  show "reaches E (conf ?s stk a) (conf ?s stk (if taken s jin (truth (wF K) v) then dest else a + length C))"
  proof (cases "c = s")
    case True
    define n where "n = length (?J (\<not> s) x 0 (\<not> jin) a)"
    define Y where "Y = ?J s y (int dest) jin (a + n)"
    define X where "X = ?J (\<not> s) x (int (a + n + length Y)) (\<not> jin) a"
    have c: "C = X @ Y" unfolding C X_def by (rule jcode_shape(1) [OF sh True n_def Y_def])
    have n: "length X = n" unfolding X_def n_def by (rule jcode_len [OF fit(1)])
    have Y0: "Y \<noteq> []" unfolding Y_def by (rule jcode_not_Nil [OF fit(2)])
    have p: "placed ?s a X" "placed ?s (a + n) Y" using P c n by auto
    have 1: "reaches E (conf ?s stk a) (conf ?s stk (if taken (\<not> s) (\<not> jin) ?ta then a + n + length Y else a + length X))"
      using p Y0 room c by (intro decidesD [OF x ab(1) X_def]) (auto simp: placed_def)
    have 2: "reaches E (conf ?s stk (a + n)) (conf ?s stk (if taken s jin ?tb then dest else a + n + length Y))"
      using p d room c by (intro decidesD [OF y ab(2) Y_def]) auto
    have "taken s jin (truth (wF K) v) \<longleftrightarrow> \<not> taken (\<not> s) (\<not> jin) ?ta \<and> taken s jin ?tb"
      unfolding t True by (rule taken_skip)
    then show ?thesis using 1 2 c n by (auto simp: add.assoc intro: reaches_trans split: if_splits)
  next
    case False
    define X where "X = ?J s x (int dest) jin a"
    define Y where "Y = ?J s y (int dest) jin (a + length X)"
    have c: "C = X @ Y" unfolding C Y_def by (rule jcode_shape(2) [OF sh False X_def])
    have p: "placed ?s a X" "placed ?s (a + length X) Y" using P c by auto
    have 1: "reaches E (conf ?s stk a) (conf ?s stk (if taken s jin ?ta then dest else a + length X))"
      using p d room c by (intro decidesD [OF x ab(1) X_def]) auto
    have 2: "reaches E (conf ?s stk (a + length X)) (conf ?s stk (if taken s jin ?tb then dest else a + length X + length Y))"
      using p d room c by (intro decidesD [OF y ab(2) Y_def]) auto
    have "taken s jin (truth (wF K) v) \<longleftrightarrow> taken s jin ?ta \<or> taken s jin ?tb"
      using taken_both [of s jin ?ta ?tb] False unfolding t by (cases c) auto
    then show ?thesis using 1 2 c by (auto simp: add.assoc intro: reaches_trans split: if_splits)
  qed
qed


subsection \<open>Comparisons, tests and values\<close>

text \<open>The code of a value followed by an instruction that pops it and jumps.\<close>

lemma value_then_jump:
  assumes R: "runs_in K E" and x: "computes K E x" "ev K x = Some va"
    and P: "placed (wvm K) a (code (wagg K) (wfns K) x a @ [i])" and d: "p2 i = int dest" "0 < dest" "dest \<le> nOp (wvm K)"
    and room: "length stk + length (code (wagg K) (wfns K) x a) \<le> nStack (wvm K)"
    and i: "\<And>n. exec_op E i (conf (wvm K) (va # stk) n) = ok (if t then jump i (conf (wvm K) stk n) else conf (wvm K) stk n)"
  shows "reaches E (conf (wvm K) stk a)
    (conf (wvm K) stk (if t then dest else a + length (code (wagg K) (wfns K) x a @ [i])))"
proof -
  let ?X = "code (wagg K) (wfns K) x a"
  have p: "placed (wvm K) a ?X" "placed (wvm K) (a + length ?X) [i]" using P by auto
  have "reaches E (conf (wvm K) (va # stk) (a + length ?X)) (conf (wvm K) stk (if t then dest else a + length ?X + 1))"
    by (rule step_cond [OF runs_calm [OF R] p(2) d i])
  moreover have "a + length ?X + 1 = a + length (?X @ [i])" by simp
  ultimately show ?thesis by (intro computesD [OF x p(1) room]) (simp only:)
qed

lemma ev_Cmp:
  assumes "jshape e = JCmp x y c f" and "ev K e = Some v"
  obtains op a b where "ev K x = Some a" "ev K y = Some b" "op \<in> set cmp_ops"
    "cmp_opcode (code_op op) (expr_type e) = Some c" "cmp_opcode (false_op op) (expr_type e) = Some f"
    "truth (wF K) v = cmp_truth (cmp_by (wF K) (expr_type e)) (rel_of op) a b"
proof (cases e)
  case (Expr op d l r es tok it ic ia sel)
  have *: "l = Some x" "r = Some y" "op \<in> set cmp_ops" "cmp_opcode (code_op op) (expr_type e) = Some c"
      "cmp_opcode (false_op op) (expr_type e) = Some f"
    using assms(1) by (auto simp: Expr jshape_def split: if_splits option.splits list.splits)
  obtain a b where "ev K x = Some a" "ev K y = Some b"
      "v = truth_cell (wF K) (cmp_truth (cmp_by (wF K) (expr_type e)) (rel_of op) a b)"
    using assms(2) *(1,2) unfolding Expr ev_cmp [OF *(3)] by (auto simp: bind_eq_Some_conv)
  then show ?thesis using that *(3-5) by simp
qed

lemma taken_cmp:
  "jumps jin (cmp_truth c R a b) = taken True jin (cmp_truth c R a b)"
  "jumps jin (cmp_truth c (\<lambda>i. \<not> R i) a b) = taken False jin (cmp_truth c R a b)"
  by (auto simp: jumps_def taken_def cmp_truth_def)

lemma cmp_decides:
  assumes R: "runs_in K E" and sh: "jshape e = JCmp x y c f" and fit: "fits (wagg K) (wfns K) x" "fits (wagg K) (wfns K) y"
  shows "decides K E e"
proof (rule decidesI)
  fix s dest jin a and stk :: "'b mem list" and v C
  let ?s = "wvm K"
  let ?X = "code (wagg K) (wfns K) x a"
  let ?Y = "code (wagg K) (wfns K) y (a + length ?X)"
  let ?i = "mk (if s then c else f) (bit1 jin) (int dest) :: 'a func_def vdbe_op"
  assume v: "ev K e = Some v" and Cd: "C = jcode (wagg K) (wfns K) s e (int dest) jin a" and P: "placed ?s a C"
    and d: "0 < dest" "dest \<le> nOp ?s" and room: "length stk + length C \<le> nStack ?s"
  have C: "C = ?X @ ?Y @ [?i]" unfolding Cd using sh by (simp add: jcode_leaf jleaf_shape(1))
  obtain op va vb where ab: "ev K x = Some va" "ev K y = Some vb" "op \<in> set cmp_ops"
      "cmp_opcode (code_op op) (expr_type e) = Some c" "cmp_opcode (false_op op) (expr_type e) = Some f"
      and t: "truth (wF K) v = cmp_truth (cmp_by (wF K) (expr_type e)) (rel_of op) va vb"
    by (rule ev_Cmp [OF sh v])
  let ?t = "taken s jin (truth (wF K) v)"
  note cj = compare_jump [of "int dest" E "cmp_by (fp E) (expr_type e)" _ _ jin ?s vb va stk]
  have i: "exec_op E ?i (conf ?s (vb # va # stk) n) = ok (if ?t then jump ?i (conf ?s stk n) else conf ?s stk n)" for n
  proof (cases s)
    case True
    have "exec_op E (mk c (bit1 jin) (int dest)) (conf ?s (vb # va # stk) n) =
        compare_op E (cmp_by (fp E) (expr_type e)) (code_op op) (mk c (bit1 jin) (int dest)) (conf ?s (vb # va # stk) n)"
      by (rule exec_compare [OF _ ab(4)]) (use cmp_codes [OF ab(3)] in blast)
    then show ?thesis using cj [of "code_op op" c n] d(1) True
      by (simp only: t cmp_tests(1) [OF ab(3)] taken_cmp(1) runs_env(2) [OF R] if_True)
  next
    case False
    have "exec_op E (mk f (bit1 jin) (int dest)) (conf ?s (vb # va # stk) n) =
        compare_op E (cmp_by (fp E) (expr_type e)) (false_op op) (mk f (bit1 jin) (int dest)) (conf ?s (vb # va # stk) n)"
      by (rule exec_compare [OF _ ab(5)]) (use cmp_codes [OF ab(3)] in blast)
    then show ?thesis using cj [of "false_op op" f n] d(1) False
      by (simp only: t cmp_tests(2) [OF ab(3)] taken_cmp(2) runs_env(2) [OF R] if_False)
  qed
  have x1: "1 \<le> length ?X" by (rule code_pos [OF fit(1)])
  have "reaches E (conf ?s (va # stk) (a + length ?X)) (conf ?s stk (if ?t then dest else a + length ?X + length (?Y @ [?i])))"
  proof -
    have p: "placed ?s (a + length ?X) ?Y" "placed ?s (a + length ?X + length ?Y) [?i]" using P C by (simp_all add: add.assoc)
    have "reaches E (conf ?s (vb # va # stk) (a + length ?X + length ?Y)) (conf ?s stk (if ?t then dest else a + length ?X + length ?Y + 1))"
      by (rule step_cond [OF runs_calm [OF R] p(2) _ d i]) simp
    moreover have "a + length ?X + length ?Y + 1 = a + length ?X + length (?Y @ [?i])" by simp
    moreover have py: "length (va # stk) + length ?Y \<le> nStack ?s" using room C x1 by simp
    ultimately show ?thesis
      by (intro computesD [OF fits_computes [OF R fit(2)] ab(2) p(1) py]) (simp only:)
  qed
  moreover have "a + length ?X + length (?Y @ [?i]) = a + length C" by (simp add: C)
  moreover have px: "placed ?s a ?X" "length stk + length ?X \<le> nStack ?s" using P room C by simp_all
  ultimately show "reaches E (conf ?s stk a) (conf ?s stk (if ?t then dest else a + length C))"
    by (intro computesD [OF fits_computes [OF R fit(1)] ab(1) px]) (simp only:)
qed

lemma null_decides:
  assumes R: "runs_in K E" and sh: "jshape e = JNull x c f" and fit: "fits (wagg K) (wfns K) x"
  shows "decides K E e"
proof (rule decidesI)
  fix s dest jin a and stk :: "'b mem list" and v C
  let ?s = "wvm K" and ?i = "mk (if s then c else f) 1 (int dest) :: 'a func_def vdbe_op"
  assume v: "ev K e = Some v" and Cd: "C = jcode (wagg K) (wfns K) s e (int dest) jin a" and P: "placed ?s a C"
    and d: "0 < dest" "dest \<le> nOp ?s" and room: "length stk + length C \<le> nStack ?s"
  have C: "C = code (wagg K) (wfns K) x a @ [?i]" unfolding Cd using sh by (simp add: jcode_leaf jleaf_shape(2))
  obtain m b where m: "ev K x = Some m" "truth (wF K) v = Some b"
      "c = OP_IsNull \<and> f = OP_NotNull \<and> b = is_null m \<or> c = OP_NotNull \<and> f = OP_IsNull \<and> b = (\<not> is_null m)"
  proof (cases e)
    case (Expr op d l r es tok it ic ia sel)
    have *: "l = Some x" "op = ''TK_ISNULL'' \<or> op = ''TK_NOTNULL''" "c = code_op op" "f = false_op op"
      using sh by (auto simp: Expr jshape_def split: if_splits option.splits list.splits)
    then show ?thesis using *(2) that v unfolding Expr *(1,3,4) by (elim disjE) (auto simp: ev_null code_op_def false_op_def)
  qed
  have "taken s jin (truth (wF K) v) = (b = s)" using m(2) by (simp add: taken_def)
  moreover have i: "exec_op E ?i (conf ?s (m # stk) n) = ok (if b = s then jump ?i (conf ?s stk n) else conf ?s stk n)" for n
    using m(3) exec_null_test [of "if s then c else f" "b = s" m E "int dest" ?s stk n] by (cases s) auto
  moreover have "reaches E (conf ?s stk a) (conf ?s stk (if b = s then dest else a + length C))"
    unfolding C by (rule value_then_jump [OF R fits_computes [OF R fit] m(1) P [unfolded C] _ d _ i]) (use room C in simp_all)
  ultimately show "reaches E (conf ?s stk a) (conf ?s stk (if taken s jin (truth (wF K) v) then dest else a + length C))"
    by (simp only:)
qed

lemma val_decides:
  assumes R: "runs_in K E" and sh: "jshape e = JVal" and fit: "fits (wagg K) (wfns K) e"
  shows "decides K E e"
proof (rule decidesI)
  fix s dest jin a and stk :: "'b mem list" and v C
  let ?s = "wvm K" and ?i = "mk (if s then OP_If else OP_IfNot) (bit1 jin) (int dest) :: 'a func_def vdbe_op"
  assume v: "ev K e = Some v" and Cd: "C = jcode (wagg K) (wfns K) s e (int dest) jin a" and P: "placed ?s a C"
    and d: "0 < dest" "dest \<le> nOp ?s" and room: "length stk + length C \<le> nStack ?s"
  have C: "C = code (wagg K) (wfns K) e a @ [?i]" unfolding Cd using sh by (simp add: jcode_leaf jleaf_shape(3))
  have "jumps jin (truth (wF K) v) = taken True jin (truth (wF K) v)" "jumps jin (kleene_not (truth (wF K) v)) = taken False jin (truth (wF K) v)"
    by (cases "truth (wF K) v"; simp add: jumps_def taken_def)+
  then have i: "exec_op E ?i (conf ?s (v # stk) n) = ok (if taken s jin (truth (wF K) v) then jump ?i (conf ?s stk n) else conf ?s stk n)" for n
    using exec_If [OF runs_env(1) [OF R]] R by (cases s) simp_all
  show "reaches E (conf ?s stk a) (conf ?s stk (if taken s jin (truth (wF K) v) then dest else a + length C))"
    unfolding C by (rule value_then_jump [OF R fits_computes [OF R fit] v P [unfolded C] _ d _ i]) (use room C in simp_all)
qed

subsection \<open>IN and BETWEEN\<close>

lemma exec_NotNull_keep:
  "exec_op E (mk OP_NotNull (-1) x) (conf s (a # stk) n) =
    ok (if \<not> is_null a then jump (mk OP_NotNull (-1) x) (conf s (a # stk) n) else conf s (a # stk) n)"
  by (simp add: run_op mk_def op_NotNull_def)

lemma set_member_conf [simp]: "set_member (conf s stk n) it k = set_member s it k"
  by (simp add: set_member_def)

lemma exec_SetFound:
  assumes "set_member s it (mz (entity_as_string (fp E) a)) = Some b"
  shows "exec_op E (mk (if \<sigma> then OP_SetFound else OP_SetNotFound) it x) (conf s (a # stk) n) =
    ok (if b = \<sigma> then jump (mk (if \<sigma> then OP_SetFound else OP_SetNotFound) it x) (conf s stk n) else conf s stk n)"
  using assms by (cases \<sigma>) (simp_all add: run_op mk_def op_SetFound_def op_SetNotFound_def)

lemma in_decides:
  assumes R: "runs_in K E" and sh: "jshape e = JIn x it" and fit: "fits (wagg K) (wfns K) x"
  shows "decides K E e"
proof (rule decidesI)
  fix s dest jin a and stk :: "'b mem list" and v C
  let ?s = "wvm K"
  define X where "X = code (wagg K) (wfns K) x a"
  define b where "b = a + length X"
  let ?f = "mk (if s then OP_SetFound else OP_SetNotFound) it (int dest) :: 'a func_def vdbe_op"
  let ?g = "if jin then dest else b + 4"
  assume v: "ev K e = Some v" and Cd: "C = jcode (wagg K) (wfns K) s e (int dest) jin a" and P: "placed ?s a C"
    and d: "0 < dest" "dest \<le> nOp ?s" and room: "length stk + length C \<le> nStack ?s"
  have "C = X @ [mk OP_NotNull (-1) (int b + 3), mk OP_Pop 1 0, mk OP_Goto 0 (if jin then int dest else int b + 4), ?f]"
    unfolding Cd b_def using sh jleaf_In [OF sh X_def refl] by (simp add: jcode_leaf)
  then have C: "C = X @ mk OP_NotNull (-1) (int (b + 3)) # mk OP_Pop 1 0 # mk OP_Goto 0 (int ?g) # [?f]"
    by (cases jin) simp_all
  have p: "placed ?s a X" "placed ?s b [mk OP_NotNull (-1) (int (b + 3))]" "placed ?s (b + 1) [mk OP_Pop 1 0]"
      "placed ?s (b + 2) [mk OP_Goto 0 (int ?g)]" "placed ?s (b + 3) [?f]"
    using P unfolding C placed_append placed_Cons [of _ _ _ "_ # _"] by (simp_all add: b_def add.assoc numeral_3_eq_3)
  have e: "a + length C = b + 4" by (simp add: C b_def)
  have le: "b + 4 \<le> nOp ?s" using p(5) by (simp add: placed_one)
  note cm = runs_calm [OF R]
  obtain m where m: "ev K x = Some m"
      and v': "(if is_null m then Some (null_mem (wF K))
        else do { b \<leftarrow> set_member ?s it (mz (entity_as_string (wF K) m)); Some (truth_cell (wF K) (Some b)) }) = Some v"
  proof (cases e)
    case (Expr op d l r es tok it' ic ia sel)
    have *: "l = Some x" "op = ''TK_IN''" "it' = it"
      using sh by (auto simp: Expr jshape_def split: if_splits option.splits list.splits)
    show ?thesis using that v unfolding Expr * by (auto simp: ev_in bind_eq_Some_conv)
  qed
  have 1: "reaches E (conf ?s stk a) (conf ?s (m # stk) b)"
    unfolding b_def X_def by (rule computesD [OF fits_computes [OF R fit] m _ _ reaches_refl]) (use p(1) room C in \<open>simp_all add: X_def\<close>)
  have 2: "reaches E (conf ?s (m # stk) b) (conf ?s (m # stk) (if \<not> is_null m then b + 3 else b + 1))"
    by (rule step_cond [OF cm p(2) _ _ _ exec_NotNull_keep]) (use le in simp_all)
  show "reaches E (conf ?s stk a) (conf ?s stk (if taken s jin (truth (wF K) v) then dest else a + length C))"
  proof (cases "is_null m")
    case True
    have 3: "reaches E (conf ?s (m # stk) (b + 1)) (conf ?s stk (b + 2))"
      using step_next [OF cm p(3) exec_Pop] by simp
    have 4: "reaches E (conf ?s stk (b + 2)) (conf ?s stk ?g)"
      using step_jump [OF cm p(4) _ _ exec_Goto [OF cm]] d le by (simp split: if_splits)
    have "v = null_mem (wF K)" using v' True by simp
    then have "truth (wF K) v = None" by (simp add: truth_def null_mem_def is_null_def)
    then have "(if taken s jin (truth (wF K) v) then dest else a + length C) = ?g" by (simp add: taken_def e)
    moreover have "reaches E (conf ?s (m # stk) b) (conf ?s (m # stk) (b + 1))" using 2 True by simp
    ultimately show ?thesis using 1 3 4 by (simp only:) (blast intro: reaches_trans)
  next
    case False
    then obtain t where t: "set_member ?s it (mz (entity_as_string (wF K) m)) = Some t" "v = truth_cell (wF K) (Some t)"
      using v' by (auto simp: bind_eq_Some_conv)
    have 3: "reaches E (conf ?s (m # stk) (b + 3)) (conf ?s stk (if t = s then dest else b + 3 + 1))"
      by (rule step_cond [OF cm p(5) _ d exec_SetFound]) (use t(1) R in simp_all)
    have "taken s jin (truth (wF K) v) = (t = s)" by (simp add: t(2) taken_def)
    moreover have "reaches E (conf ?s stk a) (conf ?s (m # stk) (b + 3))" using reaches_trans [OF 1 2] False by simp
    moreover have "b + 3 + 1 = a + length C" by (simp add: e)
    ultimately show ?thesis using reaches_trans [OF _ 3] by (simp only:)
  qed
qed

lemma lt_gt_test: "cmp_test OP_Lt = (\<lambda>c. \<not> 0 \<le> c)" "cmp_test OP_Gt = (\<lambda>c. \<not> c \<le> 0)"
  by (auto simp: cmp_test_def)

text \<open>The tests of BETWEEN decide the conjunction of its two comparisons.\<close>

lemma taken_between:
  "taken True jin (kleene_and x y) \<longleftrightarrow> \<not> taken False (\<not> jin) x \<and> taken True jin y"
  "taken False jin (kleene_and x y) \<longleftrightarrow> \<not> taken True (\<not> jin) x \<or> taken False jin y"
  by (rule tv_cases [of x]; rule tv_cases [of y]; simp add: taken_def)+


lemma step_compare:
  assumes R: "runs_in K E" and p: "placed (wvm K) n [mk c (bit1 jin) (int d)]" and c: "c \<in> {29..34}" and d: "0 < d" "d \<le> nOp (wvm K)"
  shows "reaches E (conf (wvm K) (b # a # stk) n)
    (conf (wvm K) stk (if jumps jin (cmp_truth (cmp_values (wF K)) (cmp_test c) a b) then d else n + 1))"
proof (rule step_cond [OF runs_calm [OF R] p _ d])
  show "exec_op E (mk c (bit1 jin) (int d)) (conf (wvm K) (b # a # stk) n) = ok (if jumps jin (cmp_truth (cmp_values (wF K)) (cmp_test c) a b)
      then jump (mk c (bit1 jin) (int d)) (conf (wvm K) stk n) else conf (wvm K) stk n)"
    using exec_cmp_jump [OF c, of "int d" E jin "wvm K" b a stk n] d R by simp
qed simp

lemma between_start:
  assumes R: "runs_in K E" and fit: "fits (wagg K) (wfns K) x" "fits (wagg K) (wfns K) lo"
    and ev: "ev K x = Some va" "ev K lo = Some vl"
    and XY: "X = code (wagg K) (wfns K) x a" "Y = code (wagg K) (wfns K) lo (a + length X + 1)"
    and P: "placed (wvm K) a (X @ mk OP_Dup 0 0 # Y)" and room: "length stk + length X + length Y + 1 \<le> nStack (wvm K)"
  shows "reaches E (conf (wvm K) stk a) (conf (wvm K) (vl # dup_cell 0 va # va # stk) (a + length X + 1 + length Y))"
proof -
  have p: "placed (wvm K) a X" "placed (wvm K) (a + length X) [mk OP_Dup 0 0]" "placed (wvm K) (a + length X + 1) Y"
    using P unfolding placed_append placed_Cons [of _ _ _ Y] by simp_all
  have lx: "1 \<le> length X" "1 \<le> length Y" unfolding XY by (rule code_pos [OF fit(1)], rule code_pos [OF fit(2)])
  have 1: "reaches E (conf (wvm K) stk a) (conf (wvm K) (va # stk) (a + length X))"
    unfolding XY(1) by (rule computesD [OF fits_computes [OF R fit(1)] ev(1) _ _ reaches_refl]) (use p(1) room in \<open>simp_all add: XY(1)\<close>)
  have 2: "reaches E (conf (wvm K) (va # stk) (a + length X)) (conf (wvm K) (dup_cell 0 va # va # stk) (a + length X + 1))"
    by (rule step_next [OF runs_calm [OF R] p(2)]) (use exec_Dup [of 0 "va # stk" "wvm K" E 0] room lx in simp)
  have 3: "reaches E (conf (wvm K) (dup_cell 0 va # va # stk) (a + length X + 1))
      (conf (wvm K) (vl # dup_cell 0 va # va # stk) (a + length X + 1 + length Y))"
    unfolding XY(2) by (rule computesD [OF fits_computes [OF R fit(2)] ev(2) _ _ reaches_refl]) (use p(3) room lx in \<open>simp_all add: XY(2)\<close>)
  show ?thesis by (rule reaches_trans [OF reaches_trans [OF 1 2] 3])
qed

lemma ev_Between:
  assumes "jshape e = JBetween x lo hi" and "ev K e = Some v"
  obtains a l h where "ev K x = Some a" "ev K lo = Some l" "ev K hi = Some h"
    "truth (wF K) v = kleene_and (cmp_truth (cmp_values (wF K)) (\<lambda>c. 0 \<le> c) a l) (cmp_truth (cmp_values (wF K)) (\<lambda>c. c \<le> 0) a h)"
proof (cases e)
  case (Expr op d l r es tok it ic ia sel)
  obtain ys where *: "l = Some x" "op = ''TK_BETWEEN''" "es = Some (lo # hi # ys)"
    using assms(1) by (auto simp: Expr jshape_def split: if_splits option.splits list.splits)
  show ?thesis using assms(2) that unfolding Expr * by (auto simp: ev_between bind_eq_Some_conv)
qed

text \<open>The code that jumps when the value is between the bounds.\<close>

lemma between_true:
  assumes R: "runs_in K E" and fit: "fits (wagg K) (wfns K) x" "fits (wagg K) (wfns K) lo" "fits (wagg K) (wfns K) hi"
    and ev: "ev K x = Some va" "ev K lo = Some vl" "ev K hi = Some vh"
    and XY: "X = code (wagg K) (wfns K) x a" "Y = code (wagg K) (wfns K) lo (a + length X + 1)" "b = a + length X + 1 + length Y"
      "Z = code (wagg K) (wfns K) hi (b + 1)"
    and C: "C = X @ mk OP_Dup 0 0 # Y @ mk OP_Lt (bit1 (\<not> jin)) (int (b + 1 + length Z + 2)) # Z
      @ [mk OP_Le (bit1 jin) (int dest), mk OP_Integer 0 0, mk OP_Pop 1 0]"
    and P: "placed (wvm K) a C" and d: "0 < dest" "dest \<le> nOp (wvm K)" and room: "length stk + length C \<le> nStack (wvm K)"
  shows "reaches E (conf (wvm K) stk a) (conf (wvm K) stk
    (if \<not> taken False (\<not> jin) (cmp_truth (cmp_values (wF K)) (\<lambda>c. 0 \<le> c) va vl)
        \<and> taken True jin (cmp_truth (cmp_values (wF K)) (\<lambda>c. c \<le> 0) va vh) then dest else a + length C))"
proof -
  let ?s = "wvm K" and ?t1 = "cmp_truth (cmp_values (wF K)) (\<lambda>c. 0 \<le> c) va vl" and ?t2 = "cmp_truth (cmp_values (wF K)) (\<lambda>c. c \<le> 0) va vh"
  let ?n = "b + 1 + length Z"
  have c: "C = (X @ mk OP_Dup 0 0 # Y) @ [mk OP_Lt (bit1 (\<not> jin)) (int (?n + 2))] @ Z
      @ [mk OP_Le (bit1 jin) (int dest)] @ [mk OP_Integer 0 0] @ [mk OP_Pop 1 0]" by (simp add: C)
  have e: "a + length C = ?n + 3" by (simp add: C XY(3))
  have p: "placed ?s a (X @ mk OP_Dup 0 0 # Y)" "placed ?s b [mk OP_Lt (bit1 (\<not> jin)) (int (?n + 2))]" "placed ?s (b + 1) Z"
      "placed ?s ?n [mk OP_Le (bit1 jin) (int dest)]" "placed ?s (?n + 1) [mk OP_Integer 0 0]" "placed ?s (?n + 2) [mk OP_Pop 1 0]"
    using P unfolding c placed_append XY(3) by (simp_all add: add.assoc add.commute add.left_commute)
  have le: "?n + 2 \<le> nOp ?s" using p(6) by (simp add: placed_one)
  note cm = runs_calm [OF R]
  have 1: "reaches E (conf ?s stk a) (conf ?s (vl # dup_cell 0 va # va # stk) b)"
    unfolding XY(3) by (rule between_start [OF R fit(1,2) ev(1,2) XY(1,2) p(1)]) (use room C in simp)
  have 2: "reaches E (conf ?s (vl # dup_cell 0 va # va # stk) b)
      (conf ?s (va # stk) (if taken False (\<not> jin) ?t1 then ?n + 2 else b + 1))"
    using step_compare [OF R p(2), of vl "dup_cell 0 va" "va # stk"] le by (simp only: lt_gt_test dup_cmp taken_cmp(2)) simp
  have 3: "reaches E (conf ?s (va # stk) (b + 1)) (conf ?s (vh # va # stk) ?n)"
    unfolding XY(4) by (rule computesD [OF fits_computes [OF R fit(3)] ev(3) _ _ reaches_refl]) (use p(3) room C in \<open>simp_all add: XY(4)\<close>)
  have 4: "reaches E (conf ?s (vh # va # stk) ?n) (conf ?s stk (if taken True jin ?t2 then dest else ?n + 1))"
    using step_compare [OF R p(4), of vh va stk] d by (simp only: ge_le_test taken_cmp(1)) simp
  have 5: "reaches E (conf ?s stk (?n + 1)) (conf ?s (int_mem (wF K) 0 # stk) (?n + 2))"
    using step_next [OF cm p(5), of stk] exec_push(2) [of stk ?s E 0 0] R room C by simp
  have 6: "reaches E (conf ?s (w # stk) (?n + 2)) (conf ?s stk (a + length C))" for w
    using step_next [OF cm p(6) exec_Pop] by (simp add: e eval_nat_numeral)
  show ?thesis
  proof (cases "taken False (\<not> jin) ?t1")
    case True
    then have "reaches E (conf ?s stk a) (conf ?s (va # stk) (?n + 2))" using reaches_trans [OF 1 2] by simp
    then show ?thesis using 6 True by (simp add: reaches_trans [OF _ 6])
  next
    case False
    then have "reaches E (conf ?s stk a) (conf ?s (va # stk) (b + 1))" using reaches_trans [OF 1 2] by simp
    from reaches_trans [OF reaches_trans [OF this 3] 4] show ?thesis
      using False reaches_trans [OF _ reaches_trans [OF 5 6]] by (cases "taken True jin ?t2") simp_all
  qed
qed

text \<open>The code that jumps when the value is not between the bounds.\<close>

lemma between_false:
  assumes R: "runs_in K E" and fit: "fits (wagg K) (wfns K) x" "fits (wagg K) (wfns K) lo" "fits (wagg K) (wfns K) hi"
    and ev: "ev K x = Some va" "ev K lo = Some vl" "ev K hi = Some vh"
    and XY: "X = code (wagg K) (wfns K) x a" "Y = code (wagg K) (wfns K) lo (a + length X + 1)" "b = a + length X + 1 + length Y"
      "Z = code (wagg K) (wfns K) hi (b + 3)"
    and C: "C = X @ mk OP_Dup 0 0 # Y @ mk OP_Ge (bit1 (\<not> jin)) (int (b + 3)) # mk OP_Pop 1 0 # mk OP_Goto 0 (int dest)
      # Z @ [mk OP_Gt (bit1 jin) (int dest)]"
    and P: "placed (wvm K) a C" and d: "0 < dest" "dest \<le> nOp (wvm K)" and room: "length stk + length C \<le> nStack (wvm K)"
  shows "reaches E (conf (wvm K) stk a) (conf (wvm K) stk
    (if \<not> taken True (\<not> jin) (cmp_truth (cmp_values (wF K)) (\<lambda>c. 0 \<le> c) va vl)
        \<or> taken False jin (cmp_truth (cmp_values (wF K)) (\<lambda>c. c \<le> 0) va vh) then dest else a + length C))"
proof -
  let ?s = "wvm K" and ?t1 = "cmp_truth (cmp_values (wF K)) (\<lambda>c. 0 \<le> c) va vl" and ?t2 = "cmp_truth (cmp_values (wF K)) (\<lambda>c. c \<le> 0) va vh"
  let ?n = "b + 3 + length Z"
  have c: "C = (X @ mk OP_Dup 0 0 # Y) @ [mk OP_Ge (bit1 (\<not> jin)) (int (b + 3))] @ [mk OP_Pop 1 0] @ [mk OP_Goto 0 (int dest)]
      @ Z @ [mk OP_Gt (bit1 jin) (int dest)]" by (simp add: C)
  have e: "a + length C = ?n + 1" by (simp add: C XY(3))
  have p: "placed ?s a (X @ mk OP_Dup 0 0 # Y)" "placed ?s b [mk OP_Ge (bit1 (\<not> jin)) (int (b + 3))]" "placed ?s (b + 1) [mk OP_Pop 1 0]"
      "placed ?s (b + 2) [mk OP_Goto 0 (int dest)]" "placed ?s (b + 3) Z" "placed ?s ?n [mk OP_Gt (bit1 jin) (int dest)]"
    using P unfolding c placed_append XY(3) by (simp_all add: add.assoc add.commute add.left_commute eval_nat_numeral)
  have le: "b + 3 \<le> nOp ?s" using p(6) by (simp add: placed_one)
  note cm = runs_calm [OF R]
  have 1: "reaches E (conf ?s stk a) (conf ?s (vl # dup_cell 0 va # va # stk) b)"
    unfolding XY(3) by (rule between_start [OF R fit(1,2) ev(1,2) XY(1,2) p(1)]) (use room C in simp)
  have 2: "reaches E (conf ?s (vl # dup_cell 0 va # va # stk) b)
      (conf ?s (va # stk) (if taken True (\<not> jin) ?t1 then b + 3 else b + 1))"
    using step_compare [OF R p(2), of vl "dup_cell 0 va" "va # stk"] le by (simp only: ge_le_test dup_cmp taken_cmp(1)) simp
  have 3: "reaches E (conf ?s (va # stk) (b + 1)) (conf ?s stk dest)"
    using reaches_trans [OF step_next [OF cm p(3) exec_Pop]] step_jump [OF cm p(4) _ _ exec_Goto [OF cm]] d
    by (simp add: add_2_eq_Suc')
  have 4: "reaches E (conf ?s (va # stk) (b + 3)) (conf ?s (vh # va # stk) ?n)"
    unfolding XY(4) by (rule computesD [OF fits_computes [OF R fit(3)] ev(3) _ _ reaches_refl]) (use p(5) room C in \<open>simp_all add: XY(4)\<close>)
  have 5: "reaches E (conf ?s (vh # va # stk) ?n) (conf ?s stk (if taken False jin ?t2 then dest else a + length C))"
    using step_compare [OF R p(6), of vh va stk] d unfolding e by (simp only: lt_gt_test taken_cmp(2)) simp
  show ?thesis
  proof (cases "taken True (\<not> jin) ?t1")
    case True
    then have "reaches E (conf ?s stk a) (conf ?s (va # stk) (b + 3))" using reaches_trans [OF 1 2] by simp
    from reaches_trans [OF reaches_trans [OF this 4] 5] show ?thesis using True by simp
  next
    case False
    then have "reaches E (conf ?s stk a) (conf ?s (va # stk) (b + 1))" using reaches_trans [OF 1 2] by simp
    from reaches_trans [OF this 3] show ?thesis using False by simp
  qed
qed

lemma between_decides:
  assumes R: "runs_in K E" and sh: "jshape e = JBetween x lo hi"
    and fit: "fits (wagg K) (wfns K) x" "fits (wagg K) (wfns K) lo" "fits (wagg K) (wfns K) hi"
  shows "decides K E e"
proof (rule decidesI)
  fix s dest jin a and stk :: "'b mem list" and v C
  define X where "X = code (wagg K) (wfns K) x a"
  define Y where "Y = code (wagg K) (wfns K) lo (a + length X + 1)"
  define b where "b = a + length X + 1 + length Y"
  assume v: "ev K e = Some v" and Cd: "C = jcode (wagg K) (wfns K) s e (int dest) jin a" and P: "placed (wvm K) a C"
    and d: "0 < dest" "dest \<le> nOp (wvm K)" and room: "length stk + length C \<le> nStack (wvm K)"
  have leaf: "C = jleaf (wagg K) (wfns K) s e (int dest) jin a" unfolding Cd using sh by (simp add: jcode_leaf)
  obtain va vl vh where ev: "ev K x = Some va" "ev K lo = Some vl" "ev K hi = Some vh"
      and t: "truth (wF K) v = kleene_and (cmp_truth (cmp_values (wF K)) (\<lambda>c. 0 \<le> c) va vl) (cmp_truth (cmp_values (wF K)) (\<lambda>c. c \<le> 0) va vh)"
    by (rule ev_Between [OF sh v])
  show "reaches E (conf (wvm K) stk a) (conf (wvm K) stk (if taken s jin (truth (wF K) v) then dest else a + length C))"
  proof (cases s)
    case True
    have C: "C = X @ mk OP_Dup 0 0 # Y @ mk OP_Lt (bit1 (\<not> jin)) (int (b + 1 + length (code (wagg K) (wfns K) hi (b + 1)) + 2))
        # code (wagg K) (wfns K) hi (b + 1) @ [mk OP_Le (bit1 jin) (int dest), mk OP_Integer 0 0, mk OP_Pop 1 0]"
      unfolding leaf by (rule jleaf_Between(1) [OF sh X_def Y_def b_def True refl])
    show ?thesis using between_true [OF R fit ev X_def Y_def b_def refl C P d room] True by (simp only: t taken_between)
  next
    case False
    have C: "C = X @ mk OP_Dup 0 0 # Y @ mk OP_Ge (bit1 (\<not> jin)) (int (b + 3)) # mk OP_Pop 1 0 # mk OP_Goto 0 (int dest)
        # code (wagg K) (wfns K) hi (b + 3) @ [mk OP_Gt (bit1 jin) (int dest)]"
      unfolding leaf jleaf_Between(2) [OF sh X_def Y_def b_def False] by simp
    show ?thesis using between_false [OF R fit ev X_def Y_def b_def refl C P d room] False by (simp only: t taken_between)
  qed
qed

lemma not_decides:
  assumes "jshape e = JNot x" and "decides K E x" shows "decides K E e"
proof (rule decidesI)
  fix s dest jin a and stk :: "'b mem list" and v C
  assume v: "ev K e = Some v" and C: "C = jcode (wagg K) (wfns K) s e (int dest) jin a" and P: "placed (wvm K) a C"
    and d: "0 < dest" "dest \<le> nOp (wvm K)" and room: "length stk + length C \<le> nStack (wvm K)"
  obtain w where w: "ev K x = Some w" "truth (wF K) v = kleene_not (truth (wF K) w)" by (rule ev_Not [OF assms(1) v])
  show "reaches E (conf (wvm K) stk a) (conf (wvm K) stk (if taken s jin (truth (wF K) v) then dest else a + length C))"
    using decidesD [OF assms(2) w(1) C [unfolded jcode_shape(3) [OF assms(1)]] P d room] by (simp only: w(2) taken_not)
qed

text \<open>Every jump that is generated decides the truth of its expression.\<close>

lemma fits_decides:
  assumes R: "runs_in K E" and "jfits (wagg K) (wfns K) e" shows "decides K E e"
  using assms(2)
proof (induction rule: jfits_induct)
  case (Junct e c x y)
  then show ?case by (rule junct_decides)
next
  case (Not e x)
  then show ?case by (rule not_decides)
next
  case (Leaf e)
  then have "case jshape e of JCmp x y c f \<Rightarrow> fits (wagg K) (wfns K) x \<and> fits (wagg K) (wfns K) y | JNull x c f \<Rightarrow> fits (wagg K) (wfns K) x
      | JIn x it \<Rightarrow> fits (wagg K) (wfns K) x
      | JBetween x lo hi \<Rightarrow> fits (wagg K) (wfns K) x \<and> fits (wagg K) (wfns K) lo \<and> fits (wagg K) (wfns K) hi
      | JVal \<Rightarrow> fits (wagg K) (wfns K) e | _ \<Rightarrow> False"
    by (cases "jshape e") (simp_all add: jfits.simps [of _ _ e])
  then show ?case
    using cmp_decides [OF R] null_decides [OF R] in_decides [OF R] between_decides [OF R] val_decides [OF R]
    by (cases "jshape e") auto
qed

end
