(* ===== verification/ExprProps.thy ===== *)
theory ExprProps
  imports ExprJump
begin

text \<open>
  Generating the code of an expression and running it, put together: \<^verbatim>\<open>__expr_code\<close> pushes the value,
  \<^verbatim>\<open>__expr_if_true\<close> and \<^verbatim>\<open>__expr_if_false\<close> jump on the truth, and what IN does as a value.
\<close>

section \<open>Generated code on the machine\<close>

text \<open>The instructions between two states of the builder.\<close>

definition emitted :: "'f cgen \<Rightarrow> 'f cgen \<Rightarrow> 'f func_def vdbe_op list" where
  "emitted p q = drop (nOp (gen_vm p)) (program (gen_vm q))"

lemma emitted_ext:
  assumes "ext p ops q" and "binv (gen_vm p)"
  shows "emitted p q = ops" "program (gen_vm q) = program (gen_vm p) @ emitted p q" "nOp (gen_vm q) = nOp (gen_vm p) + length ops"
proof -
  have "length (program (gen_vm p)) = nOp (gen_vm p)" using assms(2) prog_len by (auto simp: binv_def)
  then show "emitted p q = ops" using assms(1) by (simp add: emitted_def ext_def)
  then show "program (gen_vm q) = program (gen_vm p) @ emitted p q" using assms(1) by (simp add: ext_def)
  show "nOp (gen_vm q) = nOp (gen_vm p) + length ops" by (rule ext_keeps(2) [OF assms])
qed



definition test_num :: "cstring \<Rightarrow> expr" where
  "test_num z = Expr ''TK_INTEGER'' 0 None None None (Some z) 0 0 0 None"

definition test_lt :: expr where
  "test_lt = Expr ''TK_LT'' 0 (Some (test_num ''2'')) (Some (test_num ''10'')) None None 0 0 0 None"

definition test_fns :: "unit func_def list hash" where
  "test_fns = \<lparr>keyClass = HASH_STRING, copyKey = False, hcount = 0, hfirst = None, htsize = 0, ht = [], heap = Map.empty\<rparr>"

definition test_gen :: "unit cgen" where
  "test_gen = \<lparr>gen_vm = vdbe_create, gen_fns = test_fns, gen_nErr = 0, gen_msg = None, useAgg = False, aAgg = [], ignoreJump = None\<rparr>"

definition test_world :: "unit func_def vdbe_op list \<Rightarrow> (unit, rat, rat) world" where
  "test_world ops = \<lparr>wF = rat_fpu, wvm = (vdbe_new (d0\<lparr>dbmagic := STATUS_BUSY\<rparr>))\<lparr>nOp := length ops, aOp := ops, nStack := 10\<rparr>,
     wcol = (\<lambda>_ _. None), wfun = (\<lambda>_ _. null_mem rat_fpu), wagg = False, wfns = test_fns\<rparr>"

lemma test_world_simps [simp]:
  "wF (test_world ops) = rat_fpu" "nOp (wvm (test_world ops)) = length ops" "aOp (wvm (test_world ops)) = ops"
  "nStack (wvm (test_world ops)) = 10" "wagg (test_world ops) = False" "wfns (test_world ops) = test_fns"
  by (simp_all add: test_world_def)

lemma test_runs: "runs_in (test_world ops) (test_env :: (unit func_def, rat, rat) venv)"
  by (simp add: runs_in_def calm_def test_world_def test_env_def vdbe_new_def d0_def)

lemma test_gen_ok: "gen_ok False test_fns test_gen"
  by (simp add: gen_ok_def binv_def prog_wf_def program_def test_gen_def vdbe_create_def)

lemma test_num_ev: "ev K (test_num z) = Some (number_cell (wF K) ''TK_INTEGER'' z (str_unquote (cstr z)))"
  by (simp add: test_num_def ev_leaf leaf_ops_def leaf_value_def)

lemma test_num_fits: "fits U H (test_num z)"
  unfolding fits.simps [of U H "test_num z"] by (simp add: test_num_def shape_def leaf_ops_def leaf_shape_def)

lemma test_lt_type: "expr_type test_lt = Some SO_NUM"
  by (simp add: test_lt_def test_num_def expr_type.simps num_ops_def cmp_ops_def)

lemma test_lt_shape:
  "shape U H test_lt = Binary (test_num ''2'') (test_num ''10'') OP_Lt 0"
  "jshape test_lt = JCmp (test_num ''2'') (test_num ''10'') OP_Lt OP_Ge"
  using test_lt_type
  by (simp_all add: test_lt_def shape_def jshape_def leaf_ops_def cmp_ops_def two_def cmp_opcode_def SO_NUM_def SO_TEXT_def
      code_op_def false_op_def)

lemma test_lt_fits: "fits U H test_lt" "jfits U H test_lt"
  using test_lt_shape(1) [of U H] test_lt_shape(2) by (simp_all add: fits_shape(2) jfits.simps [of U H test_lt] test_num_fits)

abbreviation test_ops :: "'f func_def vdbe_op list" where
  "test_ops \<equiv> [mk_text OP_Integer 2 ''2'', mk_text OP_Integer 10 ''10'']"

lemma test_num_code: "code U H (test_num ''2'') a = [mk_text OP_Integer 2 ''2'']"
    "code U H (test_num ''10'') a = [mk_text OP_Integer 10 ''10'']"
proof -
  have sh: "shape U H (test_num z) = One (number_op ''TK_INTEGER'' z (str_unquote (cstr z)))" for z
    by (simp add: test_num_def shape_def leaf_ops_def leaf_shape_def)
  have n: "str_int_in32b ''2''" "sint (atoi ''2'') = 2" "str_unquote (cstr ''2'') = ''2''"
    "str_int_in32b ''10''" "sint (atoi ''10'') = 10" "str_unquote (cstr ''10'') = ''10''" by code_simp+
  show "code U H (test_num ''2'') a = [mk_text OP_Integer 2 ''2'']"
    "code U H (test_num ''10'') a = [mk_text OP_Integer 10 ''10'']" by (simp_all only: code_shape(1) [OF sh] number_op_def n simp_thms if_True)
qed

lemma test_lt_codes:
  "code U H test_lt a = test_ops @ [mk OP_Lt 0 0]"
  "jcode U H s test_lt d jin a = test_ops @ [mk (if s then OP_Lt else OP_Ge) (bit1 jin) d]"
  using test_lt_shape(2) by (simp_all add: code_shape(2) [OF test_lt_shape(1)] jcode_leaf jleaf_shape(1) test_num_code)

lemma test_lt_ev: "ev (test_world ops) test_lt = Some (truth_cell rat_fpu (Some True))"
proof -
  have "ev (test_world ops) test_lt = Some (truth_cell rat_fpu (cmp_truth (cmp_values rat_fpu) (rel_of ''TK_LT'')
      (number_cell rat_fpu ''TK_INTEGER'' ''2'' ''2'') (number_cell rat_fpu ''TK_INTEGER'' ''10'' ''10'')))"
    using test_lt_type by (simp add: test_lt_def ev_cmp cmp_ops_def test_num_ev cmp_by_def SO_NUM_def SO_TEXT_def str_unquote_def cstr_def)
  also have "cmp_truth (cmp_values rat_fpu) (rel_of ''TK_LT'')
      (number_cell rat_fpu ''TK_INTEGER'' ''2'' ''2'') (number_cell rat_fpu ''TK_INTEGER'' ''10'' ''10'') = Some True" by code_simp
  finally show ?thesis .
qed



lemma test_emitted:
  "expr_code test_lt test_gen = Some q \<Longrightarrow> emitted test_gen q = test_ops @ [mk OP_Lt 0 0] \<and> nOp (gen_vm q) = 3"
  "gen_if s test_lt 1 jin test_gen = Some q \<Longrightarrow>
    emitted test_gen q = test_ops @ [mk (if s then OP_Lt else OP_Ge) (bit1 jin) 1] \<and> nOp (gen_vm q) = 3"
proof -
  note b = gen_ok_binv [OF test_gen_ok]
  have n: "nOp (gen_vm test_gen) = 0" by (simp add: test_gen_def vdbe_create_def)
  show "expr_code test_lt test_gen = Some q \<Longrightarrow> emitted test_gen q = test_ops @ [mk OP_Lt 0 0] \<and> nOp (gen_vm q) = 3"
    using compilesD [OF fits_compiles [OF test_lt_fits(1)] test_gen_ok n] emitted_ext [OF _ b]
    by (auto simp: appends_def test_lt_codes n)
  have "ready False test_fns {} 0 test_gen" using test_gen_ok n by (simp add: ready_def)
  from jump_ext [OF test_lt_fits(2) this, of 1 s jin]
  show "gen_if s test_lt 1 jin test_gen = Some q \<Longrightarrow>
    emitted test_gen q = test_ops @ [mk (if s then OP_Lt else OP_Ge) (bit1 jin) 1] \<and> nOp (gen_vm q) = 3"
    using emitted_ext [OF _ b] by (auto simp: appends_def test_lt_codes n)
qed



section \<open>IN as a value\<close>

definition in_ops :: "'f func_def vdbe_op list \<Rightarrow> int \<Rightarrow> nat \<Rightarrow> 'f func_def vdbe_op list" where
  "in_ops X it b = [mk OP_Integer 1 0] @ X @ [mk OP_NotNull (-1) (int b + 4)] @ [mk OP_Pop 1 0] @ [mk OP_String 0 0]
     @ [mk OP_Goto 0 (int b + 6)] @ [mk OP_SetFound it (int b + 6)] @ [mk OP_AddImm (-1) 0]"

lemma in_value_ext:
  assumes "gen_ok U H p" and "fits U H x" and "X = code U H x (nOp (gen_vm p) + 1)"
  shows "appends (expr_code (Expr ''TK_IN'' d (Some x) r es tok it ic ia None) p) p (in_ops X it (nOp (gen_vm p) + 1 + length X))"
proof -
  have "expr_code (Expr ''TK_IN'' d (Some x) r es tok it ic ia None) p =
      do { p \<leftarrow> emit_op OP_Integer 1 0 p; p \<leftarrow> expr_code x p; in_tail False it p }"
    by (simp add: expr_code.simps leaf_code_def cmp_ops_def bin_ops_def)
  then show ?thesis
    unfolding in_ops_def append_Cons append_Nil assms(3) in_tail_def if_False
    apply (simp only:)
    apply (rule seq_emit [OF ready_gen_ok [OF assms(1)]], simp)
    apply (rule seq_code [OF _ fits_compiles [OF assms(2)]], assumption)
    apply (rule seq_here, assumption)
    apply (rule seq_emit, assumption, simp)+
    apply (rule last_emit, assumption, simp)
    done
qed

lemma in_value_runs:
  assumes R: "runs_in K E" and fit: "fits (wagg K) (wfns K) x" and m: "ev K x = Some m"
    and t: "\<not> is_null m \<Longrightarrow> set_member (wvm K) it (mz (entity_as_string (wF K) m)) = Some t"
    and C: "X = code (wagg K) (wfns K) x (a + 1)" "C = in_ops X it (a + 1 + length X)" and P: "placed (wvm K) a C"
    and room: "length stk + length C \<le> nStack (wvm K)"
  shows "reaches E (conf (wvm K) stk a) (conf (wvm K)
    (if is_null m then null_mem (wF K) # int_mem (wF K) 1 # stk else truth_cell (wF K) (Some t) # stk) (a + length C))"
proof -
  let ?s = "wvm K" and ?o = "int_mem (wF K) 1" and ?b = "a + 1 + length X"
  have p: "placed ?s a [mk OP_Integer 1 0]" "placed ?s (a + 1) X" "placed ?s ?b [mk OP_NotNull (-1) (int ?b + 4)]"
      "placed ?s (?b + 1) [mk OP_Pop 1 0]" "placed ?s (?b + 2) [mk OP_String 0 0]" "placed ?s (?b + 3) [mk OP_Goto 0 (int ?b + 6)]"
      "placed ?s (?b + 4) [mk OP_SetFound it (int ?b + 6)]" "placed ?s (?b + 5) [mk OP_AddImm (-1) 0]"
    using P unfolding C(2) in_ops_def placed_append by (simp_all add: add.assoc eval_nat_numeral)
  have e: "a + length C = ?b + 6" by (simp add: C(2) in_ops_def)
  have le: "?b + 6 \<le> nOp ?s" using p(8) by (simp add: placed_one)
  have rm: "length stk + 3 \<le> nStack ?s" using room by (simp add: C(2) in_ops_def)
  note cm = runs_calm [OF R]
  have 1: "reaches E (conf ?s stk a) (conf ?s (?o # stk) (a + 1))"
    using step_next [OF cm p(1) exec_push(2)] rm R by simp
  have 2: "reaches E (conf ?s (?o # stk) (a + 1)) (conf ?s (m # ?o # stk) ?b)"
    unfolding C(1) by (rule computesD [OF fits_computes [OF R fit] m _ _ reaches_refl]) (use p(2) room C in \<open>simp_all add: in_ops_def\<close>)
  have 3: "reaches E (conf ?s (m # ?o # stk) ?b) (conf ?s (m # ?o # stk) (if \<not> is_null m then ?b + 4 else ?b + 1))"
    by (rule step_cond [OF cm p(3) _ _ _ exec_NotNull_keep]) (use le in simp_all)
  note start = reaches_trans [OF reaches_trans [OF 1 2] 3]
  show ?thesis
  proof (cases "is_null m")
    case True
    have 4: "reaches E (conf ?s (m # ?o # stk) (?b + 1)) (conf ?s (?o # stk) (?b + 2))"
      using step_next [OF cm p(4) exec_Pop] by simp
    have 5: "reaches E (conf ?s (?o # stk) (?b + 2)) (conf ?s (null_mem (wF K) # ?o # stk) (?b + 3))"
      using step_next [OF cm p(5) exec_push(1)] rm R by (simp add: eval_nat_numeral)
    have 6: "reaches E (conf ?s (null_mem (wF K) # ?o # stk) (?b + 3)) (conf ?s (null_mem (wF K) # ?o # stk) (?b + 6))"
      using step_jump [OF cm p(6) _ _ exec_Goto [OF cm]] le by (simp add: nat_add_distrib)
    show ?thesis using reaches_trans [OF start] reaches_trans [OF reaches_trans [OF 4 5] 6] True by (simp add: e)
  next
    case False
    have 4: "reaches E (conf ?s (m # ?o # stk) (?b + 4)) (conf ?s (?o # stk) (if t = True then ?b + 6 else ?b + 4 + 1))"
      by (rule step_cond [OF cm p(7)]) (use le exec_SetFound [of ?s it E m t True] t [OF False] R in simp_all)
    have 5: "reaches E (conf ?s (?o # stk) (?b + 5)) (conf ?s (int_mem (wF K) 0 # stk) (?b + 6))"
      using step_next [OF cm p(8)] exec_AddImm [of E 0 ?s stk "?b + 5"] R by simp
    have "?b + 4 + 1 = ?b + 5" by simp
    then have "reaches E (conf ?s (m # ?o # stk) (?b + 4)) (conf ?s (truth_cell (wF K) (Some t) # stk) (?b + 6))"
      using 4 reaches_trans [OF _ 5] by (cases t) (simp_all only: truth_cell_def if_True if_False option.case simp_thms)
    with reaches_trans [OF start] False show ?thesis by (simp add: e)
  qed
qed

text \<open>C39: IN over a set, used as a value, pushes whether the left side is in the set; but when the left side is NULL
  the code pushes NULL and leaves the 1 it began with below it, one cell more than a value has.\<close>

theorem in_value_code:
  assumes "runs_in K E" and "gen_ok (wagg K) (wfns K) p" and "fits (wagg K) (wfns K) x" and "ev K x = Some m"
    and "\<not> is_null m \<Longrightarrow> set_member (wvm K) it (mz (entity_as_string (wF K) m)) = Some t"
  shows "\<exists>q. expr_code (Expr ''TK_IN'' d (Some x) r es tok it ic ia None) p = Some q
    \<and> (\<forall>stk. placed (wvm K) (nOp (gen_vm p)) (emitted p q) \<longrightarrow> length stk + length (emitted p q) \<le> nStack (wvm K) \<longrightarrow>
         reaches E (conf (wvm K) stk (nOp (gen_vm p)))
           (conf (wvm K) (if is_null m then null_mem (wF K) # int_mem (wF K) 1 # stk else truth_cell (wF K) (Some t) # stk)
             (nOp (gen_vm q))))"
proof -
  obtain q where q: "expr_code (Expr ''TK_IN'' d (Some x) r es tok it ic ia None) p = Some q"
      "ext p (in_ops (code (wagg K) (wfns K) x (nOp (gen_vm p) + 1)) it (nOp (gen_vm p) + 1 + length (code (wagg K) (wfns K) x (nOp (gen_vm p) + 1)))) q"
    using in_value_ext [OF assms(2,3) refl] unfolding appends_def by blast
  note em = emitted_ext [OF q(2) gen_ok_binv [OF assms(2)]]
  have "reaches E (conf (wvm K) stk (nOp (gen_vm p)))
      (conf (wvm K) (if is_null m then null_mem (wF K) # int_mem (wF K) 1 # stk else truth_cell (wF K) (Some t) # stk) (nOp (gen_vm q)))"
    if "placed (wvm K) (nOp (gen_vm p)) (emitted p q)" and "length stk + length (emitted p q) \<le> nStack (wvm K)" for stk
    unfolding em(3) by (rule in_value_runs [OF assms(1,3-5) refl refl]) (use that em(1) in simp_all)
  with q(1) show ?thesis by blast
qed

definition test_null :: expr where
  "test_null = Expr ''TK_NULL'' 0 None None None None 0 0 0 None"

lemma test_null_code: "shape U H test_null = One (mk OP_String 0 0)" "ev K test_null = Some (null_mem (wF K))"
  by (simp_all add: test_null_def shape_def leaf_ops_def leaf_shape_def ev_leaf leaf_value_def)

theorem in_value_code_witness:
  "\<exists>q. expr_code (Expr ''TK_IN'' 0 (Some test_null) None None None 0 0 0 None) test_gen = Some q
    \<and> reaches (test_env :: (unit func_def, rat, rat) venv)
        (conf (wvm (test_world (in_ops [mk OP_String 0 0] 0 2))) [] 0)
        (conf (wvm (test_world (in_ops [mk OP_String 0 0] 0 2))) [null_mem rat_fpu, int_mem rat_fpu 1] 8)"
proof -
  let ?e = "Expr ''TK_IN'' 0 (Some test_null) None None None 0 0 0 None"
  let ?C = "in_ops [mk OP_String 0 0] 0 2 :: unit func_def vdbe_op list"
  let ?K = "test_world ?C"
  have n: "nOp (gen_vm test_gen) = 0" by (simp add: test_gen_def vdbe_create_def)
  have fit: "fits U H test_null" for U and H :: "unit func_def list hash"
    by (simp add: fits.simps [of U H test_null] test_null_code)
  have nl: "is_null (null_mem rat_fpu)" by (simp add: null_mem_def is_null_def)
  from in_value_code [OF test_runs _ _ test_null_code(2), of ?C test_gen 0 False 0 None None None 0 0] test_gen_ok fit [of False test_fns] nl
  obtain q where q: "expr_code ?e test_gen = Some q" "\<And>stk. placed (wvm ?K) 0 (emitted test_gen q) \<Longrightarrow>
      length stk + length (emitted test_gen q) \<le> 10 \<Longrightarrow>
      reaches (test_env :: (unit func_def, rat, rat) venv) (conf (wvm ?K) stk 0)
        (conf (wvm ?K) (null_mem rat_fpu # int_mem rat_fpu 1 # stk) (nOp (gen_vm q)))"
    by (auto simp: n)
  have "emitted test_gen q = ?C \<and> nOp (gen_vm q) = length ?C"
    using in_value_ext [OF test_gen_ok fit refl, of 0 None None None 0 0 0] q(1) emitted_ext [OF _ gen_ok_binv [OF test_gen_ok]]
    by (auto simp: appends_def n code_shape(1) [OF test_null_code(1)] eval_nat_numeral)
  moreover have "placed (wvm ?K) 0 ?C" "length ?C = 8" by (simp_all add: placed_def in_ops_def)
  ultimately show ?thesis using q(1) q(2) [of "[]"] by auto
qed

end
