(* ===== verification/ExprTypes.thy ===== *)
theory ExprTypes
  imports ExprProps
begin

text \<open>
  What \<^verbatim>\<open>__expr_check\<close> guarantees: a tree without errors has a type and its code is generated.
\<close>

section \<open>Checked expressions\<close>

definition so :: "int option \<Rightarrow> bool" where
  "so t \<longleftrightarrow> t = Some SO_NUM \<or> t = Some SO_TEXT"

text \<open>A node the grammar builds and the resolution of names completes: its operator has the operands it works on, a
  column has a type and a sub-select a typed result.\<close>

definition node_ok :: "tk \<Rightarrow> int \<Rightarrow> expr option \<Rightarrow> expr option \<Rightarrow> expr list option \<Rightarrow> cstring option \<Rightarrow> expr list option \<Rightarrow> bool" where
  "node_ok op d l r es tok sel \<longleftrightarrow>
     (if op = ''TK_COLUMN'' then so (Some d)
      else if op \<in> {''TK_STRING'', ''TK_FLOAT'', ''TK_INTEGER'', ''TK_FUNCTION''} then tok \<noteq> None
      else if op = ''TK_SELECT'' then (case sel of Some (x # _) \<Rightarrow> so (expr_type x) | _ \<Rightarrow> False)
      else if op \<in> set cmp_ops \<or> op \<in> set bin_ops \<or> op \<in> {''TK_LSHIFT'', ''TK_RSHIFT'', ''TK_CONCAT''} then l \<noteq> None \<and> r \<noteq> None
      else if op \<in> {''TK_UMINUS'', ''TK_BITNOT'', ''TK_NOT'', ''TK_ISNULL'', ''TK_NOTNULL'', ''TK_UPLUS'', ''TK_AS''} then l \<noteq> None
      else if op = ''TK_BETWEEN'' then l \<noteq> None \<and> (case es of Some (lo # hi # _) \<Rightarrow> True | _ \<Rightarrow> False)
      else if op = ''TK_CASE'' then (case es of Some xs \<Rightarrow> even (length xs) \<and> xs \<noteq> [] | None \<Rightarrow> False)
      else op \<in> {''TK_NULL'', ''TK_VARIABLE'', ''TK_GLOB'', ''TK_LIKE''})"

fun formed :: "expr \<Rightarrow> bool" and opt_formed :: "expr option \<Rightarrow> bool" and all_formed :: "expr list \<Rightarrow> bool" where
  "formed (Expr op d l r es tok it ic ia sel) \<longleftrightarrow>
     node_ok op d l r es tok sel \<and> opt_formed l \<and> opt_formed r \<and> (case es of None \<Rightarrow> True | Some xs \<Rightarrow> all_formed xs)"
| "opt_formed None = True"
| "opt_formed (Some e) = formed e"
| "all_formed [] = True"
| "all_formed (x # xs) = (formed x \<and> all_formed xs)"

text \<open>No function has the type of its arguments.\<close>

definition plain_types :: "'f func_def list hash \<Rightarrow> bool" where
  "plain_types H \<longleftrightarrow> (\<forall>nm n f. find_no_create H nm n = Some (Some f) \<longrightarrow> fdataType f \<noteq> DBSQL_ARGS)"

definition sound :: "bool \<Rightarrow> 'f func_def list hash \<Rightarrow> expr \<Rightarrow> bool" where
  "sound allowed H e \<longleftrightarrow> so (expr_type e) \<and> (\<not> allowed \<longrightarrow> fits False H e)"

lemma sound_type: "sound allowed H e \<Longrightarrow> so (expr_type e)"
  by (simp add: sound_def)

lemma so_simps [simp]: "so (Some SO_NUM)" "so (Some SO_TEXT)" "\<not> so None"
  by (simp_all add: so_def)

lemma so_bind: "so t \<Longrightarrow> (\<And>n. t = Some n \<Longrightarrow> so (Some n) \<Longrightarrow> P (g n)) \<Longrightarrow> P (t \<bind> g)"
  by (auto simp: so_def)

lemma any_numeric_defined: "(\<And>x. x \<in> set xs \<Longrightarrow> so (expr_type x)) \<Longrightarrow> \<exists>b. any_numeric xs = Some b"
proof (induction xs rule: induct_list012)
  case (3 w t xs)
  have "so (expr_type t)" using 3 by simp
  moreover have "\<exists>b. any_numeric xs = Some b" using 3 by simp
  ultimately show ?case by (auto simp: so_def)
qed (auto intro: exI [of _ False])

definition kids :: "expr option \<Rightarrow> expr option \<Rightarrow> expr list option \<Rightarrow> expr set" where
  "kids l r es = set_option l \<union> set_option r \<union> (case es of None \<Rightarrow> {} | Some xs \<Rightarrow> set xs)"

lemma kids_type:
  assumes ok: "node_ok op d l r es tok sel" and k: "\<And>x. x \<in> kids l r es \<Longrightarrow> so (expr_type x)"
    and f: "op = ''TK_FUNCTION'' \<Longrightarrow> so (Some d)"
  shows "so (expr_type (Expr op d l r es tok it ic ia sel))"
proof -
  have l: "so (opt_type l)" and r: "so (opt_type r)" using k by (cases l; cases r; simp add: kids_def)+
  consider "op \<in> set num_ops" | "op \<in> {''TK_STRING'', ''TK_NULL'', ''TK_CONCAT'', ''TK_VARIABLE''}" | "op \<in> set cmp_ops" | "op = ''TK_AS''"
    | "op \<in> {''TK_COLUMN'', ''TK_FUNCTION''}" | "op = ''TK_SELECT''" | "op = ''TK_CASE''"
    using ok unfolding node_ok_def num_ops_def cmp_ops_def bin_ops_def list.set insert_iff empty_iff by argo
  then show ?thesis
  proof cases
    case 3
    then have "op \<notin> set num_ops" "op \<notin> {''TK_STRING'', ''TK_NULL'', ''TK_CONCAT'', ''TK_VARIABLE''}"
      unfolding cmp_ops_def num_ops_def list.set by (elim insertE emptyE; simp)+
    then show ?thesis using 3 l r by (auto simp: expr_type.simps so_def split: if_splits)
  next
    case 5
    then show ?thesis using ok f by (elim insertE emptyE) (simp_all add: expr_type.simps num_ops_def cmp_ops_def node_ok_def)
  next
    case 6
    then show ?thesis using ok
      by (simp add: expr_type.simps num_ops_def cmp_ops_def node_ok_def split: option.splits list.splits)
  next
    case 7
    obtain xs where xs: "es = Some xs" using ok 7 by (auto simp: node_ok_def cmp_ops_def bin_ops_def split: option.splits)
    obtain b where b: "any_numeric xs = Some b" using any_numeric_defined [of xs] k xs by (auto simp: kids_def)
    have "\<exists>t. (case r of None \<Rightarrow> Some False | Some e \<Rightarrow> do { t \<leftarrow> expr_type e; Some (t = SO_NUM) }) = Some t"
      using r by (cases r) (auto simp: so_def)
    then show ?thesis using 7 xs b by (auto simp: expr_type.simps num_ops_def cmp_ops_def)
  qed (use l in \<open>auto simp: expr_type.simps num_ops_def cmp_ops_def\<close>)
qed


lemma fits_literal: "fits U H e \<Longrightarrow> eop e \<in> {''TK_FLOAT'', ''TK_INTEGER''} \<Longrightarrow> etoken e \<noteq> None"
  using fits_shape(1) [of U H e] by (cases e) (auto simp: shape_def leaf_ops_def leaf_shape_def split: option.splits)

lemma so_cmp: "so t \<Longrightarrow> \<exists>c. cmp_opcode op t = Some c"
  by (auto simp: so_def cmp_opcode_def)

lemma kids_fit:
  assumes ok: "node_ok op d l r es tok sel" and k: "\<And>x. x \<in> kids l r es \<Longrightarrow> fits False H x"
    and t: "so (expr_type (Expr op d l r es tok it ic ia sel))"
    and f: "op \<in> {''TK_GLOB'', ''TK_LIKE'', ''TK_FUNCTION''} \<Longrightarrow> callee H op tok (nExpr es) \<noteq> None"
  shows "fits False H (Expr op d l r es tok it ic ia sel)"
proof -
  let ?e = "Expr op d l r es tok it ic ia sel"
  consider (leaf) "op \<in> {''TK_COLUMN'', ''TK_STRING'', ''TK_FLOAT'', ''TK_INTEGER'', ''TK_NULL'', ''TK_VARIABLE'', ''TK_SELECT''}"
    | (two) "op \<in> set cmp_ops \<or> op \<in> set bin_ops \<or> op \<in> {''TK_LSHIFT'', ''TK_RSHIFT'', ''TK_CONCAT''}" "l \<noteq> None" "r \<noteq> None"
    | (one) "op \<in> {''TK_UMINUS'', ''TK_BITNOT'', ''TK_NOT'', ''TK_ISNULL'', ''TK_NOTNULL'', ''TK_UPLUS'', ''TK_AS''}" "l \<noteq> None"
    | (call) "op \<in> {''TK_GLOB'', ''TK_LIKE'', ''TK_FUNCTION''}"
    | (btw) "op = ''TK_BETWEEN''" | (arms) "op = ''TK_CASE''"
    using ok unfolding node_ok_def cmp_ops_def bin_ops_def list.set insert_iff empty_iff by argo
  then show ?thesis
  proof cases
    case leaf
    then have "\<exists>i. shape False H ?e = One i"
      using ok by (elim insertE emptyE) (auto simp: shape_def leaf_ops_def leaf_shape_def node_ok_def)
    then show ?thesis by (auto simp: fits.simps [of False H ?e])
  next
    case two
    then obtain x y where xy: "l = Some x" "r = Some y" by auto
    obtain c where c: "cmp_opcode (code_op op) (expr_type ?e) = Some c" using so_cmp [OF t] by blast
    have "\<exists>x' y' c k. shape False H ?e = Binary x' y' c k \<and> {x', y'} = {x, y}"
      using two(1) c xy unfolding cmp_ops_def bin_ops_def list.set
      by (elim disjE insertE emptyE) (auto simp: shape_def leaf_ops_def cmp_ops_def bin_ops_def two_def)
    then obtain x' y' c k' where sh: "shape False H ?e = Binary x' y' c k'" and "{x', y'} = {x, y}" by blast
    then have "fits False H x'" "fits False H y'" using k xy by (auto simp: kids_def doubleton_eq_iff)
    then show ?thesis using fits_shape(2) [OF sh] by blast
  next
    case one
    then obtain x where x: "l = Some x" by auto
    have fx: "fits False H x" using k x by (simp add: kids_def)
    show ?thesis
      using one(1) fx fits_literal [OF fx] unfolding x
      by (elim insertE emptyE)
        (auto simp: fits.simps [of False H "Expr _ _ _ _ _ _ _ _ _ _"] shape_def leaf_ops_def cmp_ops_def bin_ops_def minus_shape_def)
  next
    case call
    then obtain g where "callee H op tok (nExpr es) = Some g" using f by auto
    then have "shape False H ?e = Call (case es of None \<Rightarrow> [] | Some xs \<Rightarrow> xs) g"
      using call by (elim insertE emptyE) (simp_all add: shape_def leaf_ops_def cmp_ops_def bin_ops_def)
    then show ?thesis using k by (cases es) (simp_all add: fits_shape(5) kids_def)
  next
    case btw
    then obtain x lo hi ys where "l = Some x" "es = Some (lo # hi # ys)"
      using ok by (auto simp: node_ok_def cmp_ops_def bin_ops_def split: option.splits list.splits)
    moreover from this have "shape False H ?e = Between x lo hi"
      using btw by (simp add: shape_def leaf_ops_def cmp_ops_def bin_ops_def)
    ultimately show ?thesis using k by (simp add: fits_shape(6) kids_def)
  next
    case arms
    then obtain xs where "es = Some xs" "even (length xs)" "xs \<noteq> []"
      using ok by (auto simp: node_ok_def cmp_ops_def bin_ops_def split: option.splits)
    moreover from this have "shape False H ?e = Choose l xs r"
      using arms by (simp add: shape_def leaf_ops_def cmp_ops_def bin_ops_def)
    ultimately show ?thesis using k by (auto simp: fits_shape(8) kids_def)
  qed
qed

lemma kids_sound:
  assumes "node_ok op d l r es tok sel" and "\<And>x. x \<in> kids l r es \<Longrightarrow> sound allowed H x"
    and "op \<notin> {''TK_GLOB'', ''TK_LIKE'', ''TK_FUNCTION''}"
  shows "sound allowed H (Expr op d l r es tok it ic ia sel)"
proof -
  have "so (expr_type (Expr op d l r es tok it ic ia sel))"
    using assms by (intro kids_type) (auto simp: sound_def)
  moreover from this have "\<not> allowed \<longrightarrow> fits False H (Expr op d l r es tok it ic ia sel)"
    using assms kids_fit [OF assms(1), of H it ic ia] unfolding sound_def by blast
  ultimately show ?thesis by (simp add: sound_def)
qed

lemma call_errors_ok:
  assumes "call_errors ci al nm p = (0, ag, q)"
  shows "q = p" "ag = ci_agg ci" "\<not> al \<Longrightarrow> \<not> ag" "\<not> ci_missing ci" "\<not> ci_args ci"
  using assms by (auto simp: call_errors_def split: if_splits)

text \<open>A call without a complaint has a function with so many arguments, or is \<^verbatim>\<open>typeof\<close> with one.\<close>

lemma look_up_ok:
  assumes "look_up_call H nm n = Some ci" and "\<not> ci_missing ci" and "\<not> ci_args ci"
  shows "(\<exists>f. ci_def ci = Some f \<and> find_no_create H nm (int n) = Some (Some f)) \<or> ci_def ci = None \<and> ci_typeof ci \<and> \<not> ci_agg ci \<and> n = 1"
  using assms by (auto simp: look_up_call_def Let_def bind_eq_Some_conv split: option.splits)

lemma list_check_zero: "list_check xs al n ag p = Some (0, ag', xs', p') \<Longrightarrow> n = 0"
  by (cases xs) (auto split: if_splits)

lemma call_type_plain:
  assumes "ci_def ci = Some f" and "fdataType f \<noteq> DBSQL_ARGS" and "call_type ci nm e p = Some (e', p')"
    and "xs = (case exprs e of None \<Rightarrow> [] | Some xs \<Rightarrow> xs)" and typed: "\<And>x. x \<in> set xs \<Longrightarrow> so (expr_type x)"
  obtains t where "e' = set_dataType t e" "p' = p" "so (Some t)"
proof (cases "0 \<le> fdataType f \<and> fdataType f < int (length xs)")
  case True
  then have ct: "do { t \<leftarrow> expr_type (xs ! nat (fdataType f)); Some (set_dataType t e, p) } = Some (e', p')"
    using assms(3) unfolding call_type_def Let_def assms(4) [symmetric] assms(1) option.case by (simp only: simp_thms if_True)
  moreover have "so (expr_type (xs ! nat (fdataType f)))" using True by (intro typed nth_mem) auto
  ultimately show ?thesis using that by (auto simp: bind_eq_Some_conv)
next
  case False
  then show ?thesis
    using assms(2,3) that [of SO_NUM] that [of SO_TEXT] unfolding call_type_def Let_def assms(4) [symmetric] assms(1) option.case
    by (auto split: if_splits)
qed

lemma call_sound:
  assumes name: "get_function_name (Expr op d l r es tok it ic ia sel) = Some nm" and op: "op \<in> {''TK_GLOB'', ''TK_LIKE'', ''TK_FUNCTION''}"
    and look: "look_up_call H nm (length xs) = Some ci" "\<not> ci_missing ci" "\<not> ci_args ci" "\<not> al \<longrightarrow> \<not> ci_agg ci"
    and es: "es = Some xs \<or> es = None \<and> xs = []" and xs: "\<forall>x \<in> set xs. sound (al \<and> \<not> ci_agg ci) H x"
    and plain: "plain_types H" "gen_fns p = H" and ok: "node_ok op d l r es0 tok sel"
    and ct: "call_type ci nm (Expr (if ci_agg ci then ''TK_AGG_FUNCTION'' else op) d l r es tok it ic ia sel) p = Some (e', p')"
  shows "p' = p \<and> sound al H e'"
proof -
  let ?op = "if ci_agg ci then ''TK_AGG_FUNCTION'' else op"
  have ne: "(case es of None \<Rightarrow> [] | Some xs \<Rightarrow> xs) = xs" "nExpr es = length xs" using es by (auto simp: nExpr_def)
  have typed: "so (expr_type x)" if "x \<in> set xs" for x using xs that by (auto simp: sound_def)
  consider f where "ci_def ci = Some f" "find_no_create H nm (int (length xs)) = Some (Some f)"
    | x where "ci_def ci = None" "ci_typeof ci" "\<not> ci_agg ci" "xs = [x]"
    using look_up_ok [OF look(1-3)] by (auto simp: length_Suc_conv)
  then show ?thesis
  proof cases
    case 1
    have nargs: "fdataType f \<noteq> DBSQL_ARGS" using plain(1) 1(2) by (auto simp: plain_types_def)
    have exs: "xs = (case exprs (Expr ?op d l r es tok it ic ia sel) of None \<Rightarrow> [] | Some xs \<Rightarrow> xs)" using ne(1) by simp
    obtain t where st: "e' = set_dataType t (Expr ?op d l r es tok it ic ia sel)" and t: "p' = p" "so (Some t)"
      by (rule call_type_plain [OF 1(1) nargs ct exs typed])
    have e: "e' = Expr ?op t l r es tok it ic ia sel" unfolding st set_dataType_def expr.case by (rule refl)
    have ty: "so (expr_type e')"
      using op t(2) unfolding e
      by (cases "ci_agg ci"; elim insertE emptyE; simp add: expr_type.simps num_ops_def cmp_ops_def)
    have "fits False H e'" if "\<not> al"
    proof -
      have na: "\<not> ci_agg ci" using look(4) that by simp
      have "get_function_name (Expr op 0 None None None tok 0 0 0 None) = Some nm" 
        using name unfolding get_function_name_def expr.sel .
      then have "callee H op tok (length xs) = Some f" using 1(2) by (simp add: callee_def)
      then have "shape False H e' = Call xs f"
        using op na unfolding e by (elim insertE emptyE) (simp_all add: shape_def leaf_ops_def cmp_ops_def bin_ops_def ne)
      then show ?thesis using xs that by (simp add: fits_shape(5) sound_def)
    qed
    then show ?thesis using ty t(1) by (simp add: sound_def)
  next
    case 2
    obtain z where z: "e' = Expr ''TK_STRING'' d l r es (Some z) it ic ia sel" "p' = p"
      using ct 2 by (auto simp: call_type_def Let_def ne bind_eq_Some_conv set_op_def set_token_def)
    have "shape False H e' = One (number_op ''TK_STRING'' z (str_unquote (cstr z)))"
      by (simp add: z(1) shape_def leaf_ops_def leaf_shape_def)
    then have "fits False H e'" by (simp add: fits.simps [of False H e'])
    moreover have "so (expr_type e')" by (simp add: z(1) expr_type.simps num_ops_def)
    ultimately show ?thesis using z(2) by (simp add: sound_def)
  qed
qed


text \<open>The check of a tree that finds no error.\<close>

lemma list_sound:
  fixes p :: "'f cgen"
  assumes "\<And>x al ag (p :: 'f cgen) ag' x' p'. x \<in> set xs \<Longrightarrow> plain_types (gen_fns p) \<Longrightarrow> expr_check x al ag p = Some (0, ag', x', p') \<Longrightarrow>
      p' = p \<and> sound al (gen_fns p) x'"
  shows "plain_types (gen_fns p) \<Longrightarrow> list_check xs al n ag p = Some (0, ag', xs', p') \<Longrightarrow>
    n = 0 \<and> p' = p \<and> length xs' = length xs \<and> (\<forall>x \<in> set xs'. sound al (gen_fns p) x)"
  using assms
proof (induction xs arbitrary: n ag p xs')
  case (Cons x xs)
  have n: "n = 0" using Cons.prems(2) by (cases "n = 0") auto
  obtain m ag1 x' p1 xs2 where c: "expr_check x al ag p = Some (m, ag1, x', p1)"
      "list_check xs al m ag1 p1 = Some (0, ag', xs2, p')" "xs' = x' # xs2"
    using Cons.prems(2) n by (auto simp: bind_eq_Some_conv)
  have "m = 0" by (rule list_check_zero [OF c(2)])
  then have x: "p1 = p" "sound al (gen_fns p) x'" using Cons.prems(3) [of x p al ag ag1 x' p1] Cons.prems(1) c(1) by simp_all
  have "plain_types (gen_fns p1)" using x(1) Cons.prems(1) by simp
  then have "m = 0 \<and> p' = p1 \<and> length xs2 = length xs \<and> (\<forall>x \<in> set xs2. sound al (gen_fns p1) x)"
    by (rule Cons.IH [OF _ c(2)]) (rule Cons.prems(3), auto)
  then show ?case using x n c(3) by simp
qed simp

lemma all_formed_set: "all_formed xs \<longleftrightarrow> (\<forall>x \<in> set xs. formed x)"
  by (induction xs) auto

lemma node_ok_same:
  "l = None \<longleftrightarrow> l' = None \<Longrightarrow> r = None \<longleftrightarrow> r' = None \<Longrightarrow>
    map_option length es = map_option length es' \<Longrightarrow> node_ok op d l r es tok sel = node_ok op d l' r' es' tok sel"
  by (auto simp: node_ok_def length_Suc_conv Suc_length_conv split: option.splits list.splits)


lemma opt_sound:
  assumes "\<And>x. o1 = Some x \<Longrightarrow> expr_check x al ag p = Some (0, ag', the o2, p') \<Longrightarrow> p' = p \<and> sound al (gen_fns p) (the o2)"
    and "opt_check o1 al ag p = Some (0, ag', o2, p')"
  shows "p' = p \<and> (o1 = None \<longleftrightarrow> o2 = None) \<and> (\<forall>x \<in> set_option o2. sound al (gen_fns p) x)"
  using assms by (cases o1) (auto simp: bind_eq_Some_conv)

lemma check_call:
  assumes op: "op \<in> {''TK_GLOB'', ''TK_LIKE'', ''TK_FUNCTION''}"
    and c: "expr_check (Expr op d l r es tok it ic ia sel) al ag p = Some (0, ag', e', p')"
  obtains nm ci es' p1 where "get_function_name (Expr op d l r es tok it ic ia sel) = Some nm"
    "look_up_call (gen_fns p) nm (nExpr es) = Some ci" "\<not> ci_missing ci" "\<not> ci_args ci" "\<not> al \<longrightarrow> \<not> ci_agg ci"
    "es = None \<and> es' = None \<and> p1 = p \<or> (\<exists>xs xs'. es = Some xs \<and> es' = Some xs' \<and> list_check xs (al \<and> \<not> ci_agg ci) 0 (ag \<or> ci_agg ci) p = Some (0, ag', xs', p1))"
    "call_type ci nm (Expr (if ci_agg ci then ''TK_AGG_FUNCTION'' else op) d l r es' tok it ic ia sel) p1 = Some (e', p')"
proof -
  obtain nm ci where nm: "get_function_name (Expr op d l r es tok it ic ia sel) = Some nm" "look_up_call (gen_fns p) nm (nExpr es) = Some ci"
    using c op by (auto simp: bind_eq_Some_conv)
  obtain n ia' q where ce: "call_errors ci al nm p = (n, ia', q)" by (cases "call_errors ci al nm p") auto
  let ?op = "if ia' then ''TK_AGG_FUNCTION'' else op"
  obtain es' p1 where r: "es = None \<and> es' = None \<and> p1 = q \<and> n = 0 \<or>
        (\<exists>xs xs'. es = Some xs \<and> es' = Some xs' \<and> list_check xs (al \<and> \<not> ia') n (ag \<or> ia') q = Some (0, ag', xs', p1))"
      "call_type ci nm (Expr ?op d l r es' tok it ic ia sel) p1 = Some (e', p')"
    using c nm ce unfolding expr_check.simps if_P [OF op] by (cases es) (auto simp: bind_eq_Some_conv)
  have n: "n = 0" using r(1) list_check_zero by blast
  note k = call_errors_ok [OF ce [unfolded n]]
  show ?thesis using that [OF nm k(4,5)] k(3) r unfolding n k(1,2) by blast
qed

lemma check_sound:
  "formed e \<Longrightarrow> plain_types (gen_fns p) \<Longrightarrow> expr_check e al ag p = Some (0, ag', e', p') \<Longrightarrow>
    p' = p \<and> sound al (gen_fns p) e'"
proof (induction "size e" arbitrary: e al ag p ag' e' p' rule: less_induct)
  case less
  obtain op d l r es tok it ic ia sel where e: "e = Expr op d l r es tok it ic ia sel" by (cases e)
  have ok: "node_ok op d l r es tok sel" and kf: "opt_formed l" "opt_formed r" "\<And>xs. es = Some xs \<Longrightarrow> all_formed xs"
    using less.prems(1) by (auto simp: e)
  have L: "n = 0 \<and> q' = q \<and> length xs' = length xs \<and> (\<forall>x \<in> set xs'. sound al (gen_fns q) x)"
    if "es = Some xs" "q = p" "list_check xs al n ag q = Some (0, ag', xs', q')" for xs al n ag q ag' xs' and q' :: "'a cgen"
  proof (rule list_sound [OF _ _ that(3)])
    fix x al ag ag' x' and p1 p2 :: "'a cgen"
    assume "x \<in> set xs" "plain_types (gen_fns p1)" "expr_check x al ag p1 = Some (0, ag', x', p2)"
    moreover from this have "size x < size e" using size_mem [of x xs] by (simp add: e that(1))
    ultimately show "p2 = p1 \<and> sound al (gen_fns p1) x'"
      using less.hyps [of x p1 al ag ag' x' p2] kf(3) [OF that(1)] by (simp add: all_formed_set)
  qed (use that less.prems in simp)
  have O: "q' = q \<and> (o1 = None \<longleftrightarrow> o2 = None) \<and> (\<forall>x \<in> set_option o2. sound al (gen_fns q) x)"
    if "o1 = l \<or> o1 = r" "q = p" "opt_check o1 al ag q = Some (0, ag', o2, q')" for o1 o2 ag ag' q and q' :: "'a cgen"
  proof (rule opt_sound [OF _ that(3)])
    fix x assume "o1 = Some x" "expr_check x al ag q = Some (0, ag', the o2, q')"
    moreover from this have "size x < size e" "formed x" using that(1) kf(1,2) by (auto simp: e)
    ultimately show "q' = q \<and> sound al (gen_fns q) (the o2)"
      using less.hyps [of x q al ag ag' "the o2" q'] that(2) less.prems(2) by simp
  qed
  show ?case
  proof (cases "op \<in> {''TK_GLOB'', ''TK_LIKE'', ''TK_FUNCTION''}")
    case True
    obtain nm ci es' p1 where c: "get_function_name (Expr op d l r es tok it ic ia sel) = Some nm"
        "look_up_call (gen_fns p) nm (nExpr es) = Some ci" "\<not> ci_missing ci" "\<not> ci_args ci" "\<not> al \<longrightarrow> \<not> ci_agg ci"
        "es = None \<and> es' = None \<and> p1 = p \<or> (\<exists>xs xs'. es = Some xs \<and> es' = Some xs' \<and> list_check xs (al \<and> \<not> ci_agg ci) 0 (ag \<or> ci_agg ci) p = Some (0, ag', xs', p1))"
        "call_type ci nm (Expr (if ci_agg ci then ''TK_AGG_FUNCTION'' else op) d l r es' tok it ic ia sel) p1 = Some (e', p')"
      by (rule check_call [OF True less.prems(3) [unfolded e]])
    obtain xs' where x: "es' = Some xs' \<or> es' = None \<and> xs' = []" "nExpr es = length xs'" "p1 = p"
        "\<forall>x \<in> set xs'. sound (al \<and> \<not> ci_agg ci) (gen_fns p) x"
    proof (cases es)
      case None
      then show thesis using c(6) that [of "[]"] by (simp add: nExpr_def)
    next
      case (Some xs)
      then obtain xs' where l: "es' = Some xs'" "list_check xs (al \<and> \<not> ci_agg ci) 0 (ag \<or> ci_agg ci) p = Some (0, ag', xs', p1)"
        using c(6) by blast
      show thesis using L [OF Some refl l(2)] l(1) Some by (intro that [of xs']) (simp_all add: nExpr_def)
    qed
    have nm: "get_function_name (Expr op d l r es' tok it ic ia sel) = Some nm" using c(1) by (simp only: get_function_name_def expr.sel)
    show ?thesis
      by (rule call_sound [OF nm True c(2) [unfolded x(2)] c(3-5) x(1,4) less.prems(2) refl ok c(7) [unfolded x(3)]])
  next
    case False
    obtain n1 ag1 l' p1 n2 ag2 r' p2 es' where c: "opt_check l al ag p = Some (n1, ag1, l', p1)"
        "(if n1 = 0 then opt_check r al ag1 p1 else Some (n1, ag1, r, p1)) = Some (n2, ag2, r', p2)"
        "es = None \<and> es' = None \<and> p' = p2 \<and> n2 = 0 \<or> (\<exists>xs xs'. es = Some xs \<and> es' = Some xs' \<and> list_check xs al n2 ag2 p2 = Some (0, ag', xs', p'))"
        "e' = Expr op d l' r' es' tok it ic ia sel"
      using less.prems(3) unfolding e expr_check.simps if_not_P [OF False] by (cases es) (auto simp: bind_eq_Some_conv)
    have n2: "n2 = 0" using c(3) list_check_zero by blast
    then have n1: "n1 = 0" using c(2) by (auto split: if_splits)
    have l: "p1 = p \<and> (l = None \<longleftrightarrow> l' = None) \<and> (\<forall>x \<in> set_option l'. sound al (gen_fns p) x)"
      by (rule O [OF _ refl c(1) [unfolded n1]]) simp
    then have g1: "p1 = p" by simp
    have r: "p2 = p1 \<and> (r = None \<longleftrightarrow> r' = None) \<and> (\<forall>x \<in> set_option r'. sound al (gen_fns p1) x)"
      by (rule O [OF _ g1, of _ ag1 ag2]) (use c(2) n1 n2 in simp_all)
    then have g2: "p2 = p" using g1 by simp
    have x: "p' = p \<and> map_option length es = map_option length es' \<and> (\<forall>x \<in> kids None None es'. sound al (gen_fns p) x)"
      using c(3) L [OF _ g2] g2 by (auto simp: kids_def)
    have "sound al (gen_fns p) e'"
      unfolding c(4)
    proof (rule kids_sound)
      show "node_ok op d l' r' es' tok sel" using ok node_ok_same [of l l' r r' es es'] l r x by blast
      show "sound al (gen_fns p) y" if "y \<in> kids l' r' es'" for y using that l r x g1 by (auto simp: kids_def)
    qed (use False in simp)
    then show ?thesis using x by simp
  qed
qed

lemma sound_code:
  assumes "sound False H e" and g: "gen_ok False H p"
  shows "\<exists>q. expr_code e p = Some q \<and> gen_nErr q = gen_nErr p \<and> program (gen_vm q) = program (gen_vm p) @ emitted p q \<and> emitted p q \<noteq> []"
proof -
  have fit: "fits False H e" using assms(1) by (simp add: sound_def)
  obtain q where q: "expr_code e p = Some q" "ext p (code False H e (nOp (gen_vm p))) q"
    using compilesD [OF fits_compiles [OF fit] g refl] by (auto simp: appends_def)
  have "q = p\<lparr>gen_vm := gen_vm q\<rparr>" using q(2) by (simp add: ext_def)
  then have "gen_nErr q = gen_nErr p" by (metis cgen.select_convs(3) cgen.update_convs(1) cgen.surjective)
  then show ?thesis
    using q emitted_ext(1,2) [OF q(2) gen_ok_binv [OF g]] code_not_Nil [OF fit] by auto
qed



end
