(* ===== verification/NameProps.thy ===== *)
theory NameProps
  imports Names ExprTypes
begin

text \<open>
  What the resolution of names guarantees: a name means the one column that has it among the tables it may refer
  to, every other case ends as the code says, and a resolved tree is one the check and the code generator work on.
\<close>

section \<open>One name\<close>

text \<open>A schema the code may walk: tables have columns and belong to a database.\<close>

definition sources_ok :: "cstring list \<Rightarrow> src_item list \<Rightarrow> bool" where
  "sources_ok dbs xs \<longleftrightarrow> (\<forall>x \<in> set xs. \<forall>t. pTab x = Some t \<longrightarrow> aCol t \<noteq> [] \<and> tdb t < length dbs)"

text \<open>The tables a name may refer to, and those of them that have the column.\<close>

definition shown :: "cstring list \<Rightarrow> cstring option \<Rightarrow> cstring option \<Rightarrow> src_item list \<Rightarrow> (int \<times> table) list" where
  "shown dbs dbn tn xs =
     concat (map (\<lambda>x. case pTab x of None \<Rightarrow> [] | Some t \<Rightarrow> if source_matches dbs dbn tn x t = Some True then [(iCursor x, t)] else []) xs)"

definition named :: "cstring \<Rightarrow> (int \<times> table) list \<Rightarrow> (int \<times> table) list" where
  "named cn ts = filter (\<lambda>(c, t). find_column cn (aCol t) \<noteq> None) ts"

definition column_index :: "table \<Rightarrow> cstring \<Rightarrow> int" where
  "column_index t cn = (let j = the (find_column cn (aCol t)) in if int j = iPKey t then -1 else int j)"

definition column_type :: "table \<Rightarrow> cstring \<Rightarrow> int" where
  "column_type t cn = col_sort (aCol t ! the (find_column cn (aCol t))) AND 6"

lemma find_column_Some:
  "find_column z cs = Some j \<longleftrightarrow> j < length cs \<and> strcasecmp (col_name (cs ! j)) z = 0 \<and> (\<forall>i < j. strcasecmp (col_name (cs ! i)) z \<noteq> 0)"
proof -
  have "find_column z cs = Some j \<longleftrightarrow> (\<exists>c. find (\<lambda>(j, c). strcasecmp (col_name c) z = 0) (enumerate 0 cs) = Some (j, c))"
    by (auto simp: find_column_def)
  also have "\<dots> \<longleftrightarrow> (\<exists>c i. i < length cs \<and> strcasecmp (col_name (cs ! i)) z = 0 \<and> (j, c) = (i, cs ! i)
      \<and> (\<forall>k < i. strcasecmp (col_name (cs ! k)) z \<noteq> 0))"
    unfolding find_Some_iff by (rule ex_cong1, rule ex_cong1) (auto simp: nth_enumerate_eq)
  finally show ?thesis by blast
qed

text \<open>What one table adds to what has been found.\<close>

definition see :: "cstring \<Rightarrow> int \<times> table \<Rightarrow> found \<Rightarrow> found" where
  "see cn ct F =
     (let F = (if f_tabs F = 0 then F\<lparr>f_table := fst ct, f_db := tdb (snd ct)\<rparr> else F)\<lparr>f_tabs := f_tabs F + 1\<rparr>
      in if find_column cn (aCol (snd ct)) = None then F
         else F\<lparr>f_table := fst ct, f_db := tdb (snd ct), f_cnt := f_cnt F + 1, f_col := column_index (snd ct) cn, f_type := column_type (snd ct) cn\<rparr>)"

lemma see_simps [simp]:
  "f_tabs (see cn ct F) = f_tabs F + 1"
  "f_cnt (see cn ct F) = f_cnt F + (if find_column cn (aCol (snd ct)) = None then 0 else 1)"
  "f_col (see cn ct F) = (if find_column cn (aCol (snd ct)) = None then f_col F else column_index (snd ct) cn)"
  "f_type (see cn ct F) = (if find_column cn (aCol (snd ct)) = None then f_type F else column_type (snd ct) cn)"
  "f_table (see cn ct F) = (if find_column cn (aCol (snd ct)) = None \<and> f_tabs F > 0 then f_table F else fst ct)"
  "f_db (see cn ct F) = (if find_column cn (aCol (snd ct)) = None \<and> f_tabs F > 0 then f_db F else tdb (snd ct))"
  by (auto simp: see_def Let_def)

lemma see_eq:
  "(let F = (if f_tabs F = 0 then F\<lparr>f_table := c, f_db := tdb t\<rparr> else F); F = F\<lparr>f_tabs := f_tabs F + 1\<rparr>;
      F = (if find_column cn (aCol t) = None then F else hit_column t cn (F\<lparr>f_table := c, f_db := tdb t\<rparr>)) in G F) = G (see cn (c, t) F)"
  by (cases "find_column cn (aCol t)") (simp_all add: see_def hit_column_def column_index_def column_type_def Let_def)

lemma matches_defined: "tdb t < length dbs \<Longrightarrow> \<exists>m. source_matches dbs dbn tn x t = Some m"
  by (auto simp: source_matches_def split: option.splits)

lemma scan_fold:
  "sources_ok dbs xs \<Longrightarrow> scan_sources dbs dbn tn cn xs F = Some (fold (see cn) (shown dbs dbn tn xs) F)"
proof (induction xs arbitrary: F)
  case (Cons x xs)
  have ok: "sources_ok dbs xs" using Cons.prems by (simp add: sources_ok_def)
  have k: "shown dbs dbn tn (x # xs) = (case pTab x of None \<Rightarrow> [] | Some t \<Rightarrow>
      if source_matches dbs dbn tn x t = Some True then [(iCursor x, t)] else []) @ shown dbs dbn tn xs"
    by (simp add: shown_def)
  show ?case
  proof (cases "pTab x")
    case (Some t)
    then have t: "aCol t \<noteq> []" "tdb t < length dbs" using Cons.prems by (auto simp: sources_ok_def)
    obtain m where m: "source_matches dbs dbn tn x t = Some m" using matches_defined [OF t(2)] by blast
    show ?thesis unfolding k scan_sources.simps see_eq using Some m t(1) Cons.IH [OF ok] by (cases m) simp_all
  qed (use k Cons.IH [OF ok] in simp)
qed (simp add: shown_def)

lemma fold_see_counts:
  "f_tabs (fold (see cn) ts F) = f_tabs F + length ts" "f_cnt (fold (see cn) ts F) = f_cnt F + length (named cn ts)"
  by (induction ts arbitrary: F) (auto simp: named_def split_beta)

lemma fold_see_none:
  assumes "named cn ts = []"
  shows "f_col (fold (see cn) ts F) = f_col F" "f_type (fold (see cn) ts F) = f_type F"
    "f_tabs F = 0 \<Longrightarrow> ts = ct # ts' \<Longrightarrow> f_table (fold (see cn) ts F) = fst ct \<and> f_db (fold (see cn) ts F) = tdb (snd ct)"
proof -
  have n: "find_column cn (aCol (snd ct)) = None" if "ct \<in> set ts" for ct
    using assms that by (force simp: named_def filter_empty_conv)
  show "f_col (fold (see cn) ts F) = f_col F" "f_type (fold (see cn) ts F) = f_type F"
    using n by (induction ts arbitrary: F) simp_all
  have k: "f_table (fold (see cn) us G) = f_table G \<and> f_db (fold (see cn) us G) = f_db G" if "set us \<subseteq> set ts" "f_tabs G > 0" for us G
    using that
  proof (induction us arbitrary: G)
    case (Cons u us)
    then have "find_column cn (aCol (snd u)) = None" using n [of u] by simp
    then show ?case using Cons by simp
  qed simp
  show "f_table (fold (see cn) ts F) = fst ct \<and> f_db (fold (see cn) ts F) = tdb (snd ct)" if "f_tabs F = 0" "ts = ct # ts'"
    using that k [of ts' "see cn ct F"] n [of ct] by (simp add: subset_insertI)
qed

lemma fold_see_last:
  "named cn ts \<noteq> [] \<Longrightarrow> last (named cn ts) = (c, t) \<Longrightarrow> f_table (fold (see cn) ts F) = c \<and> f_db (fold (see cn) ts F) = tdb t
    \<and> f_col (fold (see cn) ts F) = column_index t cn \<and> f_type (fold (see cn) ts F) = column_type t cn"
proof (induction ts rule: rev_induct)
  case (snoc ct ts)
  show ?case
  proof (cases "find_column cn (aCol (snd ct)) = None")
    case True
    then have nm: "named cn (ts @ [ct]) = named cn ts" by (simp add: named_def split_beta)
    with snoc have "named cn ts \<noteq> []" "f_table (fold (see cn) ts F) = c \<and> f_db (fold (see cn) ts F) = tdb t
      \<and> f_col (fold (see cn) ts F) = column_index t cn \<and> f_type (fold (see cn) ts F) = column_type t cn" by simp_all
    moreover from this(1) have "f_tabs (fold (see cn) ts F) > 0" by (cases ts) (simp_all add: fold_see_counts named_def)
    ultimately show ?thesis using True by simp
  next
    case False
    then have nm: "named cn (ts @ [ct]) = named cn ts @ [ct]" by (auto simp: named_def split_beta)
    then have ct: "ct = (c, t)" using snoc.prems(2) by simp
    show ?thesis using False unfolding ct fold_append by auto
  qed
qed (simp add: named_def)

text \<open>A dotted name of a trigger program may mean the table the trigger is for; it is considered when no source has the
  column.\<close>

definition trigger_tables :: "cstring option \<Rightarrow> cstring option \<Rightarrow> trigger_stack option \<Rightarrow> (int \<times> table) list" where
  "trigger_tables dbn tn trig =
     (case (dbn, tn, trig) of
        (None, Some n, Some s) \<Rightarrow>
          (if newIdx s \<noteq> -1 \<and> strcasecmp ''new'' n = 0 then [(newIdx s, the (ts_tab s))]
           else if oldIdx s \<noteq> -1 \<and> strcasecmp ''old'' n = 0 then [(oldIdx s, the (ts_tab s))] else [])
      | _ \<Rightarrow> [])"

definition candidates :: "cstring list \<Rightarrow> trigger_stack option \<Rightarrow> cstring option \<Rightarrow> cstring option \<Rightarrow> cstring \<Rightarrow> src_item list \<Rightarrow>
    (int \<times> table) list" where
  "candidates dbs trig dbn tn cn xs =
     (let ts = shown dbs dbn tn xs in if named cn ts = [] then ts @ trigger_tables dbn tn trig else ts)"

definition column_node :: "int \<Rightarrow> int \<Rightarrow> int \<Rightarrow> expr \<Rightarrow> expr" where
  "column_node c i ty e = Expr ''TK_COLUMN'' ty None None (exprs e) (etoken e) c i (iAgg e) (pSelect e)"

text \<open>What is known of the tables after the scan.\<close>

definition summary :: "cstring \<Rightarrow> (int \<times> table) list \<Rightarrow> found \<Rightarrow> found \<Rightarrow> bool" where
  "summary cn ts F G \<longleftrightarrow>
     f_tabs G = length ts \<and> f_cnt G = length (named cn ts) \<and>
     (if named cn ts = []
      then f_col G = f_col F \<and> f_type G = f_type F \<and> (\<forall>ct. ts = [ct] \<longrightarrow> f_table G = fst ct \<and> f_db G = tdb (snd ct))
      else (case last (named cn ts) of (c, t) \<Rightarrow>
        f_table G = c \<and> f_db G = tdb t \<and> f_col G = column_index t cn \<and> f_type G = column_type t cn))"

lemma scan_summary:
  assumes "f_tabs F = 0" "f_cnt F = 0"
  shows "summary cn ts F (fold (see cn) ts F)"
proof (cases "named cn ts = []")
  case True
  then show ?thesis using fold_see_none [OF True, of F] assms by (auto simp: summary_def fold_see_counts simp del: fold.simps)
next
  case False
  obtain c t where "last (named cn ts) = (c, t)" by (cases "last (named cn ts)")
  then show ?thesis using fold_see_last [OF False] False assms by (simp add: summary_def fold_see_counts)
qed

lemma scan_trigger_summary:
  assumes s: "summary cn (shown dbs dbn tn xs) F G" and ok: "\<And>s. trig = Some s \<Longrightarrow> ts_tab s \<noteq> None"
  obtains G' where "scan_trigger trig dbn tn cn G = Some G'" "summary cn (candidates dbs trig dbn tn cn xs) F G'"
proof (cases "named cn (shown dbs dbn tn xs) = [] \<and> trigger_tables dbn tn trig \<noteq> []")
  case False
  then have "candidates dbs trig dbn tn cn xs = shown dbs dbn tn xs" by (auto simp: candidates_def Let_def)
  moreover have "scan_trigger trig dbn tn cn G = Some G"
    using False s by (auto simp: scan_trigger_def trigger_tables_def summary_def Let_def split: option.splits if_splits)
  ultimately show ?thesis using that s by simp
next
  case True
  then obtain c t where T: "trigger_tables dbn tn trig = [(c, t)]"
    by (auto simp: trigger_tables_def split: option.splits if_splits)
  have g: "f_cnt G = 0" "f_tabs G = length (shown dbs dbn tn xs)" "f_col G = f_col F" "f_type G = f_type F"
    using s True by (simp_all add: summary_def)
  have sc: "scan_trigger trig dbn tn cn G = Some (hit_column t cn (G\<lparr>f_table := c, f_db := tdb t, f_tabs := f_tabs G + 1\<rparr>))"
    using T g(1) ok by (fastforce simp: scan_trigger_def trigger_tables_def Let_def split: option.splits if_splits)
  have cand: "candidates dbs trig dbn tn cn xs = shown dbs dbn tn xs @ [(c, t)]" using True T by (simp add: candidates_def)
  have nm: "named cn (candidates dbs trig dbn tn cn xs) = (if find_column cn (aCol t) = None then [] else [(c, t)])"
    unfolding cand using True by (auto simp: named_def)
  show ?thesis
    using that [OF sc] nm g unfolding summary_def cand
    by (cases "find_column cn (aCol t)") (simp_all add: hit_column_def column_index_def column_type_def)
qed

lemma scan_both:
  assumes "sources_ok dbs xs" and "\<And>s. trig = Some s \<Longrightarrow> ts_tab s \<noteq> None" and "f_tabs F = 0" "f_cnt F = 0"
  obtains G where "(do { F \<leftarrow> scan_sources dbs dbn tn cn xs F; scan_trigger trig dbn tn cn F }) = Some G"
    "summary cn (candidates dbs trig dbn tn cn xs) F G"
proof -
  obtain G where "scan_trigger trig dbn tn cn (fold (see cn) (shown dbs dbn tn xs) F) = Some G"
      "summary cn (candidates dbs trig dbn tn cn xs) F G"
    using scan_trigger_summary [OF scan_summary [OF assms(3,4)] assms(2)] by blast
  then show ?thesis using that scan_fold [OF assms(1)] by simp
qed

text \<open>The rest of the lookup, after the tables have been scanned.\<close>

definition conclude :: "cstring option \<Rightarrow> cstring option \<Rightarrow> cstring \<Rightarrow> cstring \<Rightarrow> src_item list \<Rightarrow> elist option \<Rightarrow> expr \<Rightarrow>
    'f rparser \<Rightarrow> found \<Rightarrow> (bool \<times> expr \<times> 'f rparser) option" where
  "conclude dbn tn cn z slist elist e p F =
     (let F = scan_rowid cn F; e = set_ref F e
      in case (if f_cnt F = 0 then find_alias cn elist else None) of
           Some (j, x) \<Rightarrow> if pLeft e \<noteq> None \<or> pRight e \<noteq> None then None else Some (False, as_alias j x e, p)
         | None \<Rightarrow>
             (if f_cnt F = 0 \<and> tn = None \<and> c_at z 0 = CHR 0x22 then Some (False, e, p)
              else
                (let p = (if f_cnt F = 1 then p
                          else rp_error ((if f_cnt F = 0 then ''no such column: '' else ''ambiguous column name: '')
                                 @ full_name dbn tn cn) p)
                 in do { (e, p) \<leftarrow> auth_read (as_column e) (f_db F) slist p; Some (f_cnt F \<noteq> 1, e, p) })))"

lemma lookup_scanned:
  assumes "sources_ok (aDb p) slist" and "\<And>s. trigStack p = Some s \<Longrightarrow> ts_tab s \<noteq> None"
    and "dbt \<noteq> None \<longrightarrow> tt \<noteq> None" and "tt \<noteq> None \<longrightarrow> elist = None"
    and "dbn = map_option str_unquote dbt" "tn = map_option str_unquote tt" "cn = str_unquote z"
  obtains G where "lookup_name dbt tt z slist elist e p = conclude dbn tn cn z slist elist e p G"
    "summary cn (candidates (aDb p) (trigStack p) dbn tn cn slist)
       \<lparr>f_cnt = 0, f_tabs = 0, f_table = -1, f_db = 0, f_col = iColumn e, f_type = dataType e\<rparr> G"
proof -
  let ?F = "\<lparr>f_cnt = 0, f_tabs = 0, f_table = -1, f_db = 0, f_col = iColumn e, f_type = dataType e\<rparr> :: found"
  obtain G where G: "(do { F \<leftarrow> scan_sources (aDb p) dbn tn cn slist ?F; scan_trigger (trigStack p) dbn tn cn F }) = Some G"
      "summary cn (candidates (aDb p) (trigStack p) dbn tn cn slist) ?F G"
    by (rule scan_both [OF assms(1,2), where F = ?F and dbn = dbn and tn = tn and cn = cn]) auto
  then obtain G1 where "scan_sources (aDb p) dbn tn cn slist ?F = Some G1" "scan_trigger (trigStack p) dbn tn cn G1 = Some G"
    by (auto simp: bind_eq_Some_conv)
  then have "lookup_name dbt tt z slist elist e p = conclude dbn tn cn z slist elist e p G"
    using assms(3-7) by (auto simp: lookup_name_def conclude_def Let_def)
  then show ?thesis using that G(2) by blast
qed

lemma as_column_ref: "as_column (set_ref F e) = column_node (f_table F) (f_col F) (f_type F) e"
  by (cases e) (simp add: as_column_def set_ref_def column_node_def)

text \<open>A table with an integer primary key, as the only source of a statement.\<close>

definition test_table :: table where
  "test_table = \<lparr>tname = Some ''t'', aCol = [\<lparr>col_name = ''a'', col_sort = 2\<rparr>, \<lparr>col_name = ''id'', col_sort = 4\<rparr>], iPKey = 1, tdb = 0\<rparr>"

definition test_sources :: "src_item list" where
  "test_sources = [\<lparr>zAlias = None, iCursor = 0, pTab = Some test_table\<rparr>]"

definition test_rp :: "authorizer option \<Rightarrow> unit rparser" where
  "test_rp f = \<lparr>pg = test_gen, prc = 0, pnTab = 1, pnMem = 0, pnSet = 0, trigStack = None, zAuthContext = None, xAuth = f, aDb = [''main'']\<rparr>"

definition test_id :: "cstring \<Rightarrow> expr" where
  "test_id z = Expr ''TK_ID'' 0 None None None (Some z) 0 0 0 None"

lemma test_rp_simps [simp]:
  "pg (test_rp f) = test_gen" "pnTab (test_rp f) = 1" "trigStack (test_rp f) = None" "xAuth (test_rp f) = f" "aDb (test_rp f) = [''main'']"
  "zAuthContext (test_rp f) = None" "prc (test_rp f) = 0"
  by (simp_all add: test_rp_def)

lemma test_sources_ok: "sources_ok [''main''] test_sources"
  by (simp add: sources_ok_def test_sources_def test_table_def)

lemma test_shown: "shown [''main''] None None test_sources = [(0, test_table)]" "named ''ID'' [(0, test_table)] = [(0, test_table)]"
  "find_column ''ID'' (aCol test_table) = Some 1" "column_index test_table ''ID'' = -1" "column_type test_table ''ID'' = 4" "str_unquote ''ID'' = ''ID''"
  by code_simp+

text \<open>C6: a name is resolved as the language says.  If exactly one table that the name may refer to has the column, the
  node becomes a reference to the cursor of that table and the position of the column, or to the row number for the
  integer primary key, with the type of the column; two tables with the column give the error of an ambiguous name.  A name
  no table has is the row number if it is one of its names and there is only one table, otherwise the result column with that
  alias, otherwise, if it is a bare name in double quotes, a string, and otherwise an error is left that tells the name.\<close>

theorem lookup_name_resolves:
  assumes "sources_ok (aDb p) slist" and "\<forall>s. trigStack p = Some s \<longrightarrow> ts_tab s \<noteq> None"
    and "dbt \<noteq> None \<longrightarrow> tt \<noteq> None" and "tt \<noteq> None \<longrightarrow> elist = None"
    and "xAuth p = None" and "elist \<noteq> None \<longrightarrow> pLeft e = None \<and> pRight e = None"
    and "dbn = map_option str_unquote dbt" "tn = map_option str_unquote tt" "cn = str_unquote z"
    and "ts = candidates (aDb p) (trigStack p) dbn tn cn slist"
  shows "\<exists>b e' p'. lookup_name dbt tt z slist elist e p = Some (b, e', p') \<and>
    (case named cn ts of
       [(c, t)] \<Rightarrow> \<not> b \<and> p' = p \<and> e' = column_node c (column_index t cn) (column_type t cn) e
     | _ # _ # _ \<Rightarrow> b \<and> p' = rp_error (''ambiguous column name: '' @ full_name dbn tn cn) p
     | [] \<Rightarrow>
         if length ts = 1 \<and> is_row_id cn then \<not> b \<and> p' = p \<and> e' = column_node (fst (hd ts)) (-1) SO_NUM e
         else if find_alias cn elist \<noteq> None then
           \<not> b \<and> p' = p \<and> eop e' = ''TK_AS'' \<and> Some (nat (iColumn e'), the (pLeft e')) = find_alias cn elist
         else if tn = None \<and> c_at z 0 = CHR 0x22 then \<not> b \<and> p' = p \<and> eop e' = eop e \<and> etoken e' = etoken e
         else b \<and> p' = rp_error (''no such column: '' @ full_name dbn tn cn) p)"
proof -
  have trig: "\<And>s. trigStack p = Some s \<Longrightarrow> ts_tab s \<noteq> None" using assms(2) by blast
  obtain G where G: "lookup_name dbt tt z slist elist e p = conclude dbn tn cn z slist elist e p G"
      "summary cn ts \<lparr>f_cnt = 0, f_tabs = 0, f_table = -1, f_db = 0, f_col = iColumn e, f_type = dataType e\<rparr> G"
    using lookup_scanned [OF assms(1) trig assms(3,4,7-9)] unfolding assms(10) by blast
  show ?thesis
  proof (cases "named cn ts")
    case Nil
    then have g: "f_cnt G = 0" "f_tabs G = length ts" "\<And>ct. ts = [ct] \<Longrightarrow> f_table G = fst ct" using G(2) by (auto simp: summary_def)
    show ?thesis
    proof (cases "length ts = 1 \<and> is_row_id cn")
      case True
      then obtain ct where "ts = [ct]" by (auto simp: length_Suc_conv)
      then show ?thesis unfolding G(1) using Nil g True assms(5)
        by (auto simp: conclude_def scan_rowid_def Let_def as_column_ref auth_read_def)
    next
      case False
      then have r: "scan_rowid cn G = G" using g by (auto simp: scan_rowid_def)
      show ?thesis
      proof (cases "find_alias cn elist")
        case None
        then show ?thesis unfolding G(1) using Nil g r False assms(5)
          by (cases e) (auto simp: conclude_def Let_def auth_read_def set_ref_def)
      next
        case (Some jx)
        then have "elist \<noteq> None" by (auto simp: find_alias_def split: option.splits)
        then show ?thesis unfolding G(1) using Nil g r False Some assms(6)
          by (cases e; cases jx) (auto simp: conclude_def Let_def as_alias_def set_ref_def)
      qed
    qed
  next
    case (Cons ct cts)
    then have r: "scan_rowid cn G = G" "f_cnt G = Suc (length cts)" using G(2) by (auto simp: summary_def scan_rowid_def)
    show ?thesis
    proof (cases cts)
      case Nil
      then show ?thesis unfolding G(1) using Cons r G(2) assms(5)
        by (cases ct) (auto simp: conclude_def Let_def auth_read_def as_column_ref summary_def)
    next
      case (Cons a list)
      then show ?thesis unfolding G(1) using \<open>named cn ts = ct # cts\<close> r assms(5)
        by (cases ct) (simp add: conclude_def Let_def auth_read_def ex_bool_eq)
    qed
  qed
qed

theorem lookup_name_resolves_witness:
  "\<exists>b e' p'. lookup_name None None ''ID'' test_sources None (test_id ''ID'') (test_rp None) = Some (b, e', p')
    \<and> \<not> b \<and> p' = test_rp None \<and> e' = column_node 0 (-1) 4 (test_id ''ID'')"
  using lookup_name_resolves [of "test_rp None" test_sources None None None "test_id ''ID''" None None "''ID''" "''ID''" "[(0, test_table)]"]
  by (simp add: test_sources_ok test_shown candidates_def Let_def)

section \<open>A tree\<close>

text \<open>A tree as the grammar builds it, with names and without IN and sub-selects.\<close>

fun raw :: "expr \<Rightarrow> bool" and opt_raw :: "expr option \<Rightarrow> bool" and all_raw :: "expr list \<Rightarrow> bool" where
  "raw (Expr op d l r es tok it ic ia sel) \<longleftrightarrow>
     (if op = ''TK_ID'' \<or> op = ''TK_STRING'' then (case tok of None \<Rightarrow> False | Some z \<Rightarrow> op = ''TK_ID'' \<longrightarrow> c_at z 0 \<noteq> CHR 0x22) \<and> l = None \<and> r = None \<and> es = None
      else if op = ''TK_DOT'' then
        es = None \<and> (case dot_names l r of Some (dbt, Some tt, Some z) \<Rightarrow> True | _ \<Rightarrow> False)
      else op \<notin> {''TK_IN'', ''TK_SELECT''} \<and> node_ok op d l r es tok sel \<and> opt_raw l \<and> opt_raw r
        \<and> (case es of None \<Rightarrow> True | Some xs \<Rightarrow> all_raw xs))"
| "opt_raw None = True"
| "opt_raw (Some e) = raw e"
| "all_raw [] = True"
| "all_raw (x # xs) = (raw x \<and> all_raw xs)"

text \<open>The columns of a table sort as text or as numbers.\<close>

definition sorted_columns :: "table \<Rightarrow> bool" where
  "sorted_columns t \<longleftrightarrow> (\<forall>c \<in> set (aCol t). so (Some (col_sort c AND 6)))"

definition schema_ok :: "'f rparser \<Rightarrow> src_item list \<Rightarrow> elist option \<Rightarrow> bool" where
  "schema_ok p xs es \<longleftrightarrow>
     sources_ok (aDb p) xs \<and> cursors_ok xs p \<and> (\<forall>x \<in> set xs. \<forall>t. pTab x = Some t \<longrightarrow> sorted_columns t)
     \<and> (\<forall>s. trigStack p = Some s \<longrightarrow> (\<exists>t. ts_tab s = Some t \<and> sorted_columns t))
     \<and> (\<forall>ys. es = Some ys \<longrightarrow> (\<forall>y \<in> set ys. formed (snd y)))"

lemma candidates_sorted:
  assumes "schema_ok p xs es" and "(c, t) \<in> set (candidates (aDb p) (trigStack p) dbn tn cn xs)"
  shows "sorted_columns t"
proof -
  have "(c, t) \<in> set (shown (aDb p) dbn tn xs) \<or> (c, t) \<in> set (trigger_tables dbn tn (trigStack p))"
    using assms(2) by (auto simp: candidates_def Let_def split: if_splits)
  moreover have "\<exists>x \<in> set xs. pTab x = Some t" if "(c, t) \<in> set (shown (aDb p) dbn tn xs)"
    using that by (auto simp: shown_def split: option.splits if_splits)
  moreover have "\<exists>s. trigStack p = Some s \<and> t = the (ts_tab s)" if "(c, t) \<in> set (trigger_tables dbn tn (trigStack p))"
    using that by (cases "trigStack p") (auto simp: trigger_tables_def split: option.splits if_splits)
  ultimately show ?thesis
    using assms(1) unfolding schema_ok_def by (metis option.sel)
qed

lemma named_typed:
  assumes "schema_ok p xs es" and "(c, t) \<in> set (named cn (candidates (aDb p) (trigStack p) dbn tn cn xs))"
  shows "so (Some (column_type t cn))"
proof -
  have "(c, t) \<in> set (candidates (aDb p) (trigStack p) dbn tn cn xs)" and f: "find_column cn (aCol t) \<noteq> None"
    using assms(2) by (auto simp: named_def)
  then have "sorted_columns t" using candidates_sorted assms(1) by blast
  moreover obtain j where "find_column cn (aCol t) = Some j" using f by blast
  moreover from this have "j < length (aCol t)" by (simp add: find_column_Some)
  ultimately show ?thesis by (simp add: column_type_def sorted_columns_def)
qed

lemma find_alias_in: "find_alias cn es = Some (j, x) \<Longrightarrow> \<exists>ys. es = Some ys \<and> x \<in> snd ` set ys"
proof -
  assume a: "find_alias cn es = Some (j, x)"
  then obtain ys y where y: "es = Some ys" "find (\<lambda>(j, x). case fst x of None \<Rightarrow> False | Some a \<Rightarrow> strcasecmp a cn = 0) (enumerate 0 ys) = Some (j, y)" "x = snd y"
    by (auto simp: find_alias_def split: option.splits)
  then obtain i where "i < length (enumerate 0 ys)" "enumerate 0 ys ! i = (j, y)" by (auto simp: find_Some_iff)
  then have "y \<in> set ys" by (simp add: nth_enumerate_eq) (metis nth_mem)
  with y show ?thesis by blast
qed

lemma lookup_formed:
  assumes ok: "schema_ok p slist elist" and au: "xAuth p = None"
    and tk: "dbt \<noteq> None \<longrightarrow> tt \<noteq> None" "tt \<noteq> None \<longrightarrow> elist = None" "elist \<noteq> None \<longrightarrow> pLeft e = None \<and> pRight e = None"
    and e: "exprs e = None" "tt = None \<and> c_at z 0 = CHR 0x22 \<longrightarrow> eop e \<in> {''TK_ID'', ''TK_STRING''} \<and> etoken e = Some z \<and> pLeft e = None \<and> pRight e = None"
    and q: "eop e = ''TK_ID'' \<longrightarrow> c_at z 0 \<noteq> CHR 0x22"
  shows "\<exists>b e' p'. lookup_name dbt tt z slist elist e p = Some (b, e', p')
    \<and> (if b then \<exists>m. p' = rp_error m p else p' = p \<and> formed e')"
proof -
  have s: "sources_ok (aDb p) slist" and trig: "\<And>s. trigStack p = Some s \<Longrightarrow> ts_tab s \<noteq> None"
    using ok by (auto simp: schema_ok_def)
  obtain dbn tn cn where n: "dbn = map_option str_unquote dbt" "tn = map_option str_unquote tt" "cn = str_unquote z" by simp
  let ?ts = "candidates (aDb p) (trigStack p) dbn tn cn slist"
  obtain G where G: "lookup_name dbt tt z slist elist e p = conclude dbn tn cn z slist elist e p G"
      "summary cn ?ts \<lparr>f_cnt = 0, f_tabs = 0, f_table = -1, f_db = 0, f_col = iColumn e, f_type = dataType e\<rparr> G"
    using lookup_scanned [OF s trig tk(1,2) n] by blast
  have one: "so (Some (f_type (scan_rowid cn G)))" if "f_cnt (scan_rowid cn G) = 1"
  proof (cases "named cn ?ts")
    case Nil
    then show ?thesis using that G(2) by (auto simp: scan_rowid_def summary_def split: if_splits)
  next
    case (Cons ct cts)
    have r: "scan_rowid cn G = G" using Cons G(2) by (simp add: scan_rowid_def summary_def)
    then have "named cn ?ts = [ct]" using Cons G(2) that by (simp add: summary_def)
    moreover from this have "so (Some (column_type (snd ct) cn))"
      using named_typed [OF ok, of "fst ct" "snd ct" cn dbn tn] by simp
    ultimately show ?thesis using r G(2) by (simp add: summary_def split_beta)
  qed
  have col: "formed (column_node c i ty e)" if "so (Some ty)" for c i ty
    using that e(1) by (simp add: column_node_def node_ok_def)
  have str: "formed (set_ref F e)" if "tn = None" "c_at z 0 = CHR 0x22" for F
    using that e q n(2) by (cases e) (simp add: set_ref_def node_ok_def)
  have al: "formed (as_alias j x (set_ref F e))" "pLeft (set_ref F e) = None" "pRight (set_ref F e) = None" if fa: "find_alias cn elist = Some (j, x)" for j x F
  proof -
    obtain ys where "elist = Some ys" "x \<in> snd ` set ys" using find_alias_in [OF fa] by blast
    then have "formed x" "pLeft e = None" "pRight e = None" using ok tk(3) by (auto simp: schema_ok_def)
    then show "formed (as_alias j x (set_ref F e))" "pLeft (set_ref F e) = None" "pRight (set_ref F e) = None"
      using e(1) by (cases e; simp add: as_alias_def set_ref_def node_ok_def cmp_ops_def bin_ops_def)+
  qed
  show ?thesis
  proof (cases "if f_cnt (scan_rowid cn G) = 0 then find_alias cn elist else None")
    case None
    show ?thesis unfolding G(1) conclude_def Let_def None as_column_ref
      using au one [THEN col] str by (auto simp: auth_read_def ex_bool_eq)
  next
    case (Some jx)
    then obtain j x where jx: "jx = (j, x)" "find_alias cn elist = Some (j, x)" by (cases jx) (simp split: if_splits)
    show ?thesis unfolding G(1) conclude_def Let_def Some using al [OF jx(2)] jx(1) by (simp add: ex_bool_eq)
  qed
qed

text \<open>The walk replaces operands by operands.\<close>

lemma node_ok_walk:
  assumes "node_ok op d l r es tok sel" and "l' = None \<longleftrightarrow> l = None" "r' = None \<longleftrightarrow> r = None"
    and "map_option length es' = map_option length es"
  shows "node_ok op d l' r' es' tok sel"
proof -
  have "(case es' of Some (lo # hi # _) \<Rightarrow> True | _ \<Rightarrow> False) = (case es of Some (lo # hi # _) \<Rightarrow> True | _ \<Rightarrow> False)"
    using assms(4) by (cases es; cases es') (auto simp: length_Suc_conv split: list.splits)
  moreover have "(case es' of Some xs \<Rightarrow> even (length xs) \<and> xs \<noteq> [] | None \<Rightarrow> False) = (case es of Some xs \<Rightarrow> even (length xs) \<and> xs \<noteq> [] | None \<Rightarrow> False)"
    using assms(4) by (auto split: option.splits)
  ultimately show ?thesis using assms(1-3) by (simp only: node_ok_def)
qed

definition settled :: "'f rparser \<Rightarrow> ('e \<Rightarrow> bool) \<Rightarrow> (bool \<times> 'e \<times> 'f rparser) option \<Rightarrow> bool" where
  "settled p P r \<longleftrightarrow> (case r of None \<Rightarrow> False | Some (b, e', p') \<Rightarrow> if b then \<exists>m. p' = rp_error m p else p' = p \<and> P e')"

lemma resolve_leaf:
  assumes "raw (Expr op d l r es tok it ic ia sel)" and "schema_ok p slist elist" and "xAuth p = None"
    and "op \<in> {''TK_ID'', ''TK_STRING'', ''TK_DOT''}"
  shows "settled p formed (resolve_ids s slist elist (Expr op d l r es tok it ic ia sel) p)"
proof -
  have c: "cursors_ok slist p" and ok: "schema_ok p slist None" using assms(2) by (simp_all add: schema_ok_def)
  have op: "op = ''TK_ID'' \<or> op = ''TK_STRING'' \<or> op = ''TK_DOT''" using assms(4) by simp
  consider (name) z where "op = ''TK_ID'' \<or> op = ''TK_STRING''" "tok = Some z" "op = ''TK_ID'' \<longrightarrow> c_at z 0 \<noteq> CHR 0x22" "l = None" "r = None" "es = None"
    | (dot) dbt tt z where "op = ''TK_DOT''" "es = None" "dot_names l r = Some (dbt, Some tt, Some z)"
    using op assms(1) by (elim disjE; cases tok; cases "dot_names l r") (auto split: option.splits)
  then show ?thesis
  proof cases
    case name
    have "\<exists>b e' p'. lookup_name None None z slist elist (Expr op d l r es tok it ic ia sel) p = Some (b, e', p')
        \<and> (if b then \<exists>m. p' = rp_error m p else p' = p \<and> formed e')"
      by (rule lookup_formed [OF assms(2,3)]) (use name in simp_all)
    moreover have "op = ''TK_STRING'' \<Longrightarrow> formed (Expr op d l r es tok it ic ia sel)"
      using name by (simp add: node_ok_def)
    ultimately show ?thesis using name(1,2) c by (elim disjE) (auto simp: settled_def)
  next
    case dot
    have "\<exists>b e' p'. lookup_name dbt (Some tt) z slist None (Expr op d l r es tok it ic ia sel) p = Some (b, e', p')
        \<and> (if b then \<exists>m. p' = rp_error m p else p' = p \<and> formed e')"
      by (rule lookup_formed [OF ok assms(3)]) (use dot in simp_all)
    then show ?thesis using dot c by (auto simp: settled_def)
  qed
qed

lemma settledE:
  assumes "settled p P r"
  obtains (error) e' m where "r = Some (True, e', rp_error m p)" | (fine) e' where "r = Some (False, e', p)" "P e'"
  using assms by (auto simp: settled_def split: option.splits if_splits)

lemma settled_simps [simp]:
  "settled p P (Some (True, e', rp_error m p))" "settled p P (Some (False, e', p)) \<longleftrightarrow> P e'"
  by (auto simp: settled_def)

lemma resolve_inner:
  assumes "op \<notin> {''TK_ID'', ''TK_STRING'', ''TK_DOT'', ''TK_IN'', ''TK_SELECT''}" and "cursors_ok slist p"
    and n: "node_ok op d l r es tok sel"
    and l: "settled p (\<lambda>l'. opt_formed l' \<and> (l' = None \<longleftrightarrow> l = None)) (resolve_opt s slist elist l p)"
    and r: "settled p (\<lambda>r'. opt_formed r' \<and> (r' = None \<longleftrightarrow> r = None)) (resolve_opt s slist elist r p)"
    and es: "\<And>xs. es = Some xs \<Longrightarrow> settled p (\<lambda>xs'. all_formed xs' \<and> length xs' = length xs) (resolve_list s slist elist xs p)"
  shows "settled p formed (resolve_ids s slist elist (Expr op d l r es tok it ic ia sel) p)"
proof -
  have R: "resolve_ids s slist elist (Expr op d l r es tok it ic ia sel) p =
    do { (b, l, p) \<leftarrow> resolve_opt s slist elist l p;
         if b then Some (True, Expr op d l r es tok it ic ia sel, p)
         else
           do { (b, r, p) \<leftarrow> resolve_opt s slist elist r p;
                if b then Some (True, Expr op d l r es tok it ic ia sel, p)
                else (case es of
                        None \<Rightarrow> Some (False, Expr op d l r es tok it ic ia sel, p)
                      | Some xs \<Rightarrow>
                          do { (b, xs, p) \<leftarrow> resolve_list s slist elist xs p;
                               Some (b, Expr op d l r (Some xs) tok it ic ia sel, p) }) } }"
    using assms(1,2) by simp
  show ?thesis
  proof (rule settledE [OF l])
    fix l' assume L: "resolve_opt s slist elist l p = Some (False, l', p)" "opt_formed l' \<and> (l' = None \<longleftrightarrow> l = None)"
    show ?thesis
    proof (rule settledE [OF r])
      fix r' assume r': "resolve_opt s slist elist r p = Some (False, r', p)" "opt_formed r' \<and> (r' = None \<longleftrightarrow> r = None)"
      show ?thesis
      proof (cases es)
        case None
        then show ?thesis unfolding R using L r' node_ok_walk [OF n, of l' r' es] by simp
      next
        case (Some xs)
        show ?thesis
        proof (rule settledE [OF es [OF Some]])
          fix xs' assume "resolve_list s slist elist xs p = Some (False, xs', p)" "all_formed xs' \<and> length xs' = length xs"
          then show ?thesis unfolding R using L r' Some node_ok_walk [OF n, of l' r' "Some xs'"] by simp
        qed (unfold R, use L r' Some in simp)
      qed
    qed (unfold R, use L in simp)
  qed (unfold R, simp)
qed

lemma resolve_settled:
  assumes "schema_ok p slist elist" and "xAuth p = None"
  shows "raw e \<Longrightarrow> settled p formed (resolve_ids s slist elist e p)"
    "opt_raw o' \<Longrightarrow> settled p (\<lambda>x. opt_formed x \<and> (x = None \<longleftrightarrow> o' = None)) (resolve_opt s slist elist o' p)"
    "all_raw xs \<Longrightarrow> settled p (\<lambda>ys. all_formed ys \<and> length ys = length xs) (resolve_list s slist elist xs p)"
proof (induction e and o' and xs rule: raw_opt_raw_all_raw.induct)
  case (1 op d l r es tok it ic ia sel)
  have c: "cursors_ok slist p" using assms(1) by (simp add: schema_ok_def)
  show ?case
  proof (cases "op \<in> {''TK_ID'', ''TK_STRING'', ''TK_DOT''}")
    case True
    show ?thesis by (rule resolve_leaf [OF 1(4) assms True])
  next
    case False
    then have k: "op \<notin> {''TK_IN'', ''TK_SELECT''}" "node_ok op d l r es tok sel" "opt_raw l" "opt_raw r" "\<And>xs. es = Some xs \<Longrightarrow> all_raw xs"
      using 1(4) by simp_all
    show ?thesis by (rule resolve_inner [OF _ c k(2)]) (use 1(1-3) False k in simp_all)
  qed
next
  case (3 e)
  then have "settled p formed (resolve_ids s slist elist e p)" by simp
  then show ?case by (rule settledE) simp_all
next
  case (5 x xs)
  then have s: "settled p formed (resolve_ids s slist elist x p)" "settled p (\<lambda>ys. all_formed ys \<and> length ys = length xs) (resolve_list s slist elist xs p)"
    by simp_all
  show ?case by (rule settledE [OF s(1)]; rule settledE [OF s(2)]) simp_all
qed simp_all



section \<open>Authorization\<close>

lemma find_cursor:
  assumes "distinct (map iCursor xs)" and "x \<in> set xs"
  shows "find (\<lambda>y. iCursor x = iCursor y) xs = Some x"
  using assms by (induction xs) (auto simp: image_iff)

lemma shown_source: "(c, t) \<in> set (shown dbs dbn tn xs) \<Longrightarrow> \<exists>x \<in> set xs. iCursor x = c \<and> pTab x = Some t"
  by (auto simp: shown_def split: option.splits if_splits)

lemma auth_column_index:
  assumes "find_column cn (aCol t) = Some j"
  shows "auth_column t (column_index t cn) = Some (col_name (aCol t ! j))"
proof -
  have "j < length (aCol t)" using assms by (simp add: find_column_Some)
  moreover have "int j = iPKey t \<Longrightarrow> nat (iPKey t) = j" by simp
  ultimately show ?thesis using assms by (simp add: auth_column_def column_index_def Let_def)
qed

text \<open>C9: when a name is resolved to the column of a table, the authorizer is asked about that very column, by its name in
  the table also when it is the primary key, and its answer decides: the column stays readable, it is replaced by NULL,
  or an error is counted, with the code of a denied access or, for an answer that is none of the three, of misuse.\<close>

theorem column_read_authorized:
  assumes "sources_ok (aDb p) slist" and "distinct (map iCursor slist)" and "trigStack p = None"
    and "dbt \<noteq> None \<longrightarrow> tt \<noteq> None" and "tt \<noteq> None \<longrightarrow> elist = None"
    and "dbn = map_option str_unquote dbt" "tn = map_option str_unquote tt" "cn = str_unquote z"
    and "named cn (shown (aDb p) dbn tn slist) = [(c, t)]" and "find_column cn (aCol t) = Some j" and "tname t = Some nm"
    and "xAuth p = Some f"
    and "a = f DBSQL_READ (Some nm) (Some (col_name (aCol t ! j))) (Some (aDb p ! tdb t)) (zAuthContext p)"
  shows "\<exists>e' p'. lookup_name dbt tt z slist elist e p = Some (False, e', p') \<and>
    (if a = DBSQL_SUCCESS then p' = p \<and> e' = column_node c (column_index t cn) (column_type t cn) e
     else if a = DBSQL_IGNORE then p' = p \<and> eop e' = ''TK_NULL''
     else gen_nErr (pg p') = gen_nErr (pg p) + 1 \<and> prc p' = (if a = DBSQL_DENY then DBSQL_AUTH else DBSQL_MISUSE))"
proof -
  have cand: "candidates (aDb p) (trigStack p) dbn tn cn slist = shown (aDb p) dbn tn slist"
    using assms(9) by (simp add: candidates_def)
  obtain G where G: "lookup_name dbt tt z slist elist e p = conclude dbn tn cn z slist elist e p G"
      "summary cn (shown (aDb p) dbn tn slist)
        \<lparr>f_cnt = 0, f_tabs = 0, f_table = -1, f_db = 0, f_col = iColumn e, f_type = dataType e\<rparr> G"
    using lookup_scanned [OF assms(1) _ assms(4-8)] assms(3) unfolding cand by auto
  then have g: "f_cnt G = 1" "f_table G = c" "f_db G = tdb t" "f_col G = column_index t cn" "f_type G = column_type t cn" "scan_rowid cn G = G"
    using assms(9) by (simp_all add: summary_def scan_rowid_def)
  have "(c, t) \<in> set (shown (aDb p) dbn tn slist)" using assms(9) by (auto simp: named_def dest: filter_eq_ConsD)
  then obtain x where x: "x \<in> set slist" "iCursor x = c" "pTab x = Some t" using shown_source by blast
  then have tab: "auth_table c slist p = Some (Some t)" using find_cursor [OF assms(2) x(1)] by (simp add: auth_table_def)
  have db: "tdb t < length (aDb p)" using assms(1) x by (auto simp: sources_ok_def)
  show ?thesis unfolding G(1) using g tab db auth_column_index [OF assms(10)] assms(11-13)
    by (simp add: conclude_def Let_def as_column_ref auth_read_def column_node_def set_op_def auth_bad_return_code_def DBSQL_IGNORE_def DBSQL_DENY_def)
qed

theorem column_read_authorized_witness:
  "\<exists>e' p'. lookup_name None None ''ID'' test_sources None (test_id ''ID'') (test_rp (Some (\<lambda>_ _ _ _ _. DBSQL_IGNORE))) = Some (False, e', p')
    \<and> p' = test_rp (Some (\<lambda>_ _ _ _ _. DBSQL_IGNORE)) \<and> eop e' = ''TK_NULL''"
  using column_read_authorized [of "test_rp (Some (\<lambda>_ _ _ _ _. DBSQL_IGNORE))" test_sources None None None None None "''ID''" "''ID''" 0 test_table 1
      "''t''" "\<lambda>_ _ _ _ _. DBSQL_IGNORE" DBSQL_IGNORE "test_id ''ID''"]
  by (simp add: test_sources_ok test_shown) (simp add: test_sources_def test_table_def DBSQL_IGNORE_def)

end
