(* ===== verification/InList.thy ===== *)
theory InList
  imports NameProps AggProps
begin

text \<open>
  The list on the right of IN: the code \<^verbatim>\<open>__expr_resolve_ids\<close> generates for it, and the set that code builds on the
  machine.
\<close>

definition literal_text :: "expr \<Rightarrow> cstring option" where
  "literal_text x = (if eop x \<in> {''TK_FLOAT'', ''TK_INTEGER'', ''TK_STRING''} \<and> pLeft x = None \<and> pRight x = None \<and> exprs x = None
     then map_option (\<lambda>z. str_unquote (cstr z)) (etoken x) else None)"

lemma literal_textD:
  assumes "literal_text x = Some t"
  obtains op d z it ic ia sel where "x = Expr op d None None None (Some z) it ic ia sel" "t = str_unquote (cstr z)"
    "op = ''TK_FLOAT'' \<or> op = ''TK_INTEGER'' \<or> op = ''TK_STRING''"
  using assms by (cases x) (auto simp: literal_text_def split: if_splits)

lemma literal_checked:
  assumes "literal_text x = Some t"
  shows "expr_is_constant x" "expr_check x False False g = Some (0, False, x, g)"
  by (rule literal_textD [OF assms]; elim disjE; simp)+

lemma members_checked: "\<forall>x \<in> set xs. literal_text x \<noteq> None \<Longrightarrow> check_members xs p = Some (False, xs, p)"
proof (induction xs)
  case (Cons x xs)
  then obtain t where "literal_text x = Some t" by auto
  with literal_checked(1) [OF this] literal_checked(2) [OF this, of "pg p"] Cons show ?case by (simp add: Let_def)
qed simp

lemma member_ext:
  fixes g :: "'f cgen"
  assumes b: "binv (gen_vm g)" and t: "literal_text x = Some t"
  shows "appends (member_code i x g) g [set_insert_op i t]"
proof -
  obtain op d z it ic ia sel where x: "x = Expr op d None None None (Some z) it ic ia sel" "t = str_unquote (cstr z)"
      "op = ''TK_FLOAT'' \<or> op = ''TK_INTEGER'' \<or> op = ''TK_STRING''" by (rule literal_textD [OF t])
  have e: "0 \<le> p2 (mk_text c i w :: 'f func_def vdbe_op)" for c w by (simp add: mk_text_def)
  obtain q where q: "emit OP_SetInsert i 0 g = Some (int (nOp (gen_vm g)), q)" "ext g [mk OP_SetInsert i 0] q"
    using emit_ext [OF b, of 0 OP_SetInsert i] by auto
  note l = ext_last [OF q(2) b]
  let ?j = "mk_text OP_SetInsert i (cstr z)" and ?k = "mk_text OP_SetInsert i (str_unquote (cstr z))" and ?n = "nOp (gen_vm g)"
  have n: "op_index v (int ?n) = Some ?n" if "nOp v = Suc ?n" for v :: "'f func_def vdbe_prog" using that by (simp add: op_index_def)
  have c: "with_vm (\<lambda>v. vdbe_change_p3 v (int ?n) (Some (P3_text z)) (int (length z))) q = Some (upd_op ?n ?j q)"
    using l n [of "gen_vm q"] ext_keeps(2) [OF q(2) b]
    by (simp add: with_vm_def vdbe_change_p3_def upd_op_def mk_def mk_text_def nappend_all)
  have u: "ext g [?j] (upd_op ?n ?j q)" by (rule l(6) [OF e])
  note m = ext_last [OF u b]
  have d: "with_vm (\<lambda>v. vdbe_dequote_p3 v (int ?n)) (upd_op ?n ?j q) = Some (upd_op ?n ?k (upd_op ?n ?j q))"
  proof (cases "cstr z = []")
    case True
    then have "upd_op ?n ?k (upd_op ?n ?j q) = upd_op ?n ?j q" by (simp add: upd_op_def)
    then show ?thesis using True m n [of "gen_vm (upd_op ?n ?j q)"] ext_keeps(2) [OF u b]
      by (simp add: with_vm_def vdbe_dequote_p3_def mk_text_def)
  next
    case False
    then show ?thesis using m n [of "gen_vm (upd_op ?n ?j q)"] ext_keeps(2) [OF u b]
      by (simp add: with_vm_def vdbe_dequote_p3_def mk_text_def upd_op_def p3_defs)
  qed
  have "member_code i x g = Some (upd_op ?n ?k (upd_op ?n ?j q))"
    using x(3) q(1) c d unfolding x(1) by (elim disjE) (simp_all add: member_code_def)
  moreover have "set_insert_op i t = ?k" unfolding x(2) by (simp add: mk_text_def set_insert_op_def)
  ultimately show ?thesis using m(6) [OF e] unfolding appends_def by metis
qed

lemma members_ext:
  "binv (gen_vm g) \<Longrightarrow> \<forall>x \<in> set xs. literal_text x \<noteq> None \<Longrightarrow>
    appends (members_code i xs g) g (map (\<lambda>x. set_insert_op i (the (literal_text x))) xs)"
proof (induction xs arbitrary: g)
  case (Cons x xs)
  then obtain t where "literal_text x = Some t" by auto
  then have "appends (member_code i x g) g [set_insert_op i (the (literal_text x))]" using member_ext Cons.prems(1) by auto
  then have "appends (member_code i x g \<bind> members_code i xs) g ([set_insert_op i (the (literal_text x))] @ map (\<lambda>x. set_insert_op i (the (literal_text x))) xs)"
    by (rule appends_bind) (use Cons ext_keeps(1) in auto)
  then show ?case by simp
qed (simp add: appends_Nil)

text \<open>C8: for IN over a list of literals the resolution takes the next set, and appends one insertion for every literal, with
  its text without the quotes; when these instructions have run, the set has exactly these texts besides what was in it.
  A value is later looked up there by the code for IN itself.\<close>

theorem in_list_builds_set:
  assumes "\<forall>x \<in> set xs. literal_text x \<noteq> None" and "cursors_ok slist p"
    and "resolve_ids sel slist elist l p = Some (False, l', p)" and "binv (gen_vm (pg p))" and "ts = map (\<lambda>x. the (literal_text x)) xs"
  shows "\<exists>q. resolve_ids sel slist elist (Expr ''TK_IN'' d (Some l) r (Some xs) tok it ic ia None) p
      = Some (False, Expr ''TK_IN'' d (Some l') r (Some xs) tok (pnSet p) ic ia None, q)
    \<and> pnSet q = pnSet p + 1 \<and> program (gen_vm (pg q)) = program (gen_vm (pg p)) @ map (set_insert_op (pnSet p)) ts
    \<and> (\<forall>E s. sets_ok s \<longrightarrow> 0 \<le> pnSet p \<longrightarrow> (\<forall>t \<in> set ts. short (t @ [NUL])) \<longrightarrow>
         (\<exists>u. insert_texts E (pnSet p) ts s = Some u \<and> stack u = stack s \<and>
            (\<forall>k. short k \<longrightarrow> set_member u (pnSet p) k =
               (if k \<in> (\<lambda>t. t @ [NUL]) ` set ts then Some True else set_member s (pnSet p) k))))"
proof -
  obtain g where g: "members_code (pnSet p) xs (pg p) = Some g" "ext (pg p) (map (set_insert_op (pnSet p)) ts) g"
    using members_ext [OF assms(4,1), of "pnSet p"] unfolding assms(5) by (auto simp: appends_def o_def)
  have "resolve_ids sel slist elist (Expr ''TK_IN'' d (Some l) r (Some xs) tok it ic ia None) p
      = Some (False, Expr ''TK_IN'' d (Some l') r (Some xs) tok (pnSet p) ic ia None, p\<lparr>pnSet := pnSet p + 1, pg := g\<rparr>)"
    using assms(2,3) members_checked [OF assms(1), of p] g(1) by (simp add: in_prepare_def with_gen_def Let_def)
  moreover have "\<exists>u. insert_texts E (pnSet p) ts s = Some u \<and> stack u = stack s \<and>
      (\<forall>k. short k \<longrightarrow> set_member u (pnSet p) k = (if k \<in> (\<lambda>t. t @ [NUL]) ` set ts then Some True else set_member s (pnSet p) k))"
    if s: "sets_ok s" "0 \<le> pnSet p" "\<forall>t \<in> set ts. short (t @ [NUL])" for E :: "('b, 'c, 'd) venv" and s
  proof -
    obtain u where u: "insert_texts E (pnSet p) ts s = Some u" "\<exists>ss b. u = s\<lparr>aSet := ss, brk := b\<rparr>"
        "\<forall>k. short k \<longrightarrow> set_member u (pnSet p) k = (if \<exists>t \<in> set ts. k = t @ [NUL] then Some True else set_member s (pnSet p) k)"
      using insert_texts_spec [OF s, of E] by blast
    moreover have "stack u = stack s" using u(2) by auto
    ultimately show ?thesis by (intro exI [of _ u]) (simp add: image_iff)
  qed
  ultimately show ?thesis using g(2) by (simp add: ext_def)
qed

definition test_string :: "cstring \<Rightarrow> expr" where
  "test_string z = Expr ''TK_STRING'' 0 None None None (Some z) 0 0 0 None"

theorem in_list_builds_set_witness:
  "\<exists>q u. resolve_ids (\<lambda>_ _ _ _. None) [] None (Expr ''TK_IN'' 0 (Some (test_string [CHR 0x27, CHR ''x'', CHR 0x27])) None
        (Some [test_string [CHR 0x27, CHR ''a'', CHR 0x27], test_string [CHR 0x27, CHR ''b'', CHR 0x27]]) None 7 0 0 None) (test_rp None)
      = Some (False, Expr ''TK_IN'' 0 (Some (test_string [CHR 0x27, CHR ''x'', CHR 0x27])) None
        (Some [test_string [CHR 0x27, CHR ''a'', CHR 0x27], test_string [CHR 0x27, CHR ''b'', CHR 0x27]]) None 0 0 0 None, q)
    \<and> insert_texts (test_env :: (unit, rat, rat) venv) 0 [''a'', ''b''] (vdbe_new d0) = Some u
    \<and> set_member u 0 (''b'' @ [NUL]) = Some True"
proof -
  let ?xs = "[test_string [CHR 0x27, CHR ''a'', CHR 0x27], test_string [CHR 0x27, CHR ''b'', CHR 0x27]]"
    and ?l = "test_string [CHR 0x27, CHR ''x'', CHR 0x27]"
  have t: "literal_text (test_string [CHR 0x27, CHR ''a'', CHR 0x27]) = Some ''a''" "literal_text (test_string [CHR 0x27, CHR ''b'', CHR 0x27]) = Some ''b''"
    by code_simp+
  have s: "pnSet (test_rp None) = 0" by (simp add: test_rp_def)
  have o: "sets_ok (vdbe_new d0 :: (unit, rat) vdbe)" by (simp add: sets_ok_def vdbe_new_def)
  have l: "resolve_ids (\<lambda>_ _ _ _. None) [] None ?l (test_rp None) = Some (False, ?l, test_rp None)"
    by (simp add: test_string_def cursors_ok_def c_at_def)
  have x: "\<forall>x \<in> set ?xs. literal_text x \<noteq> None" "[''a'', ''b''] = map (\<lambda>x. the (literal_text x)) ?xs" using t by simp_all
  have c: "cursors_ok [] (test_rp None)" "binv (gen_vm (pg (test_rp None)))"
    using gen_ok_binv [OF test_gen_ok] by (simp_all add: cursors_ok_def)
  obtain q where q: "resolve_ids (\<lambda>_ _ _ _. None) [] None (Expr ''TK_IN'' 0 (Some ?l) None (Some ?xs) None 7 0 0 None) (test_rp None)
      = Some (False, Expr ''TK_IN'' 0 (Some ?l) None (Some ?xs) None 0 0 0 None, q)"
    and B: "\<forall>(E :: (unit, rat, rat) venv) s. sets_ok s \<longrightarrow> (0 :: int) \<le> 0 \<longrightarrow> (\<forall>t \<in> set [''a'', ''b'']. short (t @ [NUL])) \<longrightarrow>
      (\<exists>u. insert_texts E 0 [''a'', ''b''] s = Some u \<and> stack u = stack s \<and>
        (\<forall>k. short k \<longrightarrow> set_member u 0 k = (if k \<in> (\<lambda>t. t @ [NUL]) ` set [''a'', ''b''] then Some True else set_member s 0 k)))"
    using in_list_builds_set [OF x(1) c(1) l c(2) x(2), of 0 None None 7 0 0] unfolding s by blast
  have "\<forall>t \<in> set [''a'', ''b'']. short (t @ [NUL])" "short (''b'' @ [NUL])" by (simp_all add: short_def)
  with B o obtain u where "insert_texts (test_env :: (unit, rat, rat) venv) 0 [''a'', ''b''] (vdbe_new d0) = Some u"
      "set_member u 0 (''b'' @ [NUL]) = Some True" by fastforce
  with q show ?thesis by blast
qed

end
