(* ===== verification/StrMatch.thy ===== *)
theory StrMatch
  imports CStr
begin

text \<open>
  The pattern matchers of \<^verbatim>\<open>src/common/str.c\<close>: \<^verbatim>\<open>__str_like_cmp\<close> for LIKE and
  \<^verbatim>\<open>__str_glob_cmp\<close> for GLOB, with the character macros of both encodings.  The flag
  \<open>u\<close> selects \<^verbatim>\<open>DBSQL_UTF8_ENCODING\<close>; without it a character is a byte.
\<close>

section \<open>Characters\<close>

definition is_continuation :: "char \<Rightarrow> bool" where
  "is_continuation c \<longleftrightarrow> char_code c div 64 = 2"

definition next_char :: "bool \<Rightarrow> cstring \<Rightarrow> cstring" where
  "next_char u s = (if u then dropWhile is_continuation (tl s) else tl s)"

definition utf8_init_val :: "nat list" where
  "utf8_init_val = [
     0, 1, 2, 3, 4, 5, 6, 7, 8, 9, 10, 11, 12, 13, 14, 15,
     16, 17, 18, 19, 20, 21, 22, 23, 24, 25, 26, 27, 28, 29, 30, 31,
     32, 33, 34, 35, 36, 37, 38, 39, 40, 41, 42, 43, 44, 45, 46, 47,
     48, 49, 50, 51, 52, 53, 54, 55, 56, 57, 58, 59, 60, 61, 62, 63,
     64, 65, 66, 67, 68, 69, 70, 71, 72, 73, 74, 75, 76, 77, 78, 79,
     80, 81, 82, 83, 84, 85, 86, 87, 88, 89, 90, 91, 92, 93, 94, 95,
     96, 97, 98, 99, 100, 101, 102, 103, 104, 105, 106, 107, 108, 109, 110, 111,
     112, 113, 114, 115, 116, 117, 118, 119, 120, 121, 122, 123, 124, 125, 126, 127,
     128, 129, 130, 131, 132, 133, 134, 135, 136, 137, 138, 139, 140, 141, 142, 143,
     144, 145, 146, 147, 148, 149, 150, 151, 152, 153, 154, 155, 156, 157, 158, 159,
     160, 161, 162, 163, 164, 165, 166, 167, 168, 169, 170, 171, 172, 173, 174, 175,
     176, 177, 178, 179, 180, 181, 182, 183, 184, 185, 186, 187, 188, 189, 190, 191,
     0, 1, 2, 3, 4, 5, 6, 7, 8, 9, 10, 11, 12, 13, 14, 15,
     16, 17, 18, 19, 20, 21, 22, 23, 24, 25, 26, 27, 28, 29, 30, 31,
     0, 1, 2, 3, 4, 5, 6, 7, 8, 9, 10, 11, 12, 13, 14, 15,
     0, 1, 2, 3, 4, 5, 6, 7, 0, 1, 2, 3, 0, 1, 254, 255]"

definition utf8_to_int :: "cstring \<Rightarrow> i32" where
  "utf8_to_int z = (case z of [] \<Rightarrow> 0
     | c # r \<Rightarrow> foldl (\<lambda>v b. push_bit 6 v OR of_nat (char_code b mod 64))
         (of_nat (utf8_init_val ! char_code c)) (takeWhile is_continuation r))"

text \<open>The value of a character as the matcher holds it: a C \<^verbatim>\<open>char\<close>, which is signed.\<close>

definition schar :: "nat \<Rightarrow> int" where
  "schar n = (if n mod 256 < 128 then int (n mod 256) else int (n mod 256) - 256)"

definition char_val :: "bool \<Rightarrow> cstring \<Rightarrow> int" where
  "char_val u z = schar (if u then unat (utf8_to_int z) else char_code (c_at z 0))"

lemma length_next_char [simp]: "s \<noteq> [] \<Longrightarrow> length (next_char u s) < length s"
proof -
  assume "s \<noteq> []"
  then have "length (tl s) < length s" by simp
  then show ?thesis
    using length_dropWhile_le [of is_continuation "tl s"] by (simp add: next_char_def)
qed

lemma in_set_tlD: "x \<in> set (tl p) \<Longrightarrow> x \<in> set p"
  by (cases p) auto

lemma length_next_char_le [simp]: "length (next_char u s) \<le> length s"
  by (cases s) (auto simp: next_char_def intro: le_trans [OF length_dropWhile_le])

section \<open>LIKE\<close>

text \<open>The run of wild cards after a percent sign: each underscore consumes a character.\<close>

fun like_skip :: "bool \<Rightarrow> cstring \<Rightarrow> cstring \<Rightarrow> (cstring \<times> cstring) option" where
  "like_skip u [] s = Some ([], s)"
| "like_skip u (c # p) s =
     (if c = CHR ''%'' then like_skip u p s
      else if c = CHR ''_'' then (if s = [] then None else like_skip u p (next_char u s))
      else Some (c # p, s))"

lemma like_skip_length: "like_skip u p s = Some (p', s') \<Longrightarrow> length p' \<le> length p"
  by (induction u p s rule: like_skip.induct) (auto split: if_splits)

lemma dropWhile_Cons_length: "dropWhile P s = d # s' \<Longrightarrow> Suc (length s') \<le> length s"
  by (metis length_Cons length_dropWhile_le)

function (sequential) like_cmp :: "bool \<Rightarrow> cstring \<Rightarrow> cstring \<Rightarrow> bool"
  and like_scan :: "bool \<Rightarrow> cstring \<Rightarrow> cstring \<Rightarrow> bool" where
  "like_cmp u [] s = (s = [])"
| "like_cmp u (c # p) s =
     (if c = CHR ''%'' then
        (case like_skip u p s of None \<Rightarrow> False
         | Some (p', s') \<Rightarrow> if p' = [] then True else like_scan u p' s')
      else if c = CHR ''_'' then
        (if s = [] then False else like_cmp u p (next_char u s))
      else (case s of [] \<Rightarrow> False
            | d # s' \<Rightarrow> if lower c \<noteq> lower d then False else like_cmp u p s'))"
| "like_scan u p s =
     (case dropWhile (\<lambda>d. lower d \<noteq> lower (hd p)) s of [] \<Rightarrow> False
      | d # s' \<Rightarrow> if like_cmp u p (d # s') then True else like_scan u p (next_char u (d # s')))"
  by pat_completeness auto

termination
proof (relation "measures
    [\<lambda>x. case x of Inl (u, p, s) \<Rightarrow> length p | Inr (u, p, s) \<Rightarrow> length p,
     \<lambda>x. case x of Inl (u, p, s) \<Rightarrow> length s | Inr (u, p, s) \<Rightarrow> length s,
     \<lambda>x. case x of Inl _ \<Rightarrow> 0 | Inr _ \<Rightarrow> 1]", goal_cases)
  case (2 u c p s x p' s')
  then show ?case using like_skip_length [of u p s p' s'] by auto
next
  case (5 u p s d s')
  then have "Suc (length s') \<le> length s" by (auto dest: dropWhile_Cons_length)
  then show ?case by (auto simp: less_le)
next
  case (6 u p s d s')
  have "length (next_char u (d # s')) < length (d # s')"
    by (rule length_next_char) simp
  moreover from 6 have "Suc (length s') \<le> length s" by (auto dest: dropWhile_Cons_length)
  ultimately show ?case by auto
qed auto

text \<open>The meaning of a LIKE pattern over bytes: \<^verbatim>\<open>%\<close> stands for any sequence, \<^verbatim>\<open>_\<close> for one
  byte, every other byte for itself up to ASCII case.\<close>

fun like_spec :: "cstring \<Rightarrow> cstring \<Rightarrow> bool" where
  "like_spec [] s = (s = [])"
| "like_spec (c # p) s =
     (if c = CHR ''%'' then (\<exists>k \<le> length s. like_spec p (drop k s))
      else if c = CHR ''_'' then s \<noteq> [] \<and> like_spec p (tl s)
      else s \<noteq> [] \<and> lower c = lower (hd s) \<and> like_spec p (tl s))"

text \<open>Some suffix of the string satisfies a predicate.\<close>

definition ex_suffix :: "('a list \<Rightarrow> bool) \<Rightarrow> 'a list \<Rightarrow> bool" where
  "ex_suffix P s \<longleftrightarrow> (\<exists>k \<le> length s. P (drop k s))"

lemma ex_suffix_simps [simp]:
  "ex_suffix P [] = P []"
  "ex_suffix P (c # s) = (P (c # s) \<or> ex_suffix P s)"
proof -
  show "ex_suffix P (c # s) = (P (c # s) \<or> ex_suffix P s)"
  proof
    assume "ex_suffix P (c # s)"
    then obtain k where "k \<le> Suc (length s)" "P (drop k (c # s))"
      by (auto simp: ex_suffix_def)
    then show "P (c # s) \<or> ex_suffix P s"
      by (cases k) (auto simp: ex_suffix_def)
  next
    assume "P (c # s) \<or> ex_suffix P s"
    then show "ex_suffix P (c # s)"
      unfolding ex_suffix_def by (metis Suc_le_mono drop0 drop_Suc_Cons le0 length_Cons)
  qed
qed (simp add: ex_suffix_def)

lemma ex_suffix_idem: "ex_suffix (ex_suffix P) s = ex_suffix P s"
  by (induction s) auto

lemma ex_suffix_tl: "ex_suffix (\<lambda>t. t \<noteq> [] \<and> P (tl t)) s = (s \<noteq> [] \<and> ex_suffix P (tl s))"
proof (induction s)
  case (Cons c s)
  then show ?case by (cases s) auto
qed simp

lemma ex_suffix_dropWhile:
  "(\<And>d t. R d \<Longrightarrow> \<not> Q (d # t)) \<Longrightarrow> ex_suffix Q (dropWhile R s) = ex_suffix Q s"
  by (induction s) auto

lemma like_spec_percent: "like_spec (CHR ''%'' # p) s = ex_suffix (like_spec p) s"
  by (simp add: ex_suffix_def)

lemma like_skip_spec:
  "ex_suffix (like_spec p) s =
     (case like_skip False p s of None \<Rightarrow> False | Some (p', s') \<Rightarrow> ex_suffix (like_spec p') s')"
proof (induction "False" p s rule: like_skip.induct)
  case (2 c p s)
  consider "c = CHR ''%''" | "c = CHR ''_''" | "c \<noteq> CHR ''%''" "c \<noteq> CHR ''_''" by blast
  then show ?case
  proof cases
    case 1
    then have "like_spec (c # p) = ex_suffix (like_spec p)"
      using like_spec_percent by blast
    then show ?thesis using 1 2 by (simp add: ex_suffix_idem)
  next
    case 2
    then have "like_spec (c # p) = (\<lambda>t. t \<noteq> [] \<and> like_spec p (tl t))" by auto
    then show ?thesis
      using 2 "2.hyps"(2) by (simp add: ex_suffix_tl next_char_def del: like_spec.simps)
  qed simp
qed simp

lemma like_skip_literal:
  "like_skip u p s = Some (p', s') \<Longrightarrow> p' \<noteq> [] \<Longrightarrow> hd p' \<noteq> CHR ''%'' \<and> hd p' \<noteq> CHR ''_''"
  by (induction u p s rule: like_skip.induct) (auto split: if_splits)

lemma like_spec_literal:
  "p \<noteq> [] \<Longrightarrow> hd p \<noteq> CHR ''%'' \<Longrightarrow> hd p \<noteq> CHR ''_'' \<Longrightarrow>
    like_spec p s = (s \<noteq> [] \<and> lower (hd p) = lower (hd s) \<and> like_spec (tl p) (tl s))"
  by (cases p) auto

lemma like_cmp_scan_spec:
  "\<not> u \<Longrightarrow> like_cmp u p s = like_spec p s"
  "\<not> u \<Longrightarrow> p \<noteq> [] \<Longrightarrow> hd p \<noteq> CHR ''%'' \<Longrightarrow> hd p \<noteq> CHR ''_'' \<Longrightarrow>
     like_scan u p s = ex_suffix (like_spec p) s"
proof (induction u p s and u p s rule: like_cmp_like_scan.induct)
  case (1 u s)
  then show ?case by simp
next
  case (2 u c p s)
  show ?case
  proof (cases "c = CHR ''%''")
    case True
    have "like_cmp u (c # p) s = ex_suffix (like_spec p) s"
    proof (cases "like_skip u p s")
      case None
      then show ?thesis using True 2 like_skip_spec [of p s] by simp
    next
      case (Some ps)
      obtain p' s' where ps: "ps = (p', s')" by (cases ps)
      have nil: "ex_suffix (like_spec []) s'"
        by (induction s') auto
      show ?thesis
        using True Some ps nil 2 like_skip_spec [of p s] like_skip_literal [of u p s p' s'] by auto
    qed
    then show ?thesis using True like_spec_percent by simp
  next
    case False
    then show ?thesis using 2 by (cases s) (auto simp: next_char_def)
  qed
next
  case (3 u p s)
  let ?R = "\<lambda>d. lower d \<noteq> lower (hd p)"
  have lit: "\<not> like_spec p (d # t)" if "?R d" for d t
    using that 3 like_spec_literal by auto
  have "ex_suffix (like_spec p) s = ex_suffix (like_spec p) (dropWhile ?R s)"
    by (rule ex_suffix_dropWhile [symmetric]) (rule lit)
  moreover have "\<not> like_spec p []"
    using 3 like_spec_literal by auto
  ultimately show ?case
    using 3 by (cases "dropWhile ?R s") (simp_all add: next_char_def del: dropWhile_eq_Nil_conv)
qed

text \<open>C26: on byte strings the LIKE matcher, with its look-ahead for the byte after a percent
  sign, decides exactly the meaning of the pattern.\<close>

theorem like_cmp_spec: "like_cmp False p s = like_spec p s"
  by (rule like_cmp_scan_spec(1)) simp

section \<open>GLOB\<close>

fun glob_skip :: "bool \<Rightarrow> cstring \<Rightarrow> cstring \<Rightarrow> (cstring \<times> cstring) option" where
  "glob_skip u [] s = Some ([], s)"
| "glob_skip u (c # p) s =
     (if c = CHR ''*'' then glob_skip u p s
      else if c = CHR ''?'' then (if s = [] then None else glob_skip u p (next_char u s))
      else Some (c # p, s))"

text \<open>The loop over a bracketed list: the result is whether the character was seen and the
  pattern at the closing bracket; \<open>None\<close> when the pattern ends first.\<close>

function glob_class :: "bool \<Rightarrow> int \<Rightarrow> int \<Rightarrow> bool \<Rightarrow> cstring \<Rightarrow> (bool \<times> cstring) option" where
  "glob_class u c prior seen pat =
     (let c2 = char_val u pat in
      if pat = [] \<or> c2 = 0 then None
      else if c2 = 93 then Some (seen, pat)
      else if c2 = 45 \<and> c_at pat 1 \<noteq> CHR '']'' \<and> c_at pat 1 \<noteq> NUL \<and> prior > 0 then
        glob_class u c 0 (seen \<or> (prior \<le> c \<and> c \<le> char_val u (tl pat))) (next_char u (tl pat))
      else glob_class u c c2 (seen \<or> c = c2) (next_char u pat))"
  by pat_completeness auto
termination
proof (relation "measure (\<lambda>(u, c, prior, seen, pat). length pat)", goal_cases)
  case (2 u c prior seen pat x)
  have "length (next_char u (tl pat)) \<le> length (tl pat)"
    by (rule length_next_char_le)
  also have "\<dots> < length pat" using 2 by simp
  finally show ?case by simp
qed auto

declare glob_class.simps [simp del]

lemma glob_class_suffix:
  "glob_class u c prior seen pat = Some (b, r) \<Longrightarrow> length r \<le> length pat \<and> set r \<subseteq> set pat"
proof (induction u c prior seen pat rule: glob_class.induct)
  case (1 u c prior seen pat)
  have nc: "set (next_char u p) \<subseteq> set p" for p
    by (cases p) (auto simp: next_char_def dest: set_dropWhileD)
  have tlp: "length (tl pat) \<le> length pat" "set (tl pat) \<subseteq> set pat"
    by (cases pat; auto)+
  have l1: "length (next_char u (tl pat)) \<le> length pat"
    using le_trans [OF length_next_char_le tlp(1)] .
  have s1: "set (next_char u (tl pat)) \<subseteq> set pat"
    using nc tlp(2) by blast
  let ?c2 = "char_val u pat"
  let ?range = "?c2 = 45 \<and> c_at pat 1 \<noteq> CHR '']'' \<and> c_at pat 1 \<noteq> NUL \<and> prior > 0"
  have live: "\<not> (pat = [] \<or> ?c2 = 0)"
    using "1.prems" by (auto simp: glob_class.simps [of u c prior seen pat] Let_def)
  consider "?c2 = 93" | "?c2 \<noteq> 93" "?range" | "?c2 \<noteq> 93" "\<not> ?range" by blast
  then show ?case
  proof cases
    case 1
    then show ?thesis
      using "1.prems" live by (simp add: glob_class.simps [of u c prior seen pat])
  next
    case 2
    then show ?thesis
      using "1.prems" "1.IH"(1) [OF refl live] live l1 s1
      by (simp add: glob_class.simps [of u c prior seen pat]) (meson le_trans subset_trans)
  next
    case 3
    then have "glob_class u c prior seen pat = glob_class u c ?c2 (seen \<or> c = ?c2) (next_char u pat)"
      using live by (subst glob_class.simps) (auto simp: Let_def)
    then have "length r \<le> length (next_char u pat) \<and> set r \<subseteq> set (next_char u pat)"
      using "1.prems" "1.IH"(2) [OF refl live] 3 by simp
    then show ?thesis
      using nc [of pat] length_next_char_le [of u pat] by (meson le_trans subset_trans)
  qed
qed

definition glob_bracket :: "bool \<Rightarrow> cstring \<Rightarrow> cstring \<Rightarrow> (cstring \<times> cstring) option" where
  "glob_bracket u p s =
     (let c = char_val u s in
      if c = 0 then None
      else
        (let inv = (c_at p 0 = CHR ''^'');
             p1 = (if inv then tl p else p);
             lit = (c_at p1 0 = CHR '']'');
             p2 = (if lit then tl p1 else p1)
         in case glob_class u c 0 (lit \<and> c = 93) p2 of None \<Rightarrow> None
            | Some (seen, r) \<Rightarrow> if seen = inv then None else Some (tl r, next_char u s)))"

lemma glob_bracket_suffix:
  assumes "glob_bracket u p s = Some (p', s')"
  shows "length p' \<le> length p" "set p' \<subseteq> set p"
proof -
  define p1 where "p1 = (if c_at p 0 = CHR ''^'' then tl p else p)"
  define q where "q = (if c_at p1 0 = CHR '']'' then tl p1 else p1)"
  have q: "q = p \<or> q = tl p \<or> q = tl (tl p)"
    by (simp add: q_def p1_def)
  obtain seen b r where r: "glob_class u (char_val u s) 0 seen q = Some (b, r)" and p': "p' = tl r"
    using assms unfolding glob_bracket_def Let_def p1_def [symmetric] q_def [symmetric]
    by (auto split: if_splits option.splits)
  have "length q \<le> length p" "set q \<subseteq> set p"
    using q by (auto dest: in_set_tlD)
  moreover have "length r \<le> length q" "set r \<subseteq> set q"
    using glob_class_suffix [OF r] by auto
  moreover have "set (tl r) \<subseteq> set r" by (cases r) auto
  ultimately show "length p' \<le> length p" "set p' \<subseteq> set p"
    using p' by auto
qed

lemma glob_skip_suffix:
  "glob_skip u p s = Some (p', s') \<Longrightarrow> length p' \<le> length p \<and> set p' \<subseteq> set p"
  by (induction u p s rule: glob_skip.induct) (auto split: if_splits)

lemma glob_rest_length:
  "(if b then s else dropWhile P s) = d # s' \<Longrightarrow> Suc (length s') \<le> length s"
  by (auto dest: dropWhile_Cons_length split: if_splits)

text \<open>A literal pattern byte is compared as a signed \<^verbatim>\<open>char\<close> with an unsigned string byte.\<close>

function (sequential) glob_cmp :: "bool \<Rightarrow> cstring \<Rightarrow> cstring \<Rightarrow> bool"
  and glob_scan :: "bool \<Rightarrow> cstring \<Rightarrow> cstring \<Rightarrow> bool" where
  "glob_cmp u [] s = (s = [])"
| "glob_cmp u (c # p) s =
     (if c = CHR ''*'' then
        (case glob_skip u p s of None \<Rightarrow> False
         | Some (p', s') \<Rightarrow> if p' = [] then True else glob_scan u p' s')
      else if c = CHR ''?'' then
        (if s = [] then False else glob_cmp u p (next_char u s))
      else if c = CHR ''['' then
        (case glob_bracket u p s of None \<Rightarrow> False | Some (p', s') \<Rightarrow> glob_cmp u p' s')
      else (case s of [] \<Rightarrow> False
            | d # s' \<Rightarrow>
               if schar (char_code c) \<noteq> int (char_code d) then False else glob_cmp u p s'))"
| "glob_scan u p s =
     (case (if hd p = CHR ''['' then s else dropWhile (\<lambda>d. d \<noteq> hd p) s) of [] \<Rightarrow> False
      | d # s' \<Rightarrow> if glob_cmp u p (d # s') then True else glob_scan u p (next_char u (d # s')))"
  by pat_completeness auto

termination
proof (relation "measures
    [\<lambda>x. case x of Inl (u, p, s) \<Rightarrow> length p | Inr (u, p, s) \<Rightarrow> length p,
     \<lambda>x. case x of Inl (u, p, s) \<Rightarrow> length s | Inr (u, p, s) \<Rightarrow> length s,
     \<lambda>x. case x of Inl _ \<Rightarrow> 0 | Inr _ \<Rightarrow> 1]", goal_cases)
  case (2 u c p s x p' s')
  then show ?case using glob_skip_suffix [of u p s p' s'] by auto
next
  case (4 u c p s x p' s')
  then show ?case using glob_bracket_suffix(1) [of u p s p' s'] by auto
next
  case (6 u p s d s')
  then have "Suc (length s') \<le> length s" by (auto dest: glob_rest_length)
  then show ?case by (auto simp: less_le)
next
  case (7 u p s d s')
  have "length (next_char u (d # s')) < length (d # s')"
    by (rule length_next_char) simp
  moreover from 7 have "Suc (length s') \<le> length s" by (auto dest: glob_rest_length)
  ultimately show ?case by auto
qed auto

text \<open>The meaning of a GLOB pattern over bytes; a bracketed list is read as the matcher
  reads it.\<close>

function glob_spec :: "cstring \<Rightarrow> cstring \<Rightarrow> bool" where
  "glob_spec [] s = (s = [])"
| "glob_spec (c # p) s =
     (if c = CHR ''*'' then (\<exists>k \<le> length s. glob_spec p (drop k s))
      else if c = CHR ''?'' then s \<noteq> [] \<and> glob_spec p (tl s)
      else if c = CHR ''['' then
        (case glob_bracket False p s of None \<Rightarrow> False | Some (p', s') \<Rightarrow> glob_spec p' s')
      else s \<noteq> [] \<and> c = hd s \<and> glob_spec p (tl s))"
  by pat_completeness auto
termination
proof (relation "measure (\<lambda>(p, s). length p)", goal_cases)
  case (4 c p s x p' s')
  then show ?case using glob_bracket_suffix(1) [of False p s p' s'] by auto
qed auto

definition ascii :: "cstring \<Rightarrow> bool" where
  "ascii p \<longleftrightarrow> (\<forall>c \<in> set p. char_code c < 128)"

lemma schar_ascii: "char_code c < 128 \<Longrightarrow> schar (char_code c) = int (char_code d) \<longleftrightarrow> c = d"
  by (auto simp: schar_def)

lemma glob_spec_star: "glob_spec (CHR ''*'' # p) s = ex_suffix (glob_spec p) s"
  by (simp add: ex_suffix_def)

lemma glob_skip_spec:
  "ex_suffix (glob_spec p) s =
     (case glob_skip False p s of None \<Rightarrow> False | Some (p', s') \<Rightarrow> ex_suffix (glob_spec p') s')"
proof (induction "False" p s rule: glob_skip.induct)
  case (2 c p s)
  consider "c = CHR ''*''" | "c = CHR ''?''" | "c \<noteq> CHR ''*''" "c \<noteq> CHR ''?''" by blast
  then show ?case
  proof cases
    case 1
    then have "glob_spec (c # p) = ex_suffix (glob_spec p)"
      using glob_spec_star by blast
    then show ?thesis using 1 2 by (simp add: ex_suffix_idem)
  next
    case 2
    then have "glob_spec (c # p) = (\<lambda>t. t \<noteq> [] \<and> glob_spec p (tl t))" by auto
    then show ?thesis
      using 2 "2.hyps"(2) by (simp add: ex_suffix_tl next_char_def del: glob_spec.simps)
  qed simp
qed simp

lemma glob_skip_literal:
  "glob_skip u p s = Some (p', s') \<Longrightarrow> p' \<noteq> [] \<Longrightarrow> hd p' \<noteq> CHR ''*'' \<and> hd p' \<noteq> CHR ''?''"
  by (induction u p s rule: glob_skip.induct) (auto split: if_splits)

lemma glob_spec_first:
  "p \<noteq> [] \<Longrightarrow> hd p \<noteq> CHR ''*'' \<Longrightarrow> hd p \<noteq> CHR ''?'' \<Longrightarrow>
    glob_spec p s \<Longrightarrow> s \<noteq> [] \<and> (hd p \<noteq> CHR ''['' \<longrightarrow> hd p = hd s)"
  by (cases p; cases s) (auto simp: glob_bracket_def char_val_def c_at_def schar_def split: if_splits)

lemma ascii_mono: "ascii p \<Longrightarrow> set q \<subseteq> set p \<Longrightarrow> ascii q"
  by (auto simp: ascii_def)

lemma glob_cmp_scan_spec:
  "\<not> u \<Longrightarrow> ascii p \<Longrightarrow> glob_cmp u p s = glob_spec p s"
  "\<not> u \<Longrightarrow> ascii p \<Longrightarrow> p \<noteq> [] \<Longrightarrow> hd p \<noteq> CHR ''*'' \<Longrightarrow> hd p \<noteq> CHR ''?'' \<Longrightarrow>
     glob_scan u p s = ex_suffix (glob_spec p) s"
proof (induction u p s and u p s rule: glob_cmp_glob_scan.induct)
  case (1 u s)
  then show ?case by simp
next
  case (2 u c p s)
  have asc: "ascii p" "char_code c < 128" and u: "u = False"
    using "2.prems" by (auto simp: ascii_def)
  consider "c = CHR ''*''" | "c = CHR ''?''" | "c = CHR ''[''"
    | "c \<noteq> CHR ''*''" "c \<noteq> CHR ''?''" "c \<noteq> CHR ''[''" by blast
  then show ?case
  proof cases
    case 1
    have "glob_cmp u (c # p) s = ex_suffix (glob_spec p) s"
    proof (cases "glob_skip u p s")
      case None
      then show ?thesis using 1 u glob_skip_spec [of p s] by simp
    next
      case (Some ps)
      obtain p' s' where ps: "ps = (p', s')" by (cases ps)
      have asc': "ascii p'"
        using Some ps glob_skip_suffix [of u p s p' s'] ascii_mono [OF asc(1)] by auto
      have nil: "ex_suffix (glob_spec []) s'"
        by (induction s') auto
      show ?thesis
        using 1 Some ps nil u asc' "2.IH"(1) [OF 1 Some ps [symmetric]] glob_skip_spec [of p s]
          glob_skip_literal [of u p s p' s'] by auto
    qed
    then show ?thesis using 1 glob_spec_star by simp
  next
    case 2
    then show ?thesis using "2.IH"(2) asc u by (cases s) (auto simp: next_char_def)
  next
    case 3
    then show ?thesis
      using "2.IH"(3) asc u glob_bracket_suffix(2) [of u p s] ascii_mono [OF asc(1)]
      by (auto split: option.split)
  next
    case 4
    then show ?thesis using "2.IH"(4) asc u by (cases s) (auto simp: schar_ascii)
  qed
next
  case (3 u p s)
  let ?t = "if hd p = CHR ''['' then s else dropWhile (\<lambda>d. d \<noteq> hd p) s"
  have first: "\<not> glob_spec p (d # t)" if "hd p \<noteq> CHR ''[''" "d \<noteq> hd p" for d t
    using that "3.prems" glob_spec_first [of p "d # t"] by auto
  have "ex_suffix (glob_spec p) s = ex_suffix (glob_spec p) ?t"
    using ex_suffix_dropWhile [of "\<lambda>d. d \<noteq> hd p" "glob_spec p" s] first by auto
  moreover have "\<not> glob_spec p []"
    using "3.prems" glob_spec_first [of p "[]"] by auto
  ultimately have suf: "ex_suffix (glob_spec p) s = ex_suffix (glob_spec p) ?t"
      "\<not> glob_spec p []" by blast+
  show ?case
  proof (cases ?t)
    case Nil
    then show ?thesis
      using suf by (subst glob_scan.simps) (simp only: list.case ex_suffix_simps)
  next
    case (Cons d s')
    have "glob_scan u p s =
        (if glob_cmp u p (d # s') then True else glob_scan u p (next_char u (d # s')))"
      by (subst glob_scan.simps) (simp only: Cons list.case)
    moreover have "next_char u (d # s') = s'"
      using "3.prems" by (simp add: next_char_def)
    moreover have "glob_cmp u p (d # s') = glob_spec p (d # s')"
      using "3.IH"(1) [OF Cons] "3.prems" by blast
    ultimately show ?thesis
      using suf(1) Cons "3.IH"(2) [OF Cons] "3.prems" by (simp del: glob_scan.simps)
  qed
qed



text \<open>a literal byte of 128 or more in a GLOB pattern matches no byte at all, not even
  itself, because the pattern byte is held in a signed \<^verbatim>\<open>char\<close>.\<close>

theorem glob_high_byte_never_matches:
  assumes "128 \<le> char_code c"
  shows "\<not> glob_cmp u (c # p) s"
proof -
  have "c \<noteq> CHR ''*''" "c \<noteq> CHR ''?''" "c \<noteq> CHR ''[''"
    using assms by (auto simp: char_code_def)
  moreover have "schar (char_code c) < 0"
    using assms char_code_less [of c] by (simp add: schar_def)
  ultimately show ?thesis by (cases s) auto
qed

theorem glob_high_byte_never_matches_witness:
  "\<not> glob_cmp True [CHR 0xC3, CHR 0xA9] [CHR 0xC3, CHR 0xA9]"
  by (rule glob_high_byte_never_matches) (simp add: char_code_def)

end
