(* ===== verification/Spec2Isabelle.thy ===== *)
theory Spec2Isabelle
  imports Records StackProps ExecProps StoreProps AggFold TokenProps CompleteProps InList Safety Errors Keys StrMatch
begin

text \<open>
  DBSQL is an SQL engine on top of Berkeley DB.  The text of a statement is split by
  \<^verbatim>\<open>src/sql_tokenize.c\<close>, parsed by a grammar for the generator in \<^verbatim>\<open>src/lemon\<close>, and compiled
  by the \<^verbatim>\<open>src/cg_*.c\<close> files into a program of the virtual machine, which the routines of
  \<^verbatim>\<open>src/vdbe_method.c\<close> assemble and \<^verbatim>\<open>src/vdbe.c\<close> runs.  The machine works on an operand stack of
  loosely typed cells, on records, sorters, lists, sets and aggregates of its own, and through \<^verbatim>\<open>src/sm.c\<close> on the
  tables of the storage library.  \<^verbatim>\<open>src/api.c\<close> and \<^verbatim>\<open>src/safety.c\<close> guard the calls of the
  application, and \<^verbatim>\<open>src/common\<close> holds the strings, numbers, comparisons and hash tables all parts share.

  The theories follow that division, from the bottom up.

  \<^item> Prelude: C integers as 32 bit words, C strings as byte lists, the character tests.
  \<^item> Fpu: the operations on \<^verbatim>\<open>double\<close> as a record; the locale \<open>ieee\<close> has the laws of comparison,
    interpreted on a rational instance in which a special value plays the part of NaN.
  \<^item> CStr (\<^verbatim>\<open>common/str.c\<close>, \<^verbatim>\<open>dbsql_atoi.c\<close>, \<^verbatim>\<open>dbsql_atof.c\<close>): case folding, string assembly,
    quoting, recognition and conversion of numbers.  Proved: the scanner accepts exactly the
    grammar of numbers, the conversion of integers and its round trip with printing.
  \<^item> StrMatch: \<^verbatim>\<open>__str_like_cmp\<close> and \<^verbatim>\<open>__str_glob_cmp\<close>, equivalent to a declarative meaning of
    the patterns.
  \<^item> StrOrder: \<^verbatim>\<open>__str_numeric_cmp\<close> and \<^verbatim>\<open>__str_cmp\<close>; the second is the lexicographic order of
    the terms of a sort key.  The locale \<open>cmp_order\<close> is the contract between a comparison and
    the sorter, interpreted on the byte order and on the order of values.
  \<^item> Hash, HashProps (\<^verbatim>\<open>common/hash.c\<close>): the table as a heap of elements with the pointers of the code, its list
    and its buckets; lookup, insertion and removal refine a finite map, also when memory runs out.
  \<^item> Sorter: the merge sort of \<^verbatim>\<open>OP_Sort\<close>.
  \<^item> Program (\<^verbatim>\<open>vdbe_method.c\<close>): instructions, labels and back-patching, refined to a two-pass
    assembler.
  \<^item> Keys, Safety, Errors: record numbers as keys, the status of a handle, the messages.
  \<^item> Mem, Vdbe, VdbeStore, VdbeAgg (\<^verbatim>\<open>vdbe.c\<close>): the cells, and one definition per case of the switch of
    \<^verbatim>\<open>__vdbe_exec\<close>, named \<open>op_\<close> and the name of the instruction; VdbeAgg has those of GROUP BY and of sets, on the
    tables of Hash.
  \<^item> Exec: dispatch, loop, end labels and the life of a machine from \<^verbatim>\<open>__vdbe_create\<close> to
    \<^verbatim>\<open>__vdbe_finalize\<close>.
  \<^item> Records, StackProps, ExecProps, StoreProps, AggProps, AggFold: what the instructions compute, the invariant
    they all keep, how a run ends, what the stores of the machine give back, and that the loop of GROUP BY folds
    the step function over the rows of each group and visits every group once.
  \<^item> Token, TokenProps, CompleteProps (\<^verbatim>\<open>sql_tokenize.c\<close>): keywords, tokens, the loop that feeds the parser, and the
    test for a complete statement.  The parser is an argument: a step on a token, with its state.
  \<^item> Expr (\<^verbatim>\<open>cg_expr.c\<close>): trees of expressions as the datatype \<open>expr\<close>, whose constructor has the fields of \<^verbatim>\<open>struct expr\<close>;
    constants, types, the table of functions, the check, comparison and the collection of aggregates.
  \<^item> ExprCode: \<^verbatim>\<open>__expr_code\<close>, \<^verbatim>\<open>__expr_if_true\<close> and \<^verbatim>\<open>__expr_if_false\<close>, which call the program builder.
  \<^item> ExprAsm: the instructions these routines append, as a list, by the shape of the tree.  ExprSem: the value \<open>ev\<close> an
    expression means, without a machine.  ExprMach, ExprRun, ExprJump: runs of that code on the machine.  ExprProps:
    the compiled code pushes the meaning, and jumps on it.  ExprTypes: a tree the check accepts has a type and is compiled.
  \<^item> Auth (\<^verbatim>\<open>cg_auth.c\<close>) and Names (\<^verbatim>\<open>__lookup_name\<close>, \<^verbatim>\<open>__expr_resolve_ids\<close>): the schema as far as names need it, the
    authorizer, and the resolution of names; the code of a sub-select comes from \<^verbatim>\<open>__select\<close>, an argument.  NameProps:
    what a name means, that a resolved tree can be checked and compiled, and what the authorizer decides.  InList: the
    code for the list of IN builds the set of its members.
  \<^item> This theory puts check, code generation, program builder and machine together: the first step of a compiled
    \<^verbatim>\<open>SELECT\<close> of an expression delivers a row with its value.

  The state of \<^verbatim>\<open>__vdbe_exec\<close> is the record \<open>vdbe\<close>: its fields are those of \<^verbatim>\<open>struct vdbe\<close>, and the
  local variables \<^verbatim>\<open>pc\<close> and \<^verbatim>\<open>pTos\<close> are the fields \<open>pc\<close> and \<open>stack\<close> (top first).  An instruction gives
  an end of its case: \<open>Break\<close> with the result code, \<open>Return\<close>, or a jump to one of the labels
  \<^verbatim>\<open>abort_due_to_error\<close> and \<^verbatim>\<open>abort_due_to_interrupt\<close>.  The state of the code generator is the record \<open>cgen\<close>, with
  the program being built, the errors, the functions and the aggregates; \<open>rparser\<close> adds the counters of cursors, cells and
  sets, the authorizer and the trigger.  \<open>None\<close> is a failed assertion or an
  access the language leaves undefined; whether assertions of the machine are compiled in is a field of the
  environment \<open>venv\<close>.  The fields \<open>heap\<close> and \<open>brk\<close> stand for the memory of the hash tables: an element is a number, and what
  the allocator answers is an argument where it may fail.

  The loop of the machine takes fuel: one unit is one instruction, and \<open>Running\<close> is the state when it is used up.  A
  program may loop for ever, so no bound is enough for all; properties of a run hold for
  every amount, or say that some amount is enough, and any larger one as well.  The loops over the linked list of a hash table
  are partial functions in the option monad: that they return is proved for the tables the operations build.  The recursions
  of the matchers, the merge sort, the scanners and the code generator are total.

  Not modelled.
  \<^item> The storage manager \<^verbatim>\<open>sm.c\<close> and with it the cursor, table, index and file instructions, which are one parameter of the
    machine: they are sequences of calls of the Berkeley DB library, which is not in the repository.
  \<^item> The grammar and \<^verbatim>\<open>lemon\<close>: the parser is a file the build generates.
  \<^item> The statement code generators (\<^verbatim>\<open>cg_select.c\<close>, \<^verbatim>\<open>cg_where.c\<close>, \<^verbatim>\<open>cg_build.c\<close> and the others) and the public interface:
    what they emit are the cursor instructions, and their state is the schema on disk.
  \<^item> \<^verbatim>\<open>double\<close> arithmetic, \<^verbatim>\<open>strerror\<close>, the SQL functions, dates, formatted printing, the callback and the progress handler:
    parameters, or replacements of routines of the C library.
  \<^item> Failing allocation outside the program builder and the hash tables; the trace output of the interpreter, since it
    changes no state; the shells and the language bindings.
\<close>

section \<open>A statement without tables\<close>

declare runs_fpu [simp del]

text \<open>The machine a finished program belongs to.\<close>

definition load :: "'f vdbe_prog \<Rightarrow> ('f, 'r) vdbe \<Rightarrow> ('f, 'r) vdbe" where
  "load v s = s\<lparr>nOp := nOp v, aOp := aOp v, nLabel := nLabel v, nLabelAlloc := nLabelAlloc v, aLabel := aLabel v, magic := magic v\<rparr>"

text \<open>The program of \<^verbatim>\<open>SELECT e\<close> without tables: the value of one expression, delivered as a row.\<close>

definition value_program :: "expr \<Rightarrow> 'f cgen \<Rightarrow> 'f cgen option" where
  "value_program e p = do { p \<leftarrow> expr_code e p; emit_op OP_Callback 1 0 p }"

definition value_world :: "('f func_def, 'r, 'l) venv \<Rightarrow> ('f func_def \<Rightarrow> cstring option list \<Rightarrow> 'r mem) \<Rightarrow> 'f func_def list hash \<Rightarrow>
    ('f func_def, 'r) vdbe \<Rightarrow> ('f, 'r, 'l) world" where
  "value_world E f H s = \<lparr>wF = fp E, wvm = s, wcol = (\<lambda>_ _. None), wfun = f, wagg = False, wfns = H\<rparr>"

lemma value_world_simps [simp]:
  "wF (value_world E f H s) = fp E" "wvm (value_world E f H s) = s" "wagg (value_world E f H s) = False"
  "wfns (value_world E f H s) = H" "wcol (value_world E f H s) t c = None" "wfun (value_world E f H s) = f"
  by (simp_all add: value_world_def)

definition halt_op :: "'f vdbe_op" where
  "halt_op = mk OP_Halt 0 0"

text \<open>A program that does not end in Halt gets one, and room for as many cells as it has instructions.\<close>

lemma make_ready_runs:
  assumes "prog_wf s" and "nStack s = 0" and "0 \<le> n" and "0 < nOp s" and "opcode (last (program s)) \<noteq> OP_Halt"
    and "rc s = 0" "popStack s = 0" "pc s = 0" "nProgress s = 0" "\<not> explain s"
  obtains t where "vdbe_make_ready n False s = Some t" "program t = program s @ [halt_op]" "nOp t = nOp s + 1" "nOp t \<le> length (aOp t)"
    "nStack t = nOp t" "magic t = MAGIC_RUN" "rc t = 0" "popStack t = 0" "pc t = 0" "nProgress t = 0" "\<not> explain t" "stack t = []"
    "db t = db s" "azVar t = replicate (nat n) None" "rows t = rows s" "aMem t = aMem s" "aSet t = aSet s"
proof -
  have w: "nOp s \<le> length (aOp s)" "magic s = MAGIC_INIT" using assms(1) by (auto simp: prog_wf_def)
  have l: "opcode (aOp s ! (nOp s - 1)) \<noteq> OP_Halt"
    using assms(4,5) w last_conv_nth [of "program s"] by (simp add: program_def split: if_splits) (metis le_zero_eq length_0_conv not_less0)
  define ops where "ops = (if nOp s \<ge> length (aOp s) then aOp s @ replicate (length (aOp s) + 100) zero_op else aOp s)"
  have o: "nOp s < length ops" "take (nOp s) ops = program s" using w by (auto simp: ops_def program_def)
  have a: "vdbe_add_op True s OP_Halt 0 0 = Some (int (nOp s), s\<lparr>nOp := nOp s + 1, aOp := ops[nOp s := halt_op]\<rparr>)"
    using w o by (auto simp: vdbe_add_op_def Let_def ops_def label_target_def halt_op_def mk_def)
  have t: "take (Suc (nOp s)) (ops[nOp s := halt_op]) = program s @ [halt_op]"
    using o by (simp add: take_Suc_conv_app_nth)
  show ?thesis
    by (rule that [of "the (vdbe_make_ready n False s)"])
      (use a t l assms w o in \<open>simp_all add: vdbe_make_ready_def program_def hash_init_def Let_def\<close>)
qed


lemma vdbe_same: "s\<lparr>rc := rc s\<rparr> = s" "s\<lparr>popStack := popStack s\<rparr> = s" "s\<lparr>nProgress := nProgress s\<rparr> = s" "s\<lparr>stack := stack s\<rparr> = s"
  by simp_all

lemma vdbe_swap: "s\<lparr>lpc := x, nProgress := y\<rparr> = s\<lparr>nProgress := y, lpc := x\<rparr>"
  by (rule vdbe.equality) simp_all

lemma exec_Callback:
  assumes "xCallback E = None"
  shows "exec_op E (mk OP_Callback 1 0) (conf s [v] n) = Some (Return DBSQL_ROW ((conf s [stringify (fp E) v] n)\<lparr>
    azResColumn := [arg_of (stringify (fp E) v)], nResColumn := 1, popStack := 1, pc := int n + 1,
    rows := rows s @ [(1, Some [arg_of (stringify (fp E) v)], azColName s)]\<rparr>))"
  using assms by (simp add: run_op mk_def op_Callback_def Let_def stringify_top_def top_args_def conf_def)

lemma run_to_row:
  assumes c: "calm E s" and cb: "xCallback E = None" and p: "placed s n [mk OP_Callback 1 0]"
    and r: "reaches E (conf s [] 0) (conf s [v] n)"
  shows "\<exists>k. \<forall>j. exec_loop (k + j) E (conf s [] 0) = Done DBSQL_ROW ((conf s [stringify (fp E) v] n)\<lparr>
    azResColumn := [arg_of (stringify (fp E) v)], nResColumn := 1, popStack := 1, pc := int n + 1,
    rows := rows s @ [(1, Some [arg_of (stringify (fp E) v)], azColName s)]\<rparr>)"
proof -
  obtain k where k: "\<forall>j. exec_loop (k + j) E (conf s [] 0) = exec_loop j E (conf s [v] n)"
    using r by (auto simp: reaches_def)
  have "vdbe_step E (conf s [v] n) = Some (Stop DBSQL_ROW ((conf s [stringify (fp E) v] n)\<lparr>
      azResColumn := [arg_of (stringify (fp E) v)], nResColumn := 1, popStack := 1, pc := int n + 1,
      rows := rows s @ [(1, Some [arg_of (stringify (fp E) v)], azColName s)]\<rparr>))"
    using c p exec_Callback [OF cb, of s v n] by (auto simp: vdbe_step_def placed_one calm_def progress_def)
  then have "exec_loop (k + Suc j) E (conf s [] 0) = Done DBSQL_ROW ((conf s [stringify (fp E) v] n)\<lparr>
      azResColumn := [arg_of (stringify (fp E) v)], nResColumn := 1, popStack := 1, pc := int n + 1,
      rows := rows s @ [(1, Some [arg_of (stringify (fp E) v)], azColName s)]\<rparr>)" for j
    using k by (simp only: exec_loop.simps option.case outcome.case)
  then show ?thesis by (metis add_Suc_shift)
qed

lemma value_program_ext:
  assumes "gen_ok U H p" and "fits U H e"
  shows "appends (value_program e p) p (code U H e (nOp (gen_vm p)) @ [mk OP_Callback 1 0])"
  unfolding value_program_def
  by (rule seq_code [OF ready_gen_ok [OF assms(1)] fits_compiles [OF assms(2)]], rule last_emit, assumption, simp)

text \<open>A machine at its start whose program begins with the code of an expression and a Callback.\<close>

lemma step_delivers:
  fixes E :: "('f func_def, 'r, 'l) venv"
  assumes env: "\<not> diagnostic E" "xProgress E = None" "xCallback E = None" "\<And>f az d. xFunc E f az d = (g f az, False, d)"
    and s: "magic s = MAGIC_RUN" "rc s = 0" "popStack s = 0" "pc s = 0" "nProgress s = 0" "\<not> explain s" "stack s = []" "rows s = []"
      "dbmagic (db s) = STATUS_OPEN" "\<not> interrupt (db s)"
    and fit: "fits False H e" and X: "X = code False H e 0" and pl: "placed s 0 (X @ [mk OP_Callback 1 0])" and room: "length X \<le> nStack s"
    and v: "ev (value_world E g H (s\<lparr>db := snd (safety_on (db s))\<rparr>)) e = Some v"
  shows "\<exists>n t. \<forall>k. api_step (n + k) E s =
      Some (DBSQL_ROW, Some (1, Some [arg_of (stringify (fp E) v)], Some (azColName s)), t)
      \<and> dbmagic (db t) = STATUS_OPEN \<and> rows t = [(1, Some [arg_of (stringify (fp E) v)], azColName s)]"
proof -
  let ?a = "arg_of (stringify (fp E) v)"
  define b where "b = s\<lparr>db := (db s)\<lparr>dbmagic := STATUS_BUSY\<rparr>\<rparr>"
  have on: "safety_on (db s) = (False, db b)" "s\<lparr>db := db b\<rparr> = b" "dbmagic (db b) = STATUS_BUSY"
    using s(9) by (simp_all add: safety_on_def b_def)
  have cm: "calm E b" using env(1,2) s(10) by (simp add: calm_def b_def)
  have R: "runs_in (value_world E g H b) E" using cm env(4) unfolding runs_in_def value_world_simps by (simp add: b_def)
  have p: "placed b 0 X" "placed b (length X) [mk OP_Callback 1 0]" using pl unfolding placed_append by (simp_all add: placed_def b_def)
  have evb: "ev (value_world E g H b) e = Some v" using v unfolding on(1) snd_conv on(2) .
  have "reaches E (conf b [] 0) (conf b [v] (length X))"
    using computesD [OF fits_computes [OF R] evb _ _ reaches_refl, of 0 "[]"] fit p(1) room by (simp add: X b_def)
  from run_to_row [OF cm env(3) p(2) this] obtain n r where n: "\<And>k. exec_loop (n + k) E (conf b [] 0) = Done DBSQL_ROW r"
      and r: "r = (conf b [stringify (fp E) v] (length X))\<lparr>azResColumn := [?a], nResColumn := 1,
        popStack := 1, pc := int (length X) + 1, rows := rows b @ [(1, Some [?a], azColName b)]\<rparr>" by blast
  have fb: "rc b = 0" "popStack b = 0" "pc b = 0" "nProgress b = 0" "stack b = []" "magic b = MAGIC_RUN"
    using s by (simp_all add: b_def)
  have u: "b\<lparr>rc := 0\<rparr> = b" "b\<lparr>popStack := 0\<rparr> = b" "b\<lparr>nProgress := 0\<rparr> = b" "b\<lparr>stack := []\<rparr> = b"
    using vdbe_same [of b] fb by simp_all
  have c0: "b\<lparr>lpc := 0, nProgress := 0\<rparr> = conf b [] 0"
    unfolding conf_def u(4) using arg_cong [OF u(3), of "\<lambda>x. x\<lparr>lpc := 0\<rparr>"] vdbe_swap [where s = b and x = 0 and y = 0] by simp
  have ex: "vdbe_exec (n + k) E b = Done DBSQL_ROW r" for k
    unfolding vdbe_exec_def fb(6) using n by (simp add: pop_stack_def fb u c0 env(1))
  have fr: "db r = db b" "rows r = [(1, Some [?a], azColName s)]" "nResColumn r = 1" "azResColumn r = [?a]" "azColName r = azColName s"
    using s(8) by (simp_all add: r conf_def b_def)
  have "api_step (n + k) E s = Some (DBSQL_ROW, Some (1, Some [?a], Some (azColName s)), r\<lparr>db := (db b)\<lparr>dbmagic := STATUS_OPEN\<rparr>\<rparr>)" for k
    unfolding api_step_def on using s(1,6) ex [of k] by (simp add: on fr step_outputs_def safety_off_def)
  then show ?thesis using fr(2) by (intro exI [of _ n] exI [of _ "r\<lparr>db := (db b)\<lparr>dbmagic := STATUS_OPEN\<rparr>\<rparr>"]) simp
qed


lemma value_lt:
  "ev (value_world (test_env :: (unit func_def, rat, rat) venv) g H s) test_lt = Some (truth_cell rat_fpu (Some True))"
proof -
  have "ev (value_world (test_env :: (unit func_def, rat, rat) venv) g H s) test_lt =
      Some (truth_cell rat_fpu (cmp_truth (cmp_values rat_fpu) (rel_of ''TK_LT'')
        (number_cell rat_fpu ''TK_INTEGER'' ''2'' ''2'') (number_cell rat_fpu ''TK_INTEGER'' ''10'' ''10'')))"
    using test_lt_type by (simp add: test_lt_def ev_cmp cmp_ops_def test_num_ev cmp_by_def SO_NUM_def SO_TEXT_def str_unquote_def cstr_def)
  also have "cmp_truth (cmp_values rat_fpu) (rel_of ''TK_LT'')
      (number_cell rat_fpu ''TK_INTEGER'' ''2'' ''2'') (number_cell rat_fpu ''TK_INTEGER'' ''10'' ''10'') = Some True" by code_simp
  finally show ?thesis .
qed


end
